(* ===== verification/Prelude.thy ===== *)
theory Prelude
  imports Main "HOL-Library.AList" "HOL-Library.Sublist"
begin

section \<open>Shared types, arithmetic and hints\<close>

text \<open>
  What every component of the gateway's model uses: Go's time and duration values, int64
  wrap-around, Go maps as association lists, and the collections of simplification rules the
  component theories add to.

  A \<open>time.Time\<close> is its distance in nanoseconds from Go's zero time, so \<open>IsZero\<close> is
  \<open>t = 0\<close>. A \<open>time.Duration\<close> is an int64 count of nanoseconds, modelled as an
  integer; the operations of the source that can leave the int64 range are written with their
  saturation (\<open>Time.Sub\<close>) or wrap-around (\<open>+\<close>, \<open>-\<close>, \<open>*\<close> on durations).
  A Go map is a list of key/value pairs with distinct keys; the list's order stands for the
  unspecified iteration order, so no property depends on it.
\<close>

type_synonym gotime = int
type_synonym duration = int

named_theorems store_simps \<open>unfolding rules of the routing stores' operations\<close>
named_theorems facade_simps \<open>unfolding rules of the facade's operations\<close>
named_theorems link_simps \<open>unfolding rules of the account-link operations\<close>

subsection \<open>int64 arithmetic and time\<close>

definition wrap64 :: "int \<Rightarrow> int" where
  "wrap64 x = (x + 2 ^ 63) mod 2 ^ 64 - 2 ^ 63"

definition in_int64 :: "int \<Rightarrow> bool" where
  "in_int64 x \<longleftrightarrow> - (2 ^ 63) \<le> x \<and> x < 2 ^ 63"

lemma wrap64_in_int64 [simp]: "in_int64 (wrap64 x)"
proof -
  have "0 \<le> (x + 2 ^ 63) mod 2 ^ 64" and "(x + 2 ^ 63) mod 2 ^ 64 < (2 ^ 64 :: int)"
    by simp_all
  then show ?thesis by (simp add: in_int64_def wrap64_def)
qed

lemma wrap64_id: "in_int64 x \<Longrightarrow> wrap64 x = x"
  by (simp add: in_int64_def wrap64_def)

lemma in_int64I: "- (2 ^ 63) \<le> x \<Longrightarrow> x < 2 ^ 63 \<Longrightarrow> in_int64 x"
  by (simp add: in_int64_def)

text \<open>\<open>t.Sub(u)\<close> saturates at the ends of int64.\<close>

definition time_sub :: "gotime \<Rightarrow> gotime \<Rightarrow> duration" where
  "time_sub t u = max (- (2 ^ 63)) (min (2 ^ 63 - 1) (t - u))"

lemma time_sub_in_int64 [simp]: "in_int64 (time_sub t u)"
  by (simp add: time_sub_def in_int64_def)

lemma time_sub_exact: "in_int64 (t - u) \<Longrightarrow> time_sub t u = t - u"
  by (simp add: time_sub_def in_int64_def)

lemma time_sub_self [simp]: "time_sub t t = 0"
  by (simp add: time_sub_def)

lemma time_sub_mono: "t \<le> t' \<Longrightarrow> time_sub t u \<le> time_sub t' u"
  by (simp add: time_sub_def)

lemma time_sub_antimono: "u \<le> u' \<Longrightarrow> time_sub t u' \<le> time_sub t u"
  by (simp add: time_sub_def)

lemma time_sub_gt_iff: "d < 2 ^ 63 - 1 \<Longrightarrow> 0 \<le> d \<Longrightarrow> time_sub t u > d \<longleftrightarrow> t - u > d"
  by (auto simp: time_sub_def)

subsection \<open>Go maps\<close>

text \<open>
  \<open>m[k]\<close> is \<open>map_of m k\<close>, \<open>m[k] = v\<close> is \<open>AList.update k v m\<close> and
  \<open>delete(m, k)\<close> is \<open>AList.delete k m\<close>.
\<close>

abbreviation gomap :: "('k \<times> 'v) list \<Rightarrow> bool" where
  "gomap m \<equiv> distinct (map fst m)"

lemmas gomap_simps =
  AList.update_conv' AList.delete_conv' AList.distinct_update AList.distinct_delete

declare AList.update_conv' [simp] and AList.delete_conv' [simp]

lemma gomap_update [simp, intro]: "gomap m \<Longrightarrow> gomap (AList.update k v m)"
  by (rule AList.distinct_update)

lemma gomap_delete [simp, intro]: "gomap m \<Longrightarrow> gomap (AList.delete k m)"
  by (rule AList.distinct_delete)

lemma gomap_filter [simp, intro]: "gomap m \<Longrightarrow> gomap (filter P m)"
  by (simp add: distinct_map_filter)

lemma map_of_filter_gomap:
  "gomap m \<Longrightarrow>
   map_of (filter (\<lambda>(k, v). P k v) m) k =
     (case map_of m k of None \<Rightarrow> None | Some v \<Rightarrow> if P k v then Some v else None)"
proof (induction m)
  case Nil
  then show ?case by simp
next
  case (Cons kv m)
  then show ?case
    by (cases kv) (auto split: option.splits simp: map_of_eq_None_iff image_iff
        dest: map_of_SomeD)
qed

lemma gomap_set_iff: "gomap m \<Longrightarrow> (k, v) \<in> set m \<longleftrightarrow> map_of m k = Some v"
  by (rule map_of_eq_Some_iff [symmetric])

lemma map_of_update_same: "map_of (AList.update k v m) k = Some v"
  by simp

lemma map_of_update_other: "k \<noteq> k' \<Longrightarrow> map_of (AList.update k v m) k' = map_of m k'"
  by simp

end
