(* ===== verification/GoStrings.thy ===== *)
theory GoStrings
  imports Prelude
begin

section \<open>The parts of Go's strings package the gateway uses\<close>

text \<open>
  A Go string is a sequence of bytes; it is modelled as a list of 8-bit characters.
  \<open>strings.ReplaceAll\<close>, \<open>Split\<close>, \<open>Join\<close>, \<open>TrimPrefix\<close>,
  \<open>TrimSuffix\<close>, \<open>HasPrefix\<close>, \<open>HasSuffix\<close>, \<open>Contains\<close> and the
  \<open>%d\<close> verb are written as the functions below. Case folding and white space are the ASCII
  part of theirs.
\<close>

abbreviation bslash :: char where "bslash \<equiv> CHR 0x5C"
abbreviation bar :: char where "bar \<equiv> CHR ''|''"
abbreviation newline :: char where "newline \<equiv> CHR 0x0A"

subsection \<open>ReplaceAll\<close>

text \<open>Non-overlapping occurrences from the left; the pattern is not empty in the source.\<close>

fun replace_all :: "string \<Rightarrow> string \<Rightarrow> string \<Rightarrow> string" where
  "replace_all old new [] = []"
| "replace_all old new (c # s) =
     (if old \<noteq> [] \<and> prefix old (c # s)
      then new @ replace_all old new (drop (length old - 1) s)
      else c # replace_all old new s)"

definition contains :: "string \<Rightarrow> string \<Rightarrow> bool" where
  "contains s sub \<longleftrightarrow> sublist sub s"

lemma replace_all_char:
  "replace_all [a] new s = concat (map (\<lambda>c. if c = a then new else [c]) s)"
  by (induction s) auto

lemma replace_all_absent: "\<not> contains s old \<Longrightarrow> replace_all old new s = s"
proof (induction s)
  case Nil
  then show ?case by simp
next
  case (Cons c s)
  from Cons.prems have "\<not> prefix old (c # s)" and "\<not> contains s old"
    by (auto simp: contains_def sublist_Cons_right)
  with Cons.IH show ?case by simp
qed

lemma replace_all_longer_or_same:
  "length old = length new \<Longrightarrow> length (replace_all old new s) = length s"
proof (induction old new s rule: replace_all.induct)
  case (2 old new c s)
  then show ?case by (cases old) (auto dest: prefix_length_le)
qed simp

text \<open>With two different patterns of one length, replacing is the identity only without a match.\<close>

lemma replace_all_id_iff:
  assumes "length old = length new" and "old \<noteq> new"
  shows "replace_all old new s = s \<longleftrightarrow> \<not> contains s old"
proof
  show "\<not> contains s old \<Longrightarrow> replace_all old new s = s" by (rule replace_all_absent)
next
  from assms have ne: "old \<noteq> []" by auto
  show "replace_all old new s = s \<Longrightarrow> \<not> contains s old"
  proof (induction s)
    case Nil
    with ne show ?case by (simp add: contains_def)
  next
    case (Cons c s)
    show ?case
    proof (cases "prefix old (c # s)")
      case True
      then obtain r where r: "c # s = old @ r" by (auto simp: prefix_def)
      with ne have "drop (length old - 1) s = r" by (cases old) auto
      with Cons.prems True ne have "new @ replace_all old new r = c # s" by simp
      with r have "new @ replace_all old new r = old @ r" by simp
      with assms show ?thesis by simp
    next
      case False
      with Cons have "\<not> contains s old" by simp
      with False show ?thesis by (simp add: contains_def sublist_Cons_right)
    qed
  qed
qed

subsection \<open>Split and Join on one character\<close>

fun split_on :: "char \<Rightarrow> string \<Rightarrow> string list" where
  "split_on sep [] = [[]]"
| "split_on sep (c # s) =
     (if c = sep then [] # split_on sep s
      else case split_on sep s of [] \<Rightarrow> [[c]] | p # ps \<Rightarrow> (c # p) # ps)"

fun join :: "string \<Rightarrow> string list \<Rightarrow> string" where
  "join sep [] = []"
| "join sep [p] = p"
| "join sep (p # q # ps) = p @ sep @ join sep (q # ps)"

lemma split_on_nonempty [simp]: "split_on sep s \<noteq> []"
  by (induction s) (auto split: list.splits)

lemma split_on_free: "sep \<notin> set p \<Longrightarrow> split_on sep p = [p]"
  by (induction p) auto

lemma split_on_append:
  "sep \<notin> set p \<Longrightarrow> split_on sep (p @ sep # s) = p # split_on sep s"
  by (induction p) auto

lemma split_on_join:
  "ps \<noteq> [] \<Longrightarrow> (\<And>p. p \<in> set ps \<Longrightarrow> sep \<notin> set p) \<Longrightarrow> split_on sep (join [sep] ps) = ps"
proof (induction "[sep]" ps rule: join.induct)
  case (3 p q ps)
  then show ?case by (simp add: split_on_append)
qed (simp_all add: split_on_free)

lemma join_Cons: "ps \<noteq> [] \<Longrightarrow> join sep (p # ps) = p @ sep @ join sep ps"
  by (cases ps) simp_all

lemma join_Cons_Cons: "join sep ((c # p) # ps) = c # join sep (p # ps)"
  by (cases ps) simp_all

lemma join_split_on: "join [sep] (split_on sep s) = s"
proof (induction s)
  case (Cons c s)
  then show ?case
    by (cases "split_on sep s") (simp_all add: join_Cons join_Cons_Cons)
qed simp

lemma sublist_prepend: "sublist p t \<Longrightarrow> sublist p (a @ b @ t)"
  unfolding sublist_def by (metis append.assoc)

lemma join_sublist: "p \<in> set ps \<Longrightarrow> sublist p (join sep ps)"
proof (induction sep ps rule: join.induct)
  case (3 sep p' q ps)
  show ?case
  proof (cases "p = p'")
    case False
    with 3 show ?thesis by (simp add: sublist_prepend)
  qed simp
qed auto

lemma split_on_sublist: "p \<in> set (split_on sep s) \<Longrightarrow> sublist p s"
  using join_sublist [of p "split_on sep s" "[sep]"] by (simp add: join_split_on)

subsection \<open>Prefixes and suffixes\<close>

definition has_prefix :: "string \<Rightarrow> string \<Rightarrow> bool" where
  "has_prefix s p \<longleftrightarrow> prefix p s"

definition has_suffix :: "string \<Rightarrow> string \<Rightarrow> bool" where
  "has_suffix s p \<longleftrightarrow> suffix p s"

definition trim_prefix :: "string \<Rightarrow> string \<Rightarrow> string" where
  "trim_prefix s p = (if prefix p s then drop (length p) s else s)"

definition trim_suffix :: "string \<Rightarrow> string \<Rightarrow> string" where
  "trim_suffix s p = (if suffix p s then take (length s - length p) s else s)"

lemma trim_prefix_append [simp]: "trim_prefix (p @ s) p = s"
  by (simp add: trim_prefix_def)

lemma trim_suffix_append [simp]: "trim_suffix (s @ p) p = s"
  by (simp add: trim_suffix_def suffix_def)

subsection \<open>Decimal and hexadecimal\<close>

definition digit_char :: "nat \<Rightarrow> char" where
  "digit_char d = char_of (d + 48)"

fun decimal :: "nat \<Rightarrow> string" where
  "decimal n = (if n < 10 then [digit_char n] else decimal (n div 10) @ [digit_char (n mod 10)])"

declare decimal.simps [simp del]

lemma of_char_of_small: "n < 256 \<Longrightarrow> (of_char (char_of n :: char) :: nat) = n"
  by (simp add: take_bit_nat_eq_self)

lemma char_of_inj: "m < 256 \<Longrightarrow> n < 256 \<Longrightarrow> (char_of m :: char) = char_of n \<Longrightarrow> m = (n :: nat)"
  by (metis of_char_of_small)

lemma digit_char_inj: "d < 10 \<Longrightarrow> e < 10 \<Longrightarrow> digit_char d = digit_char e \<longleftrightarrow> d = e"
  by (auto simp: digit_char_def dest: char_of_inj [rotated 2])

lemma digit_char_ne_colon: "d < 10 \<Longrightarrow> digit_char d \<noteq> CHR '':''"
proof
  assume "d < 10" and "digit_char d = CHR '':''"
  then have "(of_char (digit_char d) :: nat) = of_char CHR '':''" by simp
  with \<open>d < 10\<close> show False by (simp add: digit_char_def take_bit_nat_eq_self)
qed

lemma decimal_nonempty [simp]: "decimal n \<noteq> []"
  by (subst decimal.simps) simp

lemma decimal_no_colon: "CHR '':'' \<notin> set (decimal n)"
proof (induction n rule: decimal.induct)
  case (1 n)
  then show ?case
    using digit_char_ne_colon [of n] digit_char_ne_colon [of "n mod 10"]
    by (subst decimal.simps) auto
qed

lemma decimal_inj: "decimal m = decimal n \<Longrightarrow> m = n"
proof (induction m arbitrary: n rule: decimal.induct)
  case (1 m)
  show ?case
  proof (cases "m < 10"; cases "n < 10")
    assume "m < 10" "n < 10"
    with "1.prems" show ?thesis by (simp add: decimal.simps digit_char_inj)
  next
    assume "m < 10" "\<not> n < 10"
    with "1.prems" have "length (decimal (n div 10)) = 0"
      by (simp add: decimal.simps [of m] decimal.simps [of n])
    then show ?thesis by simp
  next
    assume "\<not> m < 10" "n < 10"
    with "1.prems" have "length (decimal (m div 10)) = 0"
      by (simp add: decimal.simps [of m] decimal.simps [of n])
    then show ?thesis by simp
  next
    assume big: "\<not> m < 10" "\<not> n < 10"
    with "1.prems" have "decimal (m div 10) = decimal (n div 10)" and "m mod 10 = n mod 10"
      by (simp_all add: decimal.simps [of m] decimal.simps [of n] digit_char_inj)
    with "1.IH" [OF big(1)] have "m div 10 = n div 10" and "m mod 10 = n mod 10" by auto
    then show ?thesis by (metis div_mult_mod_eq)
  qed
qed

definition hex_digit :: "nat \<Rightarrow> char" where
  "hex_digit d = (if d < 10 then char_of (d + 48) else char_of (d + 87))"

definition hex_byte :: "char \<Rightarrow> string" where
  "hex_byte c = [hex_digit (of_char c div 16), hex_digit (of_char c mod 16)]"

definition hex_encode :: "string \<Rightarrow> string" where
  "hex_encode s = concat (map hex_byte s)"

lemma hex_digit_inj: "d < 16 \<Longrightarrow> e < 16 \<Longrightarrow> hex_digit d = hex_digit e \<Longrightarrow> d = e"
  by (auto simp: hex_digit_def split: if_splits dest: char_of_inj [rotated 2])

lemma hex_byte_inj: "hex_byte a = hex_byte b \<Longrightarrow> a = b"
proof -
  assume "hex_byte a = hex_byte b"
  then have hi: "hex_digit (of_char a div 16) = hex_digit (of_char b div 16)"
    and lo: "hex_digit (of_char a mod 16) = hex_digit (of_char b mod 16)"
    by (simp_all add: hex_byte_def)
  have bound: "(of_char c :: nat) div 16 < 16" for c :: char
    by (simp add: less_mult_imp_div_less)
  from hi lo have "(of_char a :: nat) div 16 = of_char b div 16"
    and "(of_char a :: nat) mod 16 = of_char b mod 16"
    using bound by (auto intro!: hex_digit_inj)
  then have "(of_char a :: nat) = of_char b" by (metis div_mult_mod_eq)
  then show ?thesis by simp
qed

lemma hex_encode_inj: "hex_encode s = hex_encode t \<Longrightarrow> s = t"
proof (induction s arbitrary: t)
  case Nil
  then show ?case by (cases t) (simp_all add: hex_encode_def hex_byte_def)
next
  case (Cons a s)
  then obtain b t' where t: "t = b # t'"
    by (cases t) (simp_all add: hex_encode_def hex_byte_def)
  with Cons.prems have "hex_byte a = hex_byte b" and "hex_encode s = hex_encode t'"
    by (simp_all add: hex_encode_def hex_byte_def)
  with Cons.IH t show ?case by (auto dest: hex_byte_inj)
qed

subsection \<open>Letter case\<close>

text \<open>
  \<open>strings.ToLower\<close> as far as a test against an ASCII string can see it: ASCII letters, and
  the two other letters whose lower case is an ASCII one (the Kelvin sign and the dotted capital
  I). The image of every other letter is outside ASCII, as the letter is.
\<close>

definition upper_char :: "char \<Rightarrow> char" where
  "upper_char c =
     (if 97 \<le> (of_char c :: nat) \<and> (of_char c :: nat) \<le> 122 then char_of (of_char c - 32 :: nat)
      else c)"

definition lower_char :: "char \<Rightarrow> char" where
  "lower_char c =
     (if 65 \<le> (of_char c :: nat) \<and> (of_char c :: nat) \<le> 90 then char_of (of_char c + 32 :: nat)
      else c)"

definition to_lower :: "string \<Rightarrow> string" where
  "to_lower s =
     map lower_char
       (replace_all [CHR 0xE2, CHR 0x84, CHR 0xAA] ''k'' (replace_all [CHR 0xC4, CHR 0xB0] ''i'' s))"

end
