(* ===== verification/RoutingKey.thy ===== *)
theory RoutingKey
  imports GoStrings
begin

section \<open>Routing keys\<close>

text \<open>
  \<open>pkg/routing/store/store.go\<close>: \<open>Key\<close>, \<open>Key.String\<close>, \<open>ParseKey\<close>,
  \<open>escape\<close>, \<open>unescape\<close>. The lemmas show that the serialised key separates threads
  (\<open>key_string_inj\<close>) and exactly which keys \<open>ParseKey\<close> gives back
  (\<open>parse_key_string_iff\<close>).
\<close>

record key =
  k_channel :: string
  k_channel_id :: string
  k_thread_id :: string

subsection \<open>escape and unescape\<close>

definition escape :: "string \<Rightarrow> string" where
  "escape s = replace_all [bar] [bslash, CHR ''p''] (replace_all [bslash] [bslash, bslash] s)"

definition unescape :: "string \<Rightarrow> string" where
  "unescape s = replace_all [bslash, bslash] [bslash] (replace_all [bslash, CHR ''p''] [bar] s)"

definition escape_char :: "char \<Rightarrow> string" where
  "escape_char c =
     (if c = bslash then [bslash, bslash] else if c = bar then [bslash, CHR ''p''] else [c])"

lemma escape_char_simps [simp]:
  "escape_char bslash = [bslash, bslash]"
  "escape_char bar = [bslash, CHR ''p'']"
  "c \<noteq> bslash \<Longrightarrow> c \<noteq> bar \<Longrightarrow> escape_char c = [c]"
  by (simp_all add: escape_char_def)

lemma escape_eq: "escape s = concat (map escape_char s)"
  unfolding escape_def replace_all_char
  by (induction s) (auto simp: escape_char_def)

lemma escape_Nil [simp]: "escape [] = []"
  by (simp add: escape_eq)

lemma escape_Cons: "escape (c # s) = escape_char c @ escape s"
  by (simp add: escape_eq)

lemma escape_no_bar: "bar \<notin> set (escape s)"
  by (induction s) (auto simp: escape_Cons escape_char_def)

lemma escape_char_cases:
  obtains (bs) "c = bslash" | (bar) "c = bar" | (other) "c \<noteq> bslash" "c \<noteq> bar"
  by blast

lemma escape_inj: "escape s = escape t \<Longrightarrow> s = t"
proof (induction s arbitrary: t)
  case Nil
  then show ?case by (cases t) (auto simp: escape_Cons escape_char_def split: if_splits)
next
  case (Cons c s)
  then obtain d t' where t: "t = d # t'"
    by (cases t) (auto simp: escape_Cons escape_char_def split: if_splits)
  with Cons show ?case
    by (auto simp: escape_Cons escape_char_def split: if_splits)
qed

text \<open>
  \<open>unescape\<close> replaces \<open>\p\<close> before \<open>\\\<close>, so the second backslash of an escaped
  backslash can pair up with a following \<open>p\<close>: what comes back has every \<open>\p\<close> of the
  original turned into \<open>\|\<close>.
\<close>

fun half_unescaped :: "string \<Rightarrow> string" where
  "half_unescaped [] = []"
| "half_unescaped [c] = (if c = bslash then [bslash, bslash] else [c])"
| "half_unescaped (c # d # s) =
     (if c \<noteq> bslash then c # half_unescaped (d # s)
      else if d = CHR ''p'' then bslash # bar # half_unescaped s
      else bslash # bslash # half_unescaped (d # s))"

lemma unescape_first_pass:
  "replace_all [bslash, CHR ''p''] [bar] (escape s) = half_unescaped s"
  by (induction s rule: half_unescaped.induct) (auto simp: escape_Cons escape_char_def)

lemma unescape_second_pass:
  "replace_all [bslash, bslash] [bslash] (half_unescaped s) =
   replace_all [bslash, CHR ''p''] [bslash, bar] s"
  by (induction s rule: half_unescaped.induct) auto

lemma unescape_escape:
  "unescape (escape s) = replace_all [bslash, CHR ''p''] [bslash, bar] s"
  by (simp add: unescape_def unescape_first_pass unescape_second_pass)

lemma unescape_escape_iff:
  "unescape (escape s) = s \<longleftrightarrow> \<not> contains s [bslash, CHR ''p'']"
  unfolding unescape_escape by (rule replace_all_id_iff) auto

subsection \<open>The serialised key\<close>

definition key_string :: "key \<Rightarrow> string" where
  "key_string k = join [bar] [escape (k_channel k), escape (k_channel_id k), escape (k_thread_id k)]"

definition parse_key :: "string \<Rightarrow> key option" where
  "parse_key s =
     (case split_on bar s of
        [a, b, c] \<Rightarrow>
          Some \<lparr>k_channel = unescape a, k_channel_id = unescape b, k_thread_id = unescape c\<rparr>
      | _ \<Rightarrow> None)"

lemma split_key_string:
  "split_on bar (key_string k) =
     [escape (k_channel k), escape (k_channel_id k), escape (k_thread_id k)]"
  unfolding key_string_def by (rule split_on_join) (auto simp: escape_no_bar)

lemma key_string_inj: "key_string k = key_string k' \<longleftrightarrow> k = k'"
proof
  assume "key_string k = key_string k'"
  then have "split_on bar (key_string k) = split_on bar (key_string k')" by simp
  then have "k_channel k = k_channel k'" "k_channel_id k = k_channel_id k'"
    "k_thread_id k = k_thread_id k'"
    by (auto simp: split_key_string dest: escape_inj)
  then show "k = k'" by simp
qed simp

lemma parse_key_string:
  "parse_key (key_string k) =
     Some \<lparr>k_channel = unescape (escape (k_channel k)),
           k_channel_id = unescape (escape (k_channel_id k)),
           k_thread_id = unescape (escape (k_thread_id k))\<rparr>"
  by (simp add: parse_key_def split_key_string)

text \<open>The parts of a key no part of which holds a backslash followed by a p.\<close>

definition plain_key :: "key \<Rightarrow> bool" where
  "plain_key k \<longleftrightarrow>
     (\<forall>s \<in> {k_channel k, k_channel_id k, k_thread_id k}. \<not> contains s [bslash, CHR ''p''])"

lemma parse_key_string_iff: "parse_key (key_string k) = Some k \<longleftrightarrow> plain_key k"
  by (cases k) (auto simp: parse_key_string plain_key_def unescape_escape_iff)

lemma parse_key_four_parts: "length (split_on bar s) \<noteq> 3 \<Longrightarrow> parse_key s = None"
  by (auto simp: parse_key_def split: list.splits)

text \<open>A thread of a Slack channel, for the examples of the other theories.\<close>

definition thread_a :: key where
  "thread_a = \<lparr>k_channel = ''slack'', k_channel_id = ''C1'', k_thread_id = ''17.5''\<rparr>"

lemma plain_thread_a [simp]: "plain_key thread_a"
  by (simp add: plain_key_def thread_a_def contains_def sublist_code)

subsection \<open>Properties\<close>

text \<open>C37: Two threads share a row of the store exactly when they are one thread: the
  serialised form of a key keeps the channel, the conversation and the thread apart, whatever
  bytes the three contain.\<close>

theorem key_string_keeps_threads_apart:
  "key_string \<lparr>k_channel = c, k_channel_id = i, k_thread_id = t\<rparr> =
     key_string \<lparr>k_channel = c', k_channel_id = i', k_thread_id = t'\<rparr> \<longleftrightarrow>
   c = c' \<and> i = i' \<and> t = t'"
  by (simp add: key_string_inj)

text \<open>C38: \<open>ParseKey\<close> gives back the key it was serialised from exactly when no part of
  the key contains a backslash followed by a \<open>p\<close>. Its comment says it inverts
  \<open>Key.String\<close>; for those keys it does not, because it undoes the two escapes in the order
  that turns an escaped backslash before a \<open>p\<close> into a bar.\<close>

theorem parse_key_inverts_exactly:
  "parse_key (key_string k) = Some k \<longleftrightarrow>
     \<not> contains (k_channel k) [bslash, CHR ''p''] \<and>
     \<not> contains (k_channel_id k) [bslash, CHR ''p''] \<and>
     \<not> contains (k_thread_id k) [bslash, CHR ''p'']"
  by (simp add: parse_key_string_iff plain_key_def)

end
