(* ===== verification/Records.thy ===== *)
theory Records
  imports RoutingKey Complex_Main
begin

section \<open>The records the routing store keeps\<close>

text \<open>
  The structs of \<open>pkg/routing/store/store.go\<close>: a thread's \<open>Entry\<close> with its share,
  share refusal, workspace choice and delivery position, the \<open>Review\<close> record with the
  decision, conversation and egress-refusal parts, and their methods. A nil pointer is
  \<open>None\<close>. A nil slice and an empty one are one value, because no code of the gateway
  tells them apart; \<open>Resume\<close>, which is compared with nil, is an optional Go map.
\<close>

subsection \<open>JSON values\<close>

text \<open>What \<open>any\<close> and \<open>json.RawMessage\<close> hold after \<open>encoding/json\<close> decoded them.\<close>

datatype json =
    JNull
  | JBool bool
  | JNum rat
  | JStr string
  | JArr "json list"
  | JObj "(string \<times> json) list"

type_synonym json_map = "(string \<times> json) list"

subsection \<open>Thread rows\<close>

record workspace_choice =
  wc_namespace :: string
  wc_name :: string
  wc_none :: bool

record share =
  sh_id :: string
  sh_instance :: string
  sh_sealed :: string
  sh_expires_at :: gotime

record share_refusal =
  sr_instance :: string
  sr_reason :: string

record delivered =
  dl_text_len :: int
  dl_stream_ts :: string
  dl_stream_len :: int

record entry =
  e_agent_ref :: string
  e_instance :: string
  e_task_id :: string
  e_resume :: "(string \<times> string) list option"
  e_delivered :: delivered
  e_share :: "share option"
  e_share_refusal :: "share_refusal option"
  e_creator :: string
  e_workspace :: "workspace_choice option"
  e_readers :: "string list"
  e_initiator :: string
  e_granted :: "string list"
  e_held :: "json option"
  e_muted_at :: string
  e_created_at :: gotime
  e_last_seen :: gotime
  e_ttl :: duration

definition zero_delivered :: delivered where
  "zero_delivered = \<lparr>dl_text_len = 0, dl_stream_ts = [], dl_stream_len = 0\<rparr>"

definition zero_entry :: entry where
  "zero_entry =
     \<lparr>e_agent_ref = [], e_instance = [], e_task_id = [], e_resume = None,
      e_delivered = zero_delivered, e_share = None, e_share_refusal = None, e_creator = [],
      e_workspace = None, e_readers = [], e_initiator = [], e_granted = [], e_held = None,
      e_muted_at = [], e_created_at = 0, e_last_seen = 0, e_ttl = 0\<rparr>"

definition delivered_is_zero :: "delivered \<Rightarrow> bool" where
  "delivered_is_zero d \<longleftrightarrow> dl_text_len d = 0 \<and> dl_stream_ts d = []"

definition entry_expired :: "entry \<Rightarrow> gotime \<Rightarrow> bool" where
  "entry_expired e now \<longleftrightarrow>
     (if e_ttl e \<le> 0 then False else time_sub now (e_last_seen e) > e_ttl e)"

lemma entry_expired_mono: "t \<le> t' \<Longrightarrow> entry_expired e t \<Longrightarrow> entry_expired e t'"
  by (auto simp: entry_expired_def dest: time_sub_mono [of _ _ "e_last_seen e"] split: if_splits)

lemma entry_never_expires: "e_ttl e \<le> 0 \<Longrightarrow> \<not> entry_expired e now"
  by (simp add: entry_expired_def)

lemma entry_fresh: "e_last_seen e = now \<Longrightarrow> \<not> entry_expired e now"
  by (simp add: entry_expired_def)

lemma zero_entry_simps [simp]:
  "e_agent_ref zero_entry = []" "e_instance zero_entry = []" "e_task_id zero_entry = []"
  "e_resume zero_entry = None" "e_delivered zero_entry = zero_delivered"
  "e_share zero_entry = None" "e_share_refusal zero_entry = None" "e_creator zero_entry = []"
  "e_workspace zero_entry = None" "e_readers zero_entry = []" "e_initiator zero_entry = []"
  "e_granted zero_entry = []" "e_held zero_entry = None" "e_muted_at zero_entry = []"
  "e_created_at zero_entry = 0" "e_last_seen zero_entry = 0" "e_ttl zero_entry = 0"
  by (simp_all add: zero_entry_def)

subsection \<open>WorkspaceChoice\<close>

definition ws_chosen :: "workspace_choice option \<Rightarrow> bool" where
  "ws_chosen w = (case w of None \<Rightarrow> False | Some c \<Rightarrow> \<not> wc_none c)"

definition ws_equal :: "workspace_choice option \<Rightarrow> workspace_choice option \<Rightarrow> bool" where
  "ws_equal w v =
     (case (w, v) of
        (Some a, Some b) \<Rightarrow> a = b
      | (None, None) \<Rightarrow> True
      | _ \<Rightarrow> False)"

definition ws_string :: "workspace_choice option \<Rightarrow> string" where
  "ws_string w =
     (case w of
        None \<Rightarrow> []
      | Some c \<Rightarrow>
          if wc_none c then ''none''
          else if wc_namespace c = [] then wc_name c
          else wc_namespace c @ ''/'' @ wc_name c)"

lemma ws_equal_iff [simp]: "ws_equal w v \<longleftrightarrow> w = v"
  by (cases w; cases v) (simp_all add: ws_equal_def)

subsection \<open>Review records\<close>

record decision_option =
  do_label :: string
  do_consequence :: string

record decision =
  d_note :: string
  d_status_quo :: string
  d_options :: "decision_option list"
  d_recommend :: int
  d_due :: gotime
  d_default :: string
  d_asked_by :: string
  d_outcome :: string
  d_choice :: int
  d_answer :: string
  d_close_text :: string
  d_closed_at :: gotime

record conversation =
  cv_person :: string
  cv_slack_user :: string
  cv_from :: string

record refusal =
  rf_namespace :: string
  rf_agent :: string
  rf_display_name :: string
  rf_creator :: string
  rf_runtime :: string
  rf_harness_title :: string
  rf_scheme :: string
  rf_host :: string
  rf_port :: int
  rf_agent_url :: string
  rf_count :: int
  rf_sessions :: "string list"
  rf_more_sessions :: int
  rf_first_at :: gotime
  rf_last_at :: gotime

record review =
  r_id :: string
  r_channel :: string
  r_ts :: string
  r_team :: string
  r_text :: string
  r_link :: string
  r_actor :: string
  r_pull_requests :: "string list"
  r_tool :: string
  r_arguments :: json_map
  r_deny_tool :: string
  r_deny_arguments :: json_map
  r_decided_by :: string
  r_claimed_at :: gotime
  r_done :: bool
  r_denied :: bool
  r_status :: string
  r_decision :: "decision option"
  r_conversation :: "conversation option"
  r_refusal :: "refusal option"
  r_posted_at :: gotime
  r_ttl :: duration

definition review_expired :: "review \<Rightarrow> gotime \<Rightarrow> bool" where
  "review_expired r now \<longleftrightarrow>
     (if r_ttl r \<le> 0 then False else time_sub now (r_posted_at r) > r_ttl r)"

lemma review_expired_mono: "t \<le> t' \<Longrightarrow> review_expired r t \<Longrightarrow> review_expired r t'"
  by (auto simp: review_expired_def dest: time_sub_mono [of _ _ "r_posted_at r"] split: if_splits)

end
