(* ===== verification/Channel.thy ===== *)
theory Channel
  imports Records
begin

section \<open>The types between the facade and a channel adapter\<close>

text \<open>
  \<open>pkg/channels/channel.go\<close> and \<open>pkg/channels/hitl.go\<close>: the inbound message, the
  outbound delta, the prompt of a paused task and the decision that answers it; and
  \<open>pkg/a2a/context.go\<close>: the identity a call on the controller carries.

  A Go error is what the gateway asks of it: its text, whether it wraps
  \<open>ErrAgentNotPermitted\<close>, the runtime's class when it is a \<open>FailureReasoner\<close>, and the
  task state when it is a \<open>*taskEnded\<close>. The task states are the ones the source names; the
  A2A library's other states are \<open>TOther\<close>, and its \<open>Terminal\<close> is an argument of the
  definitions that use it.
\<close>

datatype task_state =
    TSubmitted | TWorking | TInputRequired | TAuthRequired | TCompleted | TFailed
  | TOther string

record go_error =
  ge_text :: string
  ge_not_permitted :: bool
  ge_reason :: "string option"
  ge_task_state :: "task_state option"

definition plain_error :: "string \<Rightarrow> go_error" where
  "plain_error text =
     \<lparr>ge_text = text, ge_not_permitted = False, ge_reason = None, ge_task_state = None\<rparr>"

definition task_ended :: "task_state \<Rightarrow> string \<Rightarrow> string \<Rightarrow> go_error" where
  "task_ended st reason failure_reason =
     \<lparr>ge_text = reason, ge_not_permitted = False, ge_reason = Some failure_reason,
      ge_task_state = Some st\<rparr>"

definition is_task_failure :: "go_error option \<Rightarrow> bool" where
  "is_task_failure err =
     (case err of None \<Rightarrow> False | Some e \<Rightarrow> ge_task_state e = Some TFailed)"

subsection \<open>Human-in-the-loop types\<close>

record hitl_sign_in =
  si_id :: string
  si_server :: string
  si_message :: string
  si_url :: string

record hitl_tool =
  ht_id :: string
  ht_call_id :: string
  ht_name :: string
  ht_args :: json_map

record hitl_question =
  hq_question :: string
  hq_choices :: "string list"
  hq_multiple :: bool

record hitl_prompt =
  hp_tool_name :: string
  hp_hint :: string
  hp_status_text :: string
  hp_original_call_id :: string
  hp_args :: json_map
  hp_tools :: "hitl_tool list"
  hp_questions :: "hitl_question list"
  hp_sign_in :: "hitl_sign_in option"
  hp_request_id :: string

record hitl_decision =
  hd_type :: string
  hd_answers :: "string list list"
  hd_rejection_reason :: string
  hd_request_id :: string

definition zero_prompt :: hitl_prompt where
  "zero_prompt =
     \<lparr>hp_tool_name = [], hp_hint = [], hp_status_text = [], hp_original_call_id = [],
      hp_args = [], hp_tools = [], hp_questions = [], hp_sign_in = None, hp_request_id = []\<rparr>"

definition ask_user_tool_name :: string where
  "ask_user_tool_name = ''ask_user''"

definition is_sign_in :: "hitl_prompt option \<Rightarrow> bool" where
  "is_sign_in p = (case p of None \<Rightarrow> False | Some q \<Rightarrow> hp_sign_in q \<noteq> None)"

definition is_ask_user :: "hitl_prompt option \<Rightarrow> bool" where
  "is_ask_user p = (case p of None \<Rightarrow> False | Some q \<Rightarrow> hp_tool_name q = ask_user_tool_name)"

subsection \<open>InboundMessage\<close>

record attachment =
  at_filename :: string
  at_content_type :: string
  at_bytes :: string

record inbound =
  m_channel :: string
  m_channel_id :: string
  m_thread_id :: string
  m_text :: string
  m_attachments :: "attachment list"
  m_context :: string
  m_bearer :: string
  m_author :: string
  m_sender_id :: string
  m_collaborator :: bool
  m_owner_id :: string
  m_owner_token :: string
  m_agent_ref :: string
  m_workspace :: "workspace_choice option"
  m_grant :: string
  m_title :: string
  m_task_id :: string
  m_decision :: "hitl_decision option"
  m_resume :: "(string \<times> string) list option"

definition zero_inbound :: inbound where
  "zero_inbound =
     \<lparr>m_channel = [], m_channel_id = [], m_thread_id = [], m_text = [], m_attachments = [],
      m_context = [], m_bearer = [], m_author = [], m_sender_id = [], m_collaborator = False,
      m_owner_id = [], m_owner_token = [], m_agent_ref = [], m_workspace = None, m_grant = [],
      m_title = [], m_task_id = [], m_decision = None, m_resume = None\<rparr>"

record in_flight_turn =
  ift_msg :: inbound
  ift_task_id :: string
  ift_delivered :: delivered

subsection \<open>OutboundDelta\<close>

datatype delta_kind = DeltaText | DeltaPrompt | DeltaToolActivity | DeltaNarration

record turn_usage =
  tu_input :: int
  tu_output :: int
  tu_total :: int

datatype tool_kind = ToolCall | ToolResult

record tool_activity =
  ta_name :: string
  ta_kind :: tool_kind
  ta_call_id :: string
  ta_args :: json_map
  ta_response :: json_map
  ta_awaits_approval :: bool

record outbound_delta =
  od_kind :: delta_kind
  od_content :: string
  od_done :: bool
  od_err :: "go_error option"
  od_task_id :: string
  od_prompt :: "hitl_prompt option"
  od_usage :: "turn_usage option"
  od_tool :: "tool_activity option"

definition zero_delta :: outbound_delta where
  "zero_delta =
     \<lparr>od_kind = DeltaText, od_content = [], od_done = False, od_err = None, od_task_id = [],
      od_prompt = None, od_usage = None, od_tool = None\<rparr>"

definition delta_is_zero :: "outbound_delta \<Rightarrow> bool" where
  "delta_is_zero d \<longleftrightarrow>
     od_kind d = DeltaText \<and> od_content d = [] \<and> \<not> od_done d \<and> od_err d = None \<and>
     od_task_id d = [] \<and> od_prompt d = None \<and> od_usage d = None \<and> od_tool d = None"

definition delta_shows :: "outbound_delta \<Rightarrow> bool" where
  "delta_shows d \<longleftrightarrow>
     od_content d \<noteq> [] \<or> od_tool d \<noteq> None \<or> od_prompt d \<noteq> None \<or> od_kind d = DeltaPrompt"

lemma delta_is_zero_iff: "delta_is_zero d \<longleftrightarrow> d = zero_delta"
  by (cases d) (auto simp: delta_is_zero_def zero_delta_def)

text \<open>The delta that ends a turn: a failure, completion, or a prompt.\<close>

definition delta_ends :: "outbound_delta \<Rightarrow> bool" where
  "delta_ends d \<longleftrightarrow> od_err d \<noteq> None \<or> od_done d \<or> od_kind d = DeltaPrompt"

subsection \<open>The identity of a controller call\<close>

record call_ctx =
  cx_agent :: string
  cx_bearer :: string
  cx_share :: string

definition no_ctx :: call_ctx where
  "no_ctx = \<lparr>cx_agent = [], cx_bearer = [], cx_share = []\<rparr>"

definition with_agent_ref :: "call_ctx \<Rightarrow> string \<Rightarrow> call_ctx" where
  "with_agent_ref c agent_ref = c\<lparr>cx_agent := agent_ref\<rparr>"

definition with_forwarded_token :: "call_ctx \<Rightarrow> string \<Rightarrow> call_ctx" where
  "with_forwarded_token c token = (if token = [] then c else c\<lparr>cx_bearer := token\<rparr>)"

definition with_share_token :: "call_ctx \<Rightarrow> string \<Rightarrow> call_ctx" where
  "with_share_token c token = (if token = [] then c else c\<lparr>cx_share := token\<rparr>)"

definition with_caller_auth :: "call_ctx \<Rightarrow> inbound \<Rightarrow> call_ctx" where
  "with_caller_auth c msg =
     with_forwarded_token (with_agent_ref c (m_agent_ref msg)) (m_bearer msg)"

definition with_owner_auth :: "call_ctx \<Rightarrow> inbound \<Rightarrow> call_ctx" where
  "with_owner_auth c msg =
     (if m_owner_token msg = [] then with_caller_auth c msg
      else with_forwarded_token (with_agent_ref c (m_agent_ref msg)) (m_owner_token msg))"

lemma ctx_agent [simp]:
  "cx_agent (with_caller_auth c msg) = m_agent_ref msg"
  "cx_agent (with_owner_auth c msg) = m_agent_ref msg"
  "cx_agent (with_share_token c t) = cx_agent c"
  by (simp_all add: with_caller_auth_def with_owner_auth_def with_share_token_def
      with_forwarded_token_def with_agent_ref_def)

lemma ctx_bearer:
  "cx_bearer (with_caller_auth c msg) = (if m_bearer msg = [] then cx_bearer c else m_bearer msg)"
  "m_owner_token msg \<noteq> [] \<Longrightarrow> cx_bearer (with_owner_auth c msg) = m_owner_token msg"
  "m_owner_token msg = [] \<Longrightarrow> with_owner_auth c msg = with_caller_auth c msg"
  "cx_bearer (with_share_token c t) = cx_bearer c"
  by (simp_all add: with_caller_auth_def with_owner_auth_def with_share_token_def
      with_forwarded_token_def with_agent_ref_def)

end
