(* ===== verification/Title.thy ===== *)
theory Title
  imports Channel
begin

section \<open>Conversation titles\<close>

text \<open>
  \<open>pkg/channels/title.go\<close>: \<open>TitleFrom\<close> and \<open>sessionName\<close>. A title is computed on
  runes, so the theory starts with UTF-8 as Go decodes it (an invalid byte is the rune U+FFFD of
  width one) and the rune classes of the \<open>unicode\<close> package the code asks for.
\<close>

subsection \<open>Runes\<close>

type_synonym rune = nat

definition is_cont :: "nat \<Rightarrow> bool" where
  "is_cont b \<longleftrightarrow> 0x80 \<le> b \<and> b \<le> 0xBF"

definition rune_error :: rune where
  "rune_error = 0xFFFD"

text \<open>The first rune of a non-empty byte sequence and how many bytes it takes.\<close>

fun decode_rune :: "nat list \<Rightarrow> rune \<times> nat" where
  "decode_rune [] = (rune_error, 0)"
| "decode_rune (a # s) =
     (if a < 0x80 then (a, 1)
      else if 0xC2 \<le> a \<and> a \<le> 0xDF then
        (case s of
           b # _ \<Rightarrow> if is_cont b then ((a - 0xC0) * 64 + (b - 0x80), 2) else (rune_error, 1)
         | _ \<Rightarrow> (rune_error, 1))
      else if 0xE0 \<le> a \<and> a \<le> 0xEF then
        (case s of
           b # c # _ \<Rightarrow>
             if is_cont b \<and> is_cont c \<and> (a = 0xE0 \<longrightarrow> 0xA0 \<le> b) \<and> (a = 0xED \<longrightarrow> b \<le> 0x9F)
             then ((a - 0xE0) * 4096 + (b - 0x80) * 64 + (c - 0x80), 3) else (rune_error, 1)
         | _ \<Rightarrow> (rune_error, 1))
      else if 0xF0 \<le> a \<and> a \<le> 0xF4 then
        (case s of
           b # c # d # _ \<Rightarrow>
             if is_cont b \<and> is_cont c \<and> is_cont d \<and> (a = 0xF0 \<longrightarrow> 0x90 \<le> b) \<and>
                (a = 0xF4 \<longrightarrow> b \<le> 0x8F)
             then ((a - 0xF0) * 262144 + (b - 0x80) * 4096 + (c - 0x80) * 64 + (d - 0x80), 4)
             else (rune_error, 1)
         | _ \<Rightarrow> (rune_error, 1))
      else (rune_error, 1))"

lemma decode_rune_width: "s \<noteq> [] \<Longrightarrow> 0 < snd (decode_rune s)"
  by (cases s) (auto split: list.splits)

function decode_bytes :: "nat list \<Rightarrow> rune list" where
  "decode_bytes s =
     (if s = [] then [] else fst (decode_rune s) # decode_bytes (drop (snd (decode_rune s)) s))"
  by pat_completeness auto
termination
  by (relation "measure length") (auto intro!: diff_less decode_rune_width)

declare decode_bytes.simps [simp del]

definition runes_of :: "string \<Rightarrow> rune list" where
  "runes_of s = decode_bytes (map of_char s)"

definition encode_rune :: "rune \<Rightarrow> nat list" where
  "encode_rune r =
     (if r < 0x80 then [r]
      else if r < 0x800 then [0xC0 + r div 64, 0x80 + r mod 64]
      else if 0xD800 \<le> r \<and> r \<le> 0xDFFF \<or> 0x10FFFF < r then [0xEF, 0xBF, 0xBD]
      else if r < 0x10000 then [0xE0 + r div 4096, 0x80 + r div 64 mod 64, 0x80 + r mod 64]
      else [0xF0 + r div 262144, 0x80 + r div 4096 mod 64, 0x80 + r div 64 mod 64,
            0x80 + r mod 64])"

definition of_runes :: "rune list \<Rightarrow> string" where
  "of_runes rs = map char_of (concat (map encode_rune rs))"

definition is_control :: "rune \<Rightarrow> bool" where
  "is_control r \<longleftrightarrow> r \<le> 0x1F \<or> 0x7F \<le> r \<and> r \<le> 0x9F"

definition is_space :: "rune \<Rightarrow> bool" where
  "is_space r \<longleftrightarrow>
     9 \<le> r \<and> r \<le> 13 \<or> r = 0x20 \<or> r = 0x85 \<or> r = 0xA0 \<or> r = 0x1680 \<or>
     0x2000 \<le> r \<and> r \<le> 0x200A \<or> r = 0x2028 \<or> r = 0x2029 \<or> r = 0x202F \<or> r = 0x205F \<or>
     r = 0x3000"

text \<open>\<open>strings.Fields\<close>: the maximal runs of runes that are not white space.\<close>

fun rune_fields_from :: "rune list \<Rightarrow> rune list \<Rightarrow> rune list list" where
  "rune_fields_from w [] = (if w = [] then [] else [w])"
| "rune_fields_from w (r # rs) =
     (if is_space r then (if w = [] then [] else [w]) @ rune_fields_from [] rs
      else rune_fields_from (w @ [r]) rs)"

definition rune_fields :: "rune list \<Rightarrow> rune list list" where
  "rune_fields rs = rune_fields_from [] rs"

fun join_runes :: "rune list list \<Rightarrow> rune list" where
  "join_runes [] = []"
| "join_runes [w] = w"
| "join_runes (w # v # ws) = w @ 0x20 # join_runes (v # ws)"

text \<open>\<open>head[:i]\<close> at the last space, when that is past the first rune; else all of it.\<close>

definition cut_at_last_space :: "rune list \<Rightarrow> rune list" where
  "cut_at_last_space h =
     (let t = takeWhile (\<lambda>r. r \<noteq> 0x20) (rev h)
      in if length t + 1 < length h then take (length h - length t - 1) h else h)"

definition title_max :: nat where
  "title_max = 200"

definition title_runes :: "rune list \<Rightarrow> int \<Rightarrow> rune list" where
  "title_runes text mx =
     (if mx \<le> 0 then []
      else let s = join_runes (rune_fields (map (\<lambda>r. if is_control r then 0x20 else r) text))
           in if int (length s) \<le> mx then s
              else cut_at_last_space (take (nat mx - 1) s) @ [0x2026])"

definition title_from :: "string \<Rightarrow> int \<Rightarrow> string" where
  "title_from text mx = of_runes (title_runes (runes_of text) mx)"

definition session_name :: "inbound \<Rightarrow> string" where
  "session_name msg =
     title_from (if m_title msg = [] then m_text msg else m_title msg) (int title_max)"

subsection \<open>What a title is made of\<close>

definition words_ok :: "rune list list \<Rightarrow> bool" where
  "words_ok ws \<longleftrightarrow> (\<forall>w \<in> set ws. w \<noteq> [] \<and> (\<forall>r \<in> set w. \<not> is_space r))"

lemma rune_fields_from_ok:
  "(\<forall>r \<in> set w. \<not> is_space r) \<Longrightarrow> words_ok (rune_fields_from w rs)"
proof (induction w rs rule: rune_fields_from.induct)
  case (1 w)
  then show ?case by (simp add: words_ok_def)
next
  case (2 w r rs)
  show ?case
  proof (cases "is_space r")
    case True
    with "2.IH"(1) have "words_ok (rune_fields_from [] rs)" by simp
    with True "2.prems" show ?thesis by (auto simp: words_ok_def)
  next
    case False
    with "2.prems" have "\<forall>q \<in> set (w @ [r]). \<not> is_space q" by simp
    with "2.IH"(2) [OF False] False show ?thesis by simp
  qed
qed

lemma rune_fields_ok: "words_ok (rune_fields rs)"
  unfolding rune_fields_def by (rule rune_fields_from_ok) simp

lemma rune_fields_from_set:
  "w' \<in> set (rune_fields_from w rs) \<Longrightarrow> set w' \<subseteq> set w \<union> set rs"
proof (induction w rs arbitrary: w' rule: rune_fields_from.induct)
  case (1 w)
  then show ?case by (auto split: if_splits)
next
  case (2 w r rs)
  show ?case
  proof (cases "is_space r")
    case True
    with "2.prems" consider "w \<noteq> []" "w' = w" | "w' \<in> set (rune_fields_from [] rs)"
      by (auto split: if_splits)
    then show ?thesis using "2.IH"(1) [OF True] by cases auto
  next
    case False
    with "2.prems" have "w' \<in> set (rune_fields_from (w @ [r]) rs)" by simp
    from "2.IH"(2) [OF False this] show ?thesis by auto
  qed
qed

lemma join_runes_set: "set (join_runes ws) \<subseteq> insert 0x20 (\<Union> (set ` set ws))"
  by (induction ws rule: join_runes.induct) auto

lemma join_runes_Cons: "ws \<noteq> [] \<Longrightarrow> join_runes (w # ws) = w @ 0x20 # join_runes ws"
  by (cases ws) simp_all

lemma join_runes_hd: "words_ok (w # ws) \<Longrightarrow> join_runes (w # ws) \<noteq> [] \<and> \<not> is_space (hd (join_runes (w # ws)))"
  by (cases ws) (auto simp: words_ok_def join_runes_Cons)

lemma join_runes_last: "words_ok (w # ws) \<Longrightarrow> \<not> is_space (last (join_runes (w # ws)))"
proof (induction ws arbitrary: w)
  case Nil
  then show ?case by (simp add: words_ok_def)
next
  case (Cons v ws)
  then have "words_ok (v # ws)" by (simp add: words_ok_def)
  with Cons.IH [OF this] join_runes_hd [OF this] show ?case by simp
qed

lemma cut_prefix: "prefix (cut_at_last_space h) h"
  by (simp add: cut_at_last_space_def Let_def take_is_prefix)

lemma cut_nonempty: "h \<noteq> [] \<Longrightarrow> cut_at_last_space h \<noteq> []"
  by (auto simp: cut_at_last_space_def Let_def)

lemma prefix_hd: "prefix xs ys \<Longrightarrow> xs \<noteq> [] \<Longrightarrow> hd xs = hd ys"
  by (auto simp: prefix_def)

definition clean_runes :: "rune list \<Rightarrow> rune list" where
  "clean_runes text =
     join_runes (rune_fields (map (\<lambda>r. if is_control r then 0x20 else r) text))"

lemma clean_runes_edges:
  "clean_runes text \<noteq> [] \<Longrightarrow> \<not> is_space (hd (clean_runes text)) \<and> \<not> is_space (last (clean_runes text))"
  unfolding clean_runes_def
  using rune_fields_ok [of "map (\<lambda>r. if is_control r then 0x20 else r) text"]
  by (cases "rune_fields (map (\<lambda>r. if is_control r then 0x20 else r) text)")
    (auto dest: join_runes_hd join_runes_last)

lemma clean_runes_no_control: "r \<in> set (clean_runes text) \<Longrightarrow> \<not> is_control r"
proof -
  define m where "m = map (\<lambda>r. if is_control r then 0x20 else r) text"
  have "set w \<subseteq> set m" if "w \<in> set (rune_fields m)" for w
    using rune_fields_from_set [of w "[]" m] that by (simp add: rune_fields_def)
  moreover assume "r \<in> set (clean_runes text)"
  then have "r \<in> set (join_runes (rune_fields m))" by (simp add: clean_runes_def m_def)
  ultimately have "r = 0x20 \<or> r \<in> set m"
    using join_runes_set [of "rune_fields m"] by blast
  moreover have "\<not> is_control 0x20" by (simp add: is_control_def)
  ultimately show ?thesis by (auto simp: m_def split: if_splits)
qed

lemma title_runes_clean:
  "title_runes text mx =
     (if mx \<le> 0 then []
      else if int (length (clean_runes text)) \<le> mx then clean_runes text
      else cut_at_last_space (take (nat mx - 1) (clean_runes text)) @ [0x2026])"
  by (simp add: title_runes_def clean_runes_def Let_def)

lemma title_runes_length: "int (length (title_runes text mx)) \<le> max 0 mx"
  using prefix_length_le [OF cut_prefix, of "take (nat mx - 1) (clean_runes text)"]
  by (auto simp: title_runes_clean)

lemma title_runes_no_control: "r \<in> set (title_runes text mx) \<Longrightarrow> \<not> is_control r"
  using set_mono_prefix [OF cut_prefix, of "take (nat mx - 1) (clean_runes text)"]
  by (auto simp: title_runes_clean is_control_def [of "0x2026"] split: if_splits
      dest!: clean_runes_no_control in_set_takeD)

lemma title_runes_edges:
  assumes "title_runes text mx \<noteq> []"
  shows "\<not> is_space (hd (title_runes text mx)) \<and> \<not> is_space (last (title_runes text mx))"
proof (cases "int (length (clean_runes text)) \<le> mx")
  case True
  with assms show ?thesis
    using clean_runes_edges [of "text"] by (auto simp: title_runes_clean split: if_splits)
next
  case False
  note big = this
  let ?h = "take (nat mx - 1) (clean_runes text)"
  have ell: "\<not> is_space 0x2026" by (simp add: is_space_def)
  show ?thesis
  proof (cases "?h = []")
    case True
    with big assms ell show ?thesis
      by (auto simp: title_runes_clean cut_at_last_space_def split: if_splits)
  next
    case False
    note h = this
    have "hd (cut_at_last_space ?h) = hd (clean_runes text)"
      using prefix_hd [OF cut_prefix cut_nonempty [OF h]] prefix_hd [OF take_is_prefix h]
      by (rule trans)
    moreover from h have "clean_runes text \<noteq> []" by auto
    ultimately show ?thesis
      using big assms ell h cut_nonempty [OF h] clean_runes_edges [of "text"]
      by (auto simp: title_runes_clean split: if_splits)
  qed
qed

subsection \<open>Properties\<close>

text \<open>A session title never exceeds the requested number of characters, contains no
  control character, and neither starts nor ends with white space, whatever text it is cut
  from.\<close>

theorem title_fits:
  "int (length (title_runes rs mx)) \<le> max 0 mx \<and>
   (\<forall>r. r \<in> set (title_runes rs mx) \<longrightarrow> \<not> is_control r) \<and>
   (title_runes rs mx \<noteq> [] \<longrightarrow>
      \<not> is_space (hd (title_runes rs mx)) \<and> \<not> is_space (last (title_runes rs mx)))"
  using title_runes_length title_runes_no_control title_runes_edges by auto

theorem title_fits_witness:
  "title_runes [32, 72, 105, 7] 5 \<noteq> [] \<and> \<not> is_space (hd (title_runes [32, 72, 105, 7] 5))"
proof -
  have "title_runes [32, 72, 105, 7] 5 \<noteq> []"
    by (simp add: title_runes_clean clean_runes_def rune_fields_def is_space_def is_control_def)
  with title_fits [of "[32, 72, 105, 7]" 5] show ?thesis by blast
qed

end
