(* ===== verification/A2A.thy ===== *)
theory A2A
  imports Channel Title
begin

section \<open>Tasks, messages and the human-in-the-loop payloads\<close>

text \<open>
  The A2A values the gateway reads (\<open>a2a.Part\<close>, \<open>Message\<close>, \<open>Artifact\<close>,
  \<open>Task\<close> and the streamed events, with the fields the source uses), \<open>pkg/a2a/hitl.go\<close>
  and \<open>pkg/channels/hitl_parse.go\<close>: the typed HITL requests and responses, the prompt a
  channel shows, the parts of an outbound message and the tool activity and token usage of an
  event.

  A metadata map is an association list with distinct keys and a missing key is nil. A part holds
  text, bytes or data; \<open>Text()\<close> and \<open>Data()\<close> of another kind of part are empty. The
  payload of a request is decoded by \<open>encoding/json\<close>: a missing or null field is zero, a
  field of another type is an error, and a key names the field whose tag it equals up to case (of
  several such keys the model reads one; the protocol sends each once).
\<close>

subsection \<open>The A2A values\<close>

datatype part_content = PText string | PRaw string | PData json

record part =
  pt_content :: part_content
  pt_filename :: string
  pt_media :: string
  pt_meta :: json_map

datatype role = RoleUser | RoleAgent | RoleOther

record message =
  ms_role :: role
  ms_task_id :: string
  ms_parts :: "part option list"
  ms_meta :: json_map
  ms_extensions :: "string list"

record artifact =
  ar_id :: string
  ar_parts :: "part option list"
  ar_meta :: json_map

record task_status =
  st_state :: task_state
  st_message :: "message option"

record task =
  tk_id :: string
  tk_status :: task_status
  tk_artifacts :: "artifact option list"
  tk_history :: "message option list"
  tk_meta :: json_map

record artifact_update =
  au_task_id :: string
  au_artifact :: "artifact option"
  au_append :: bool
  au_meta :: json_map

datatype event =
    ArtifactUpdate artifact_update
  | StatusUpdate string task_status json_map
  | WholeTask task
  | BareMessage message

definition part_text :: "part \<Rightarrow> string" where
  "part_text p = (case pt_content p of PText s \<Rightarrow> s | _ \<Rightarrow> [])"

definition part_data :: "part \<Rightarrow> json" where
  "part_data p = (case pt_content p of PData v \<Rightarrow> v | _ \<Rightarrow> JNull)"

definition text_part :: "string \<Rightarrow> part" where
  "text_part s = \<lparr>pt_content = PText s, pt_filename = [], pt_media = [], pt_meta = []\<rparr>"

definition extract_text :: "part option list \<Rightarrow> string" where
  "extract_text ps = concat (map (\<lambda>p. case p of None \<Rightarrow> [] | Some q \<Rightarrow> part_text q) ps)"

definition message_parts :: "message option \<Rightarrow> part option list" where
  "message_parts m = (case m of None \<Rightarrow> [] | Some x \<Rightarrow> ms_parts x)"

subsection \<open>Reading untyped values\<close>

definition as_string :: "json option \<Rightarrow> string option" where
  "as_string v = (case v of Some (JStr s) \<Rightarrow> Some s | _ \<Rightarrow> None)"

definition as_bool :: "json option \<Rightarrow> bool option" where
  "as_bool v = (case v of Some (JBool b) \<Rightarrow> Some b | _ \<Rightarrow> None)"

definition as_map :: "json option \<Rightarrow> json_map option" where
  "as_map v = (case v of Some (JObj m) \<Rightarrow> Some m | _ \<Rightarrow> None)"

definition or_empty :: "'a list option \<Rightarrow> 'a list" where
  "or_empty v = (case v of None \<Rightarrow> [] | Some s \<Rightarrow> s)"

lemma or_empty_simps [simp]: "or_empty None = []" "or_empty (Some s) = s"
  by (simp_all add: or_empty_def)

fun first_string :: "json_map \<Rightarrow> string list \<Rightarrow> string option" where
  "first_string md [] = None"
| "first_string md (k # ks) =
     (case as_string (map_of md k) of Some v \<Rightarrow> Some v | None \<Rightarrow> first_string md ks)"

fun first_bool :: "json_map \<Rightarrow> string list \<Rightarrow> bool option" where
  "first_bool md [] = None"
| "first_bool md (k # ks) =
     (case as_bool (map_of md k) of Some v \<Rightarrow> Some v | None \<Rightarrow> first_bool md ks)"

text \<open>\<open>int(f)\<close> of a float64 truncates toward zero.\<close>

definition md_int :: "json_map \<Rightarrow> string \<Rightarrow> int" where
  "md_int md k =
     (case map_of md k of
        Some (JNum x) \<Rightarrow> if 0 \<le> x then \<lfloor>x\<rfloor> else \<lceil>x\<rceil>
      | _ \<Rightarrow> 0)"

subsection \<open>Tool activity and usage\<close>

definition md_function_call :: string where "md_function_call = ''function_call''"
definition md_function_response :: string where "md_function_response = ''function_response''"

definition part_type :: "json_map \<Rightarrow> string" where
  "part_type md =
     or_empty (first_string md [''kagent.dev/a2a/part-type'', ''kagent_type'', ''adk_type''])"

definition is_confirmation_part :: "part option \<Rightarrow> bool" where
  "is_confirmation_part p =
     (case p of
        None \<Rightarrow> False
      | Some q \<Rightarrow>
          if part_type (pt_meta q) \<noteq> md_function_call then False
          else if first_bool (pt_meta q) [''kagent_is_long_running'', ''adk_is_long_running''] = Some True
          then True
          else or_empty (as_string (map_of (or_empty (as_map (Some (part_data q)))) ''name'')) =
               ''adk_request_confirmation'')"

definition has_function_call_part :: "part option list \<Rightarrow> bool" where
  "has_function_call_part ps =
     list_ex (\<lambda>p. case p of None \<Rightarrow> False | Some q \<Rightarrow> part_type (pt_meta q) = md_function_call) ps"

definition is_confirmation_required :: "json_map \<Rightarrow> bool" where
  "is_confirmation_required resp =
     has_suffix (or_empty (as_string (map_of resp ''error'')))
       ''requires confirmation, please approve or reject''"

definition tool_activity_delta :: "part option \<Rightarrow> outbound_delta" where
  "tool_activity_delta p =
     (case p of
        None \<Rightarrow> zero_delta
      | Some q \<Rightarrow>
          (let typ = part_type (pt_meta q)
           in if typ \<noteq> md_function_call \<and> typ \<noteq> md_function_response then zero_delta
              else if is_confirmation_part p then zero_delta
              else
                (let data = or_empty (as_map (Some (part_data q)));
                     name = or_empty (as_string (map_of data ''name''));
                     call_id = or_empty (as_string (map_of data ''id''));
                     response = or_empty (as_map (map_of data ''response''));
                     tool =
                       (if typ = md_function_response
                        then \<lparr>ta_name = name, ta_kind = ToolResult, ta_call_id = call_id,
                              ta_args = [], ta_response = response,
                              ta_awaits_approval = is_confirmation_required response\<rparr>
                        else \<lparr>ta_name = name, ta_kind = ToolCall, ta_call_id = call_id,
                              ta_args = or_empty (as_map (map_of data ''args'')),
                              ta_response = [], ta_awaits_approval = False\<rparr>)
                 in zero_delta\<lparr>od_kind := DeltaToolActivity, od_content := name,
                               od_tool := Some tool\<rparr>)))"

definition tool_activity_deltas :: "part option list \<Rightarrow> outbound_delta list" where
  "tool_activity_deltas ps = filter (\<lambda>d. \<not> delta_is_zero d) (map tool_activity_delta ps)"

definition narration_deltas :: "part option list \<Rightarrow> outbound_delta list" where
  "narration_deltas ps =
     (if \<not> has_function_call_part ps then []
      else if extract_text ps = [] then []
      else [zero_delta\<lparr>od_kind := DeltaNarration, od_content := extract_text ps\<rparr>])"

definition parse_turn_usage :: "json_map \<Rightarrow> turn_usage option" where
  "parse_turn_usage md =
     (case as_map (map_of md ''kagent.dev/a2a/usage'') of
        None \<Rightarrow> None
      | Some raw \<Rightarrow>
          Some \<lparr>tu_input = md_int raw ''promptTokenCount'',
                tu_output = md_int raw ''candidatesTokenCount'',
                tu_total = md_int raw ''totalTokenCount''\<rparr>)"

lemma tool_activity_kind:
  "d \<in> set (tool_activity_deltas ps) \<Longrightarrow>
   od_kind d = DeltaToolActivity \<and> od_tool d \<noteq> None \<and> od_err d = None \<and> \<not> od_done d"
  by (auto simp: tool_activity_deltas_def tool_activity_delta_def delta_is_zero_iff Let_def
      zero_delta_def split: option.splits if_splits)

subsection \<open>Typed HITL requests\<close>

record hitl_wire_tool =
  wt_id :: string
  wt_call_id :: string
  wt_name :: string
  wt_args :: json_map

record nested_request =
  nr_subagent :: string
  nr_task_id :: string
  nr_context_id :: string
  nr_tools :: "hitl_wire_tool list"

record tool_approval_request =
  tar_type :: string
  tar_hint :: string
  tar_tools :: "hitl_wire_tool list"
  tar_nested :: "nested_request option"

record ask_user_request =
  aur_type :: string
  aur_id :: string
  aur_questions :: "hitl_question list"
  aur_nested :: "nested_request option"

record url_elicitation_request =
  uer_type :: string
  uer_id :: string
  uer_server :: string
  uer_message :: string
  uer_url :: string
  uer_elicitation_id :: string

datatype hitl_request =
    ToolApproval tool_approval_request
  | AskUser ask_user_request
  | UrlElicitation url_elicitation_request

definition decided_tools :: "tool_approval_request \<Rightarrow> hitl_wire_tool list" where
  "decided_tools r = (case tar_nested r of None \<Rightarrow> tar_tools r | Some n \<Rightarrow> nr_tools n)"

definition response_id :: "ask_user_request \<Rightarrow> string" where
  "response_id r =
     (case aur_nested r of
        Some n \<Rightarrow> if length (nr_tools n) = 1 then wt_id (nr_tools n ! 0) else aur_id r
      | None \<Rightarrow> aur_id r)"

fun hitl_id :: "hitl_request \<Rightarrow> string" where
  "hitl_id (UrlElicitation r) = uer_id r"
| "hitl_id (AskUser r) = response_id r"
| "hitl_id (ToolApproval r) = join '','' (map wt_id (decided_tools r))"

subsection \<open>Decoding a payload\<close>

text \<open>
  The name folding of \<open>encoding/json\<close>: ASCII upper case, with the two other letters that
  fold to an ASCII one.
\<close>

definition fold_name :: "string \<Rightarrow> string" where
  "fold_name s =
     map upper_char
       (replace_all [CHR 0xE2, CHR 0x84, CHR 0xAA] ''K''
          (replace_all [CHR 0xC5, CHR 0xBF] ''S'' s))"

definition get_field :: "json_map \<Rightarrow> string \<Rightarrow> json option" where
  "get_field m f =
     (case map_of m f of
        Some v \<Rightarrow> Some v
      | None \<Rightarrow> map_of (map (\<lambda>(k, v). (fold_name k, v)) m) (fold_name f))"

definition string_field :: "json_map \<Rightarrow> string \<Rightarrow> string option" where
  "string_field m f =
     (case get_field m f of
        None \<Rightarrow> Some []
      | Some JNull \<Rightarrow> Some []
      | Some (JStr s) \<Rightarrow> Some s
      | Some _ \<Rightarrow> None)"

definition bool_field :: "json_map \<Rightarrow> string \<Rightarrow> bool option" where
  "bool_field m f =
     (case get_field m f of
        None \<Rightarrow> Some False
      | Some JNull \<Rightarrow> Some False
      | Some (JBool b) \<Rightarrow> Some b
      | Some _ \<Rightarrow> None)"

definition map_field :: "json_map \<Rightarrow> string \<Rightarrow> json_map option" where
  "map_field m f =
     (case get_field m f of
        None \<Rightarrow> Some []
      | Some JNull \<Rightarrow> Some []
      | Some (JObj o') \<Rightarrow> Some o'
      | Some _ \<Rightarrow> None)"

fun decode_all :: "(json \<Rightarrow> 'a option) \<Rightarrow> json list \<Rightarrow> 'a list option" where
  "decode_all d [] = Some []"
| "decode_all d (v # vs) =
     (case (d v, decode_all d vs) of (Some x, Some xs) \<Rightarrow> Some (x # xs) | _ \<Rightarrow> None)"

definition list_field :: "(json \<Rightarrow> 'a option) \<Rightarrow> json_map \<Rightarrow> string \<Rightarrow> 'a list option" where
  "list_field d m f =
     (case get_field m f of
        None \<Rightarrow> Some []
      | Some JNull \<Rightarrow> Some []
      | Some (JArr vs) \<Rightarrow> decode_all d vs
      | Some _ \<Rightarrow> None)"

definition pointer_field :: "(json \<Rightarrow> 'a option) \<Rightarrow> json_map \<Rightarrow> string \<Rightarrow> 'a option option" where
  "pointer_field d m f =
     (case get_field m f of
        None \<Rightarrow> Some None
      | Some JNull \<Rightarrow> Some None
      | Some v \<Rightarrow> map_option Some (d v))"

definition object_of :: "json \<Rightarrow> json_map option" where
  "object_of v = (case v of JNull \<Rightarrow> Some [] | JObj m \<Rightarrow> Some m | _ \<Rightarrow> None)"

definition decode_string :: "json \<Rightarrow> string option" where
  "decode_string v = (case v of JNull \<Rightarrow> Some [] | JStr s \<Rightarrow> Some s | _ \<Rightarrow> None)"

definition decode_tool :: "json \<Rightarrow> hitl_wire_tool option" where
  "decode_tool v =
     (case object_of v of
        None \<Rightarrow> None
      | Some m \<Rightarrow>
          (case (string_field m ''id'', string_field m ''call_id'', string_field m ''name'',
                 map_field m ''args'') of
             (Some i, Some c, Some n, Some a) \<Rightarrow>
               Some \<lparr>wt_id = i, wt_call_id = c, wt_name = n, wt_args = a\<rparr>
           | _ \<Rightarrow> None))"

definition decode_nested :: "json \<Rightarrow> nested_request option" where
  "decode_nested v =
     (case object_of v of
        None \<Rightarrow> None
      | Some m \<Rightarrow>
          (case (string_field m ''subagent_name'', string_field m ''task_id'',
                 string_field m ''context_id'', list_field decode_tool m ''tools'') of
             (Some s, Some t, Some c, Some ts) \<Rightarrow>
               Some \<lparr>nr_subagent = s, nr_task_id = t, nr_context_id = c, nr_tools = ts\<rparr>
           | _ \<Rightarrow> None))"

definition decode_question :: "json \<Rightarrow> hitl_question option" where
  "decode_question v =
     (case object_of v of
        None \<Rightarrow> None
      | Some m \<Rightarrow>
          (case (string_field m ''question'', list_field decode_string m ''choices'',
                 bool_field m ''multiple'') of
             (Some q, Some cs, Some b) \<Rightarrow>
               Some \<lparr>hq_question = q, hq_choices = cs, hq_multiple = b\<rparr>
           | _ \<Rightarrow> None))"

definition decode_approval :: "json_map \<Rightarrow> tool_approval_request option" where
  "decode_approval m =
     (case (string_field m ''type'', string_field m ''hint'', list_field decode_tool m ''tools'',
            pointer_field decode_nested m ''nested'') of
        (Some t, Some h, Some ts, Some n) \<Rightarrow>
          Some \<lparr>tar_type = t, tar_hint = h, tar_tools = ts, tar_nested = n\<rparr>
      | _ \<Rightarrow> None)"

definition decode_ask_user :: "json_map \<Rightarrow> ask_user_request option" where
  "decode_ask_user m =
     (case (string_field m ''type'', string_field m ''id'',
            list_field decode_question m ''questions'', pointer_field decode_nested m ''nested'') of
        (Some t, Some i, Some qs, Some n) \<Rightarrow>
          Some \<lparr>aur_type = t, aur_id = i, aur_questions = qs, aur_nested = n\<rparr>
      | _ \<Rightarrow> None)"

definition decode_elicitation :: "json_map \<Rightarrow> url_elicitation_request option" where
  "decode_elicitation m =
     (case (string_field m ''type'', string_field m ''id'', string_field m ''server'',
            string_field m ''message'', string_field m ''url'', string_field m ''elicitation_id'') of
        (Some t, Some i, Some s, Some ms, Some u, Some e) \<Rightarrow>
          Some \<lparr>uer_type = t, uer_id = i, uer_server = s, uer_message = ms, uer_url = u,
                uer_elicitation_id = e\<rparr>
      | _ \<Rightarrow> None)"

definition hitl_extension_uri :: string where
  "hitl_extension_uri = ''https://kagent.dev/extensions/hitl/v1''"

definition hitl_payload :: "message option \<Rightarrow> json_map option" where
  "hitl_payload msg =
     (case msg of
        None \<Rightarrow> None
      | Some m \<Rightarrow>
          if hitl_extension_uri \<notin> set (ms_extensions m) then None
          else as_map (map_of (ms_meta m) hitl_extension_uri))"

text \<open>
  \<open>ParseHITLRequest\<close>; \<open>url_parse\<close> is \<open>url.Parse\<close>'s scheme and host.
\<close>

definition parse_hitl_request ::
  "(string \<Rightarrow> (string \<times> string) option) \<Rightarrow> message option \<Rightarrow> string + hitl_request option" where
  "parse_hitl_request url_parse msg =
     (case hitl_payload msg of
        None \<Rightarrow> Inr None
      | Some raw \<Rightarrow>
          if map_of raw ''type'' = Some (JStr ''tool_approval_request'') then
            (case decode_approval raw of
               None \<Rightarrow> Inl ''decode tool approval request''
             | Some r \<Rightarrow>
                 if decided_tools r = [] then Inl ''tool approval request has no tools''
                 else Inr (Some (ToolApproval r)))
          else if map_of raw ''type'' = Some (JStr ''ask_user_request'') then
            (case decode_ask_user raw of
               None \<Rightarrow> Inl ''decode ask_user request''
             | Some r \<Rightarrow>
                 if response_id r = [] then Inl ''ask_user request has no id''
                 else Inr (Some (AskUser r)))
          else if map_of raw ''type'' = Some (JStr ''url_elicitation_request'') then
            (case decode_elicitation raw of
               None \<Rightarrow> Inl ''decode URL elicitation request''
             | Some r \<Rightarrow>
                 if uer_id r = [] then Inl ''URL elicitation request has no id''
                 else
                   (case url_parse (uer_url r) of
                      None \<Rightarrow> Inl ''URL elicitation request has no absolute http(s) URL''
                    | Some (scheme, host) \<Rightarrow>
                        if (scheme \<noteq> ''https'' \<and> scheme \<noteq> ''http'') \<or> host = []
                        then Inl ''URL elicitation request has no absolute http(s) URL''
                        else Inr (Some (UrlElicitation r))))
          else Inr None)"

end
