(* ===== verification/Hitl.thy ===== *)
theory Hitl
  imports A2A
begin

section \<open>Prompts and their answers\<close>

text \<open>
  \<open>hitlResponse\<close>, \<open>parseHitlPrompt\<close> and \<open>summary\<close> of
  \<open>pkg/channels/hitl_parse.go\<close>: what a channel shows for a paused task and the typed answer
  a decision becomes; \<open>AttachHITL\<close> of \<open>pkg/a2a/hitl.go\<close>.
\<close>

record tool_verdict =
  tv_id :: string
  tv_approved :: bool
  tv_reason :: string

datatype hitl_answer =
    ElicitationResponse string string
  | AskUserResponse string "string list list"
  | ApprovalResponse "tool_verdict list"

definition decision_approve :: string where "decision_approve = ''approve''"
definition decision_reject :: string where "decision_reject = ''reject''"

fun hitl_response :: "hitl_request \<Rightarrow> hitl_decision \<Rightarrow> hitl_answer" where
  "hitl_response (UrlElicitation r) d =
     ElicitationResponse (uer_id r) (if hd_type d = decision_approve then ''accept'' else ''decline'')"
| "hitl_response (AskUser r) d = AskUserResponse (response_id r) (hd_answers d)"
| "hitl_response (ToolApproval r) d =
     (let approved = (hd_type d = decision_approve)
      in ApprovalResponse
           (map (\<lambda>t. \<lparr>tv_id = wt_id t, tv_approved = approved,
                       tv_reason = (if approved then [] else hd_rejection_reason d)\<rparr>)
              (decided_tools r)))"

text \<open>
  The payload's JSON, with the tags of the response structs. The selections of a question are
  never nil here, so an empty list is the empty array.
\<close>

fun response_json :: "hitl_answer \<Rightarrow> json_map" where
  "response_json (ElicitationResponse i action) =
     [(''type'', JStr ''url_elicitation_response''), (''id'', JStr i), (''action'', JStr action)]"
| "response_json (AskUserResponse i answers) =
     [(''type'', JStr ''ask_user_response''), (''id'', JStr i)] @
     (if answers = [] then []
      else [(''answers'', JArr (map (\<lambda>a. JObj [(''answer'', JArr (map JStr a))]) answers))])"
| "response_json (ApprovalResponse vs) =
     [(''type'', JStr ''tool_approval_response''),
      (''approvals'', JArr (map (\<lambda>v. JObj ([(''id'', JStr (tv_id v)), (''approved'', JBool (tv_approved v))] @
         (if tv_reason v = [] then [] else [(''rejection_reason'', JStr (tv_reason v))]))) vs))]"

definition attach_hitl :: "message \<Rightarrow> hitl_answer \<Rightarrow> message" where
  "attach_hitl m r =
     m\<lparr>ms_meta := AList.update hitl_extension_uri (JObj (response_json r)) (ms_meta m),
       ms_extensions := (if hitl_extension_uri \<in> set (ms_extensions m) then ms_extensions m
                         else ms_extensions m @ [hitl_extension_uri])\<rparr>"

subsection \<open>The prompt\<close>

fun prompt_of :: "hitl_request \<Rightarrow> hitl_prompt" where
  "prompt_of (UrlElicitation r) =
     zero_prompt\<lparr>hp_sign_in := Some \<lparr>si_id = uer_id r, si_server = uer_server r,
                   si_message = uer_message r, si_url = uer_url r\<rparr>,
                 hp_request_id := hitl_id (UrlElicitation r)\<rparr>"
| "prompt_of (AskUser r) =
     zero_prompt\<lparr>hp_tool_name := ask_user_tool_name, hp_original_call_id := response_id r,
                 hp_request_id := hitl_id (AskUser r), hp_questions := aur_questions r\<rparr>"
| "prompt_of (ToolApproval r) =
     (let tools = map (\<lambda>t. \<lparr>ht_id = wt_id t, ht_call_id = wt_call_id t, ht_name = wt_name t,
                             ht_args = wt_args t\<rparr>) (decided_tools r);
          p = zero_prompt\<lparr>hp_hint := tar_hint r, hp_request_id := hitl_id (ToolApproval r),
                          hp_tools := tools\<rparr>
      in case tools of
           [] \<Rightarrow> p
         | t # _ \<Rightarrow> p\<lparr>hp_tool_name := ht_name t, hp_original_call_id := ht_call_id t,
                        hp_args := ht_args t\<rparr>)"

definition parse_hitl_prompt ::
  "(string \<Rightarrow> (string \<times> string) option) \<Rightarrow> message option \<Rightarrow> hitl_prompt option" where
  "parse_hitl_prompt url_parse msg =
     (case parse_hitl_request url_parse msg of
        Inl _ \<Rightarrow> None
      | Inr r \<Rightarrow> map_option prompt_of r)"

definition question_line :: "hitl_question \<Rightarrow> string" where
  "question_line q =
     hq_question q @
     (if hq_choices q = [] then [] else '' ['' @ join '', '' (hq_choices q) @ '']'')"

definition prompt_summary :: "hitl_prompt option \<Rightarrow> string" where
  "prompt_summary p =
     (case p of
        None \<Rightarrow> []
      | Some q \<Rightarrow>
          (case hp_sign_in q of
             Some si \<Rightarrow>
               if si_message si \<noteq> [] then si_message si
               else ''Sign in to '' @ si_server si @ '' to continue.''
           | None \<Rightarrow>
               if is_ask_user p then join [newline] (map question_line (hp_questions q))
               else if hp_hint q \<noteq> [] then hp_hint q
               else if length (hp_tools q) > 1 then join '', '' (map ht_name (hp_tools q))
               else hp_tool_name q))"

subsection \<open>The answer covers what was asked\<close>

lemma decided_by_parse:
  assumes "parse_hitl_request up msg = Inr (Some (ToolApproval r))"
  shows "decided_tools r \<noteq> []"
  using assms by (auto simp: parse_hitl_request_def split: option.splits if_splits prod.splits)

lemma prompt_request_id: "hp_request_id (prompt_of r) = hitl_id r"
  by (cases r) (auto simp: Let_def zero_prompt_def split: list.split)

lemma prompt_kinds:
  "is_sign_in (Some (prompt_of r)) \<longleftrightarrow> (\<exists>u. r = UrlElicitation u)"
  by (cases r) (auto simp: is_sign_in_def Let_def zero_prompt_def split: list.split)

text \<open>
  One verdict per tool the prompt showed, in its order, all with the person's decision; a reason
  goes only with a rejection.
\<close>

lemma response_covers_prompt:
  "hitl_response (ToolApproval r) d = ApprovalResponse vs \<Longrightarrow>
   map tv_id vs = map ht_id (hp_tools (prompt_of (ToolApproval r))) \<and>
   (\<forall>v\<in>set vs. (tv_approved v \<longleftrightarrow> hd_type d = decision_approve) \<and>
      tv_reason v = (if tv_approved v then [] else hd_rejection_reason d))"
  by (auto simp: Let_def zero_prompt_def split: list.split)

lemma attach_hitl_payload:
  "hitl_payload (Some (attach_hitl m r)) = Some (response_json r)"
  by (simp add: hitl_payload_def attach_hitl_def as_map_def)

end
