(* ===== verification/EventMapper.thy ===== *)
theory EventMapper
  imports Hitl
begin

section \<open>From A2A events to deltas\<close>

text \<open>
  \<open>eventMapper\<close>, \<open>artifactText\<close> and \<open>mapTaskStatus\<close> of
  \<open>pkg/channels/facade.go\<close>. What the source asks of the A2A library and of
  \<open>net/url\<close> is the record \<open>lib\<close>: \<open>State.Terminal\<close>, a state's name, and a
  URL's scheme and host.
\<close>

record lib =
  lib_terminal :: "task_state \<Rightarrow> bool"
  lib_state_name :: "task_state \<Rightarrow> string"
  lib_url_parse :: "string \<Rightarrow> (string \<times> string) option"

text \<open>Go's states and names, as the a2a library documents them; no URL parses.\<close>

definition basic_lib :: lib where
  "basic_lib =
     \<lparr>lib_terminal = (\<lambda>s. s = TCompleted \<or> s = TFailed),
      lib_state_name = (\<lambda>s. if s = TFailed then ''failed'' else ''other''),
      lib_url_parse = (\<lambda>_. None)\<rparr>"

subsection \<open>artifactText\<close>

record artifact_text =
  ax_delivered :: "(string \<times> string) list"
  ax_last :: string
  ax_tail :: string

definition new_artifact_text :: artifact_text where
  "new_artifact_text = \<lparr>ax_delivered = [], ax_last = [], ax_tail = []\<rparr>"

definition delivered_text :: "artifact_text \<Rightarrow> string \<Rightarrow> string" where
  "delivered_text a i = or_empty (map_of (ax_delivered a) i)"

text \<open>The newlines before a paragraph that follows text ending in \<open>tail\<close>.\<close>

definition paragraph_break :: "string \<Rightarrow> string" where
  "paragraph_break tail =
     (if has_suffix tail [newline, newline] then []
      else if has_suffix tail [newline] then [newline]
      else [newline, newline])"

fun common_prefix :: "string \<Rightarrow> string \<Rightarrow> nat" where
  "common_prefix (a # as) (b # bs) = (if a = b then Suc (common_prefix as bs) else 0)"
| "common_prefix _ _ = 0"

fun rune_back :: "string \<Rightarrow> nat \<Rightarrow> nat" where
  "rune_back b 0 = 0"
| "rune_back b (Suc i) =
     (if Suc i < length b \<and> is_cont (of_char (b ! Suc i)) then rune_back b i else Suc i)"

definition common_prefix_len :: "string \<Rightarrow> string \<Rightarrow> nat" where
  "common_prefix_len a b = rune_back b (common_prefix a b)"

definition render :: "artifact_text \<Rightarrow> string \<Rightarrow> string \<Rightarrow> string \<times> artifact_text" where
  "render a i text =
     (if text = [] then ([], a)
      else
        (let text' = (if ax_tail a \<noteq> [] \<and> i \<noteq> ax_last a
                      then paragraph_break (ax_tail a) @ text else text)
         in (text', a\<lparr>ax_last := i, ax_tail := drop (length text' - 2) text'\<rparr>)))"

definition artifact_delta ::
  "artifact_text \<Rightarrow> artifact \<Rightarrow> bool \<Rightarrow> string \<times> artifact_text" where
  "artifact_delta a art extends =
     (let text = extract_text (ar_parts art); i = ar_id art; previous = delivered_text a i
      in if i = [] then render a i text
         else if extends
         then render (a\<lparr>ax_delivered := AList.update i (previous @ text) (ax_delivered a)\<rparr>) i text
         else render (a\<lparr>ax_delivered := AList.update i text (ax_delivered a)\<rparr>) i
                (drop (common_prefix_len previous text) text))"

subsection \<open>eventMapper\<close>

record mapper =
  mp_artifacts :: artifact_text
  mp_counted :: "string list"

definition new_mapper :: mapper where
  "new_mapper = \<lparr>mp_artifacts = new_artifact_text, mp_counted = []\<rparr>"

definition text_delta_of :: "string \<Rightarrow> outbound_delta list" where
  "text_delta_of text = (if text = [] then [] else [zero_delta\<lparr>od_content := text\<rparr>])"

definition map_task_status ::
  "lib \<Rightarrow> string \<Rightarrow> task_status \<Rightarrow> outbound_delta list \<Rightarrow> outbound_delta list" where
  "map_task_status L task_id status interim =
     (case st_state status of
        TCompleted \<Rightarrow> [zero_delta\<lparr>od_done := True\<rparr>]
      | s \<Rightarrow>
          if s = TInputRequired \<or> s = TAuthRequired then
            (let text = (case st_message status of None \<Rightarrow> [] | Some m \<Rightarrow> extract_text (ms_parts m));
                 hitl = (case parse_hitl_prompt (lib_url_parse L) (st_message status) of
                           None \<Rightarrow> None | Some p \<Rightarrow> Some (p\<lparr>hp_status_text := text\<rparr>));
                 content = (if text = [] \<and> hitl \<noteq> None then prompt_summary hitl else text)
             in [zero_delta\<lparr>od_kind := DeltaPrompt, od_content := content, od_task_id := task_id,
                            od_prompt := hitl\<rparr>])
          else if lib_terminal L s then
            (let generic = ''a2a: task ended with state '' @ lib_state_name L s;
                 reason = (case st_message status of
                             None \<Rightarrow> generic
                           | Some m \<Rightarrow> if extract_text (ms_parts m) \<noteq> []
                                       then extract_text (ms_parts m) else generic);
                 failure_reason = (case st_message status of
                             None \<Rightarrow> []
                           | Some m \<Rightarrow> or_empty (as_string
                               (map_of (ms_meta m) ''kagent.dev/a2a/failure-reason'')))
             in [zero_delta\<lparr>od_err := Some (task_ended s reason failure_reason)\<rparr>])
          else interim)"

fun last_agent_text_from :: "message option list \<Rightarrow> string" where
  "last_agent_text_from [] = []"
| "last_agent_text_from (None # ms) = last_agent_text_from ms"
| "last_agent_text_from (Some m # ms) =
     (if ms_role m = RoleAgent then extract_text (ms_parts m) else last_agent_text_from ms)"

definition last_agent_text :: "message option list \<Rightarrow> string" where
  "last_agent_text history = last_agent_text_from (rev history)"

fun replace_all_artifacts ::
  "artifact_text \<Rightarrow> artifact option list \<Rightarrow> outbound_delta list \<times> artifact_text" where
  "replace_all_artifacts a [] = ([], a)"
| "replace_all_artifacts a (None # xs) = replace_all_artifacts a xs"
| "replace_all_artifacts a (Some art # xs) =
     (let (text, a') = artifact_delta a art False; (ds, a'') = replace_all_artifacts a' xs
      in (text_delta_of text @ ds, a''))"

definition task_result_deltas :: "mapper \<Rightarrow> task \<Rightarrow> outbound_delta list \<times> mapper" where
  "task_result_deltas m tk =
     (let (ds, a) = replace_all_artifacts (mp_artifacts m) (tk_artifacts tk);
          m' = m\<lparr>mp_artifacts := a\<rparr>
      in if tk_artifacts tk \<noteq> [] then (ds, m')
         else (text_delta_of (last_agent_text (tk_history tk)), m'))"

fun usage_deltas :: "string list \<Rightarrow> artifact option list \<Rightarrow> outbound_delta list \<times> string list" where
  "usage_deltas counted [] = ([], counted)"
| "usage_deltas counted (None # xs) = usage_deltas counted xs"
| "usage_deltas counted (Some art # xs) =
     (if ar_id art \<in> set counted then usage_deltas counted xs
      else
        (case parse_turn_usage (ar_meta art) of
           None \<Rightarrow> usage_deltas counted xs
         | Some u \<Rightarrow>
             (let (ds, counted') = usage_deltas (ar_id art # counted) xs
              in (zero_delta\<lparr>od_usage := Some u\<rparr> # ds, counted'))))"

definition task_usage_deltas :: "mapper \<Rightarrow> task \<Rightarrow> outbound_delta list \<times> mapper" where
  "task_usage_deltas m tk =
     (let (ds, counted) = usage_deltas (mp_counted m) (tk_artifacts tk)
      in (ds, m\<lparr>mp_counted := counted\<rparr>))"

definition task_result_text :: "task \<Rightarrow> string" where
  "task_result_text tk = concat (map od_content (fst (task_result_deltas new_mapper tk)))"

definition deltas :: "lib \<Rightarrow> mapper \<Rightarrow> event \<Rightarrow> outbound_delta list \<times> mapper" where
  "deltas L m ev =
     (case ev of
        ArtifactUpdate u \<Rightarrow>
          (case au_artifact u of
             None \<Rightarrow> ([], m)
           | Some art \<Rightarrow>
               (let (text, a) = artifact_delta (mp_artifacts m) art (au_append u);
                    ds = text_delta_of text @ tool_activity_deltas (ar_parts art)
                in case parse_turn_usage (ar_meta art) of
                     None \<Rightarrow> (ds, m\<lparr>mp_artifacts := a\<rparr>)
                   | Some u' \<Rightarrow>
                       (ds @ [zero_delta\<lparr>od_usage := Some u'\<rparr>],
                        m\<lparr>mp_artifacts := a, mp_counted := ar_id art # mp_counted m\<rparr>)))
      | StatusUpdate task_id status _ \<Rightarrow>
          (let parts = message_parts (st_message status)
           in (map_task_status L task_id status
                 (narration_deltas parts @ tool_activity_deltas parts), m))
      | WholeTask tk \<Rightarrow>
          if st_state (tk_status tk) = TSubmitted \<or> st_state (tk_status tk) = TWorking then ([], m)
          else
            (let ds = map_task_status L (tk_id tk) (tk_status tk) []
             in if st_state (tk_status tk) = TCompleted then
                  (let (rs, m1) = task_result_deltas m tk; (us, m2) = task_usage_deltas m1 tk
                   in (rs @ us @ ds, m2))
                else (ds, m))
      | BareMessage msg \<Rightarrow>
          (text_delta_of (extract_text (ms_parts msg)) @ [zero_delta\<lparr>od_done := True\<rparr>], m))"

text \<open>The metadata keys an event carries, for the debug record; sorted as bytes.\<close>

fun byte_le :: "string \<Rightarrow> string \<Rightarrow> bool" where
  "byte_le [] _ = True"
| "byte_le (_ # _) [] = False"
| "byte_le (a # as) (b # bs) =
     (if a = b then byte_le as bs else (of_char a :: nat) < of_char b)"

fun insert_sorted :: "string \<Rightarrow> string list \<Rightarrow> string list" where
  "insert_sorted x [] = [x]"
| "insert_sorted x (y # ys) = (if byte_le x y then x # y # ys else y # insert_sorted x ys)"

definition sort_strings :: "string list \<Rightarrow> string list" where
  "sort_strings xs = foldr insert_sorted xs []"

definition event_metadata_keys :: "event \<Rightarrow> string list" where
  "event_metadata_keys ev =
     sort_strings
       (case ev of
          StatusUpdate _ status md \<Rightarrow>
            map fst md @
            (case st_message status of None \<Rightarrow> []
             | Some m \<Rightarrow> map (\<lambda>(k, v). ''message.'' @ k) (ms_meta m))
        | WholeTask tk \<Rightarrow>
            map fst (tk_meta tk) @
            (case st_message (tk_status tk) of None \<Rightarrow> []
             | Some m \<Rightarrow> map (\<lambda>(k, v). ''message.'' @ k) (ms_meta m))
        | ArtifactUpdate u \<Rightarrow>
            map fst (au_meta u) @
            (case au_artifact u of None \<Rightarrow> []
             | Some art \<Rightarrow> map (\<lambda>(k, v). ''artifact.'' @ k) (ar_meta art))
        | BareMessage m \<Rightarrow> map fst (ms_meta m))"


subsection \<open>Prefixes and rune boundaries\<close>

lemma common_prefix_self: "common_prefix p (p @ q) = length p"
  by (induction p) (cases q, simp_all)

lemma common_prefix_le: "common_prefix a b \<le> length a \<and> common_prefix a b \<le> length b"
  by (induction a b rule: common_prefix.induct) auto

lemma common_prefix_take:
  "n \<le> common_prefix a b \<Longrightarrow> take n a = take n b"
  by (induction a b arbitrary: n rule: common_prefix.induct)
    (auto simp: take_Cons' split: if_splits)

lemma rune_back_le: "rune_back b i \<le> i"
  by (induction i) auto

lemma rune_back_boundary:
  "rune_back b i = 0 \<or> length b \<le> rune_back b i \<or> \<not> is_cont (of_char (b ! rune_back b i))"
  by (induction i) auto

text \<open>A replace cuts the new text where it and the delivered text agree, between two runes.\<close>

lemma common_prefix_len_cut:
  "take (common_prefix_len a b) a = take (common_prefix_len a b) b"
  "common_prefix_len a b \<le> length b"
  "common_prefix_len a b = 0 \<or> common_prefix_len a b = length b \<or>
   \<not> is_cont (of_char (b ! common_prefix_len a b))"
proof -
  have le: "common_prefix_len a b \<le> common_prefix a b"
    by (simp add: common_prefix_len_def rune_back_le)
  then show "take (common_prefix_len a b) a = take (common_prefix_len a b) b"
    by (rule common_prefix_take)
  from le common_prefix_le [of a b] show bound: "common_prefix_len a b \<le> length b" by linarith
  from rune_back_boundary [of b "common_prefix a b"] bound
  show "common_prefix_len a b = 0 \<or> common_prefix_len a b = length b \<or>
      \<not> is_cont (of_char (b ! common_prefix_len a b))"
    by (auto simp: common_prefix_len_def)
qed

lemma common_prefix_len_same [simp]: "common_prefix_len t t = length t"
  using common_prefix_self [of t "[]"] by (cases t) (simp_all add: common_prefix_len_def)

lemma drop_common_prefix:
  "take (common_prefix_len a b) a @ drop (common_prefix_len a b) b = b"
  by (metis append_take_drop_id common_prefix_len_cut(1))

subsection \<open>A paragraph between artifacts\<close>





subsection \<open>What a listener hears and what a read-back says\<close>

text \<open>
  \<open>run_text\<close> is the text a run of chunks adds up to. A run is streamed as chunks appended to
  one artifact, then possibly the finished artifact once more as a replace.
\<close>

abbreviation art_text :: "artifact \<Rightarrow> string" where
  "art_text x \<equiv> extract_text (ar_parts x)"

definition run_text :: "artifact list \<Rightarrow> string" where
  "run_text xs = concat (map art_text xs)"


fun streamed :: "artifact_text \<Rightarrow> (artifact \<times> bool) list \<Rightarrow> string \<times> artifact_text" where
  "streamed a [] = ([], a)"
| "streamed a ((x, extends) # xs) =
     (let (t, a') = artifact_delta a x extends; (ts, a'') = streamed a' xs in (t @ ts, a''))"



lemma run_text_simps [simp]:
  "run_text [] = []" "run_text (x # xs) = art_text x @ run_text xs"
  by (simp_all add: run_text_def)






lemma render_sel:
  "ax_delivered (snd (render a i t)) = ax_delivered a"
  by (simp add: render_def Let_def)

lemma delivered_text_update [simp]:
  "delivered_text (a\<lparr>ax_delivered := AList.update i t (ax_delivered a)\<rparr>) j =
     (if j = i then t else delivered_text a j)"
  by (simp add: delivered_text_def)

lemma delivered_text_render [simp]:
  "delivered_text (snd (render a i t)) j = delivered_text a j"
  by (simp add: delivered_text_def render_sel)












subsection \<open>The equivalence\<close>










subsection \<open>Endings come last\<close>

text \<open>The deltas of one event: what it renders, then at most one delta that ends the turn.\<close>

lemma no_ending:
  "d \<in> set (text_delta_of t) \<Longrightarrow> \<not> delta_ends d"
  "d \<in> set (tool_activity_deltas ps) \<Longrightarrow> \<not> delta_ends d"
  "d \<in> set (narration_deltas ps) \<Longrightarrow> \<not> delta_ends d"
  by (auto simp: delta_ends_def text_delta_of_def zero_delta_def narration_deltas_def
      dest: tool_activity_kind split: if_splits)

lemma no_ending_usage: "d \<in> set (fst (usage_deltas counted xs)) \<Longrightarrow> \<not> delta_ends d"
  by (induction counted xs rule: usage_deltas.induct)
    (auto simp: delta_ends_def zero_delta_def split: if_splits option.splits prod.splits)

lemma no_ending_result: "d \<in> set (fst (replace_all_artifacts a xs)) \<Longrightarrow> \<not> delta_ends d"
  by (induction a xs rule: replace_all_artifacts.induct)
    (auto dest: no_ending split: prod.splits)

lemma map_task_status_ends:
  assumes "\<forall>d\<in>set interim. \<not> delta_ends d"
  shows "map_task_status L tid st interim = interim \<or>
    (\<exists>d. map_task_status L tid st interim = [d] \<and> delta_ends d)"
  by (cases "st_state st") (auto simp: map_task_status_def Let_def delta_ends_def zero_delta_def)

lemma deltas_end_last: "d \<in> set (butlast (fst (deltas L m ev))) \<Longrightarrow> \<not> delta_ends d"
proof (cases ev)
  case (ArtifactUpdate u)
  assume d: "d \<in> set (butlast (fst (deltas L m ev)))"
  from ArtifactUpdate have "\<forall>d\<in>set (fst (deltas L m ev)). \<not> delta_ends d"
    by (auto simp: deltas_def Let_def delta_ends_def zero_delta_def text_delta_of_def
        dest: tool_activity_kind split: option.splits prod.splits)
  with d show ?thesis by (auto dest: in_set_butlastD)
next
  case (StatusUpdate tid st md)
  assume d: "d \<in> set (butlast (fst (deltas L m ev)))"
  let ?i = "narration_deltas (message_parts (st_message st)) @
      tool_activity_deltas (message_parts (st_message st))"
  have i: "\<forall>d\<in>set ?i. \<not> delta_ends d" using no_ending by auto
  have ds: "fst (deltas L m ev) = map_task_status L tid st ?i"
    using StatusUpdate by (simp add: deltas_def Let_def)
  from map_task_status_ends [OF i, of L tid st] show ?thesis
  proof
    assume "map_task_status L tid st ?i = ?i"
    with d ds i show ?thesis using in_set_butlastD [of d ?i] by metis
  next
    assume "\<exists>e. map_task_status L tid st ?i = [e] \<and> delta_ends e"
    with d ds show ?thesis by auto
  qed
next
  case (WholeTask tk)
  assume d: "d \<in> set (butlast (fst (deltas L m ev)))"
  obtain e where st: "map_task_status L (tk_id tk) (tk_status tk) [] = [] \<or>
      map_task_status L (tk_id tk) (tk_status tk) [] = [e]"
    using map_task_status_ends [of "[]" L "tk_id tk" "tk_status tk"] by auto
  obtain rs m1 where rs: "task_result_deltas m tk = (rs, m1)" by fastforce
  obtain us m2 where us: "task_usage_deltas m1 tk = (us, m2)" by fastforce
  have "rs = fst (replace_all_artifacts (mp_artifacts m) (tk_artifacts tk)) \<or>
      rs = text_delta_of (last_agent_text (tk_history tk))"
    using rs by (auto simp: task_result_deltas_def Let_def split: prod.splits if_splits)
  then have "x \<in> set rs \<Longrightarrow> \<not> delta_ends x" for x
    using no_ending_result [of x "mp_artifacts m" "tk_artifacts tk"]
      no_ending(1) [of x "last_agent_text (tk_history tk)"] by blast
  moreover have "x \<in> set us \<Longrightarrow> \<not> delta_ends x" for x
    using us no_ending_usage [of x "mp_counted m1" "tk_artifacts tk"]
    by (auto simp: task_usage_deltas_def split: prod.splits)
  moreover from WholeTask d rs us st have "d \<in> set rs \<or> d \<in> set us"
    by (auto simp: deltas_def Let_def butlast_append split: if_splits dest: in_set_butlastD)
  ultimately show ?thesis by blast
next
  case (BareMessage msg)
  assume "d \<in> set (butlast (fst (deltas L m ev)))"
  with BareMessage show ?thesis using no_ending(1) by (auto simp: deltas_def butlast_append)
qed

subsection \<open>Usage is counted once\<close>

lemma usage_counted:
  "ar_id x \<in> set counted \<Longrightarrow> ar_id x \<in> set (snd (usage_deltas counted xs))"
  by (induction counted xs rule: usage_deltas.induct)
    (auto split: option.splits prod.splits)

text \<open>A task read back a second time, or after its usage was streamed, adds none.\<close>

lemma usage_deltas_none:
  assumes "\<forall>x. Some x \<in> set xs \<and> parse_turn_usage (ar_meta x) \<noteq> None \<longrightarrow> ar_id x \<in> set counted"
  shows "usage_deltas counted xs = ([], counted)"
  using assms by (induction counted xs rule: usage_deltas.induct) (auto split: option.splits)

lemma usage_deltas_counts:
  "Some x \<in> set xs \<Longrightarrow> parse_turn_usage (ar_meta x) \<noteq> None \<Longrightarrow>
   ar_id x \<in> set (snd (usage_deltas counted xs))"
proof (induction counted xs rule: usage_deltas.induct)
  case (3 counted art xs)
  then show ?case
    using usage_counted [of art "ar_id art # counted" xs] usage_counted [of x counted xs]
    by (auto split: option.splits prod.splits if_splits)
qed auto

subsection \<open>Properties\<close>


text \<open>One artifact, and a turn of two of them, the first in two chunks.\<close>

definition sample_artifact :: "string \<Rightarrow> string \<Rightarrow> artifact" where
  "sample_artifact i s = \<lparr>ar_id = i, ar_parts = [Some (text_part s)], ar_meta = []\<rparr>"

definition sample_task :: "artifact list \<Rightarrow> task" where
  "sample_task xs =
     \<lparr>tk_id = ''t'', tk_status = \<lparr>st_state = TCompleted, st_message = None\<rparr>,
      tk_artifacts = map Some xs, tk_history = [], tk_meta = []\<rparr>"


text \<open>C17: When a chunk is a lone newline after a newline, the two readings differ: the tail
  the mapper keeps is that one chunk, so the next artifact gets a paragraph break the whole text
  does not get. \<open>taskResultText\<close> promises the text byte for byte.\<close>

theorem lone_newline_chunk_breaks_equality:
  "fst (streamed new_artifact_text
      [(sample_artifact ''a'' [CHR ''x'', newline], True), (sample_artifact ''a'' [newline], True),
       (sample_artifact ''b'' ''y'', True)]) = [CHR ''x'', newline, newline, newline, CHR ''y''] \<and>
   task_result_text (sample_task [sample_artifact ''a'' [CHR ''x'', newline, newline],
       sample_artifact ''b'' ''y'']) = [CHR ''x'', newline, newline, CHR ''y'']"
  by code_simp

text \<open>An artifact's token counts reach the listener once: counting the artifacts of a task
  a second time, as a resubscription or the closing task event does, adds nothing.\<close>

theorem usage_counted_once:
  "task_usage_deltas (snd (task_usage_deltas m tk)) tk = ([], snd (task_usage_deltas m tk))"
proof -
  obtain ds counted where c: "usage_deltas (mp_counted m) (tk_artifacts tk) = (ds, counted)"
    by fastforce
  have "usage_deltas counted (tk_artifacts tk) = ([], counted)"
    using usage_deltas_counts [of _ "tk_artifacts tk" "mp_counted m"]
    by (intro usage_deltas_none) (auto simp: c)
  then show ?thesis by (simp add: task_usage_deltas_def c)
qed

end
