(* ===== verification/StoreSpec.thy ===== *)
theory StoreSpec
  imports Records
begin

section \<open>The contract of a routing store\<close>

text \<open>
  The interfaces \<open>Store\<close> and \<open>ReviewStore\<close> of \<open>pkg/routing/store/store.go\<close>
  as records of operations over a backend state, and what their clients rely on as locales. A
  \<open>mutate\<close> callback is a function of the row it is handed (the zero \<open>Entry\<close> when none
  is live) and of \<open>found\<close>; \<open>Some\<close> of a row is \<open>true\<close> with that row written back,
  \<open>None\<close> is \<open>false\<close>. The operation also returns what it handed to the callback, so a
  caller's captured variables are functions of it, and the backend's error.

  The contract is stated against \<open>live now s k\<close>, the row a reader sees at \<open>now\<close>.
  A backend may normalise what it stores (\<open>norm\<close>, the JSON round trip) and may drop a row up
  to \<open>slack\<close> before its own expiry (a server whose expiry counts milliseconds). Where an
  operation reports an error the contract says nothing of the row it was about, only that no
  other row changed. Where \<open>slack\<close> is not 0 a row is kept for a last use that is not in the
  future and a lifetime short of the largest int64.
\<close>

type_synonym store_error = string
type_synonym 'a reply = "store_error + 'a"
type_synonym mutate = "entry \<Rightarrow> bool \<Rightarrow> entry option"
type_synonym 's updated = "(entry \<times> bool) option \<times> store_error option \<times> 's"

record 's routes =
  rt_get :: "gotime \<Rightarrow> key \<Rightarrow> 's \<Rightarrow> entry option reply"
  rt_list :: "gotime \<Rightarrow> 's \<Rightarrow> (key \<times> entry) list reply"
  rt_update :: "gotime \<Rightarrow> key \<Rightarrow> mutate \<Rightarrow> 's \<Rightarrow> 's updated"

record 's reviews =
  rv_get :: "gotime \<Rightarrow> string \<Rightarrow> 's \<Rightarrow> review option reply"
  rv_put :: "gotime \<Rightarrow> review \<Rightarrow> 's \<Rightarrow> store_error option \<times> 's"
  rv_update :: "gotime \<Rightarrow> string \<Rightarrow> (review \<Rightarrow> review option) \<Rightarrow> 's \<Rightarrow>
    (bool \<times> review option \<times> store_error option) \<times> 's"

text \<open>What a callback is handed for a row.\<close>

definition shown :: "entry option \<Rightarrow> entry \<times> bool" where
  "shown r = (case r of None \<Rightarrow> (zero_entry, False) | Some e \<Rightarrow> (e, True))"

lemma shown_simps [simp]: "shown None = (zero_entry, False)" "shown (Some e) = (e, True)"
  by (simp_all add: shown_def)

text \<open>The key \<open>List\<close> reports for a row: the serialised key parsed back.\<close>

definition listed_key :: "key \<Rightarrow> key" where
  "listed_key k =
     \<lparr>k_channel = unescape (escape (k_channel k)),
      k_channel_id = unescape (escape (k_channel_id k)),
      k_thread_id = unescape (escape (k_thread_id k))\<rparr>"

lemma parse_key_listed: "parse_key (key_string k) = Some (listed_key k)"
  by (simp add: parse_key_string listed_key_def)

lemma listed_key_plain: "plain_key k \<Longrightarrow> listed_key k = k"
  using parse_key_string_iff [of k] by (simp add: parse_key_listed)

text \<open>
  What a JSON round trip makes of a row, from the struct's \<open>omitempty\<close> and
  \<open>omitzero\<close> tags: an empty \<open>Resume\<close> map comes back nil, a delivery position that
  \<open>IsZero\<close> comes back all zero.
\<close>

definition json_norm :: "entry \<Rightarrow> entry" where
  "json_norm e =
     e\<lparr>e_resume := (if e_resume e = Some [] then None else e_resume e),
       e_delivered := (if delivered_is_zero (e_delivered e) then zero_delivered else e_delivered e)\<rparr>"

lemma json_norm_fields [simp]:
  "e_agent_ref (json_norm e) = e_agent_ref e" "e_instance (json_norm e) = e_instance e"
  "e_task_id (json_norm e) = e_task_id e" "e_share (json_norm e) = e_share e"
  "e_share_refusal (json_norm e) = e_share_refusal e" "e_creator (json_norm e) = e_creator e"
  "e_workspace (json_norm e) = e_workspace e" "e_readers (json_norm e) = e_readers e"
  "e_initiator (json_norm e) = e_initiator e" "e_granted (json_norm e) = e_granted e"
  "e_held (json_norm e) = e_held e" "e_muted_at (json_norm e) = e_muted_at e"
  "e_created_at (json_norm e) = e_created_at e" "e_last_seen (json_norm e) = e_last_seen e"
  "e_ttl (json_norm e) = e_ttl e"
  by (simp_all add: json_norm_def)

lemma json_norm_idem: "json_norm (json_norm e) = json_norm e"
  by (simp add: json_norm_def delivered_is_zero_def zero_delivered_def)

lemma json_norm_expired [simp]: "entry_expired (json_norm e) t = entry_expired e t"
  by (simp add: entry_expired_def)

subsection \<open>Thread rows\<close>

locale thread_store =
  fixes ops :: "'s routes"
    and inv :: "'s \<Rightarrow> bool"
    and live :: "gotime \<Rightarrow> 's \<Rightarrow> key \<Rightarrow> entry option"
    and norm :: "entry \<Rightarrow> entry"
    and slack :: duration
  assumes norm_cases: "norm = (\<lambda>e. e) \<or> norm = json_norm"
    and slack_nonneg: "0 \<le> slack"
    and live_fresh: "inv s \<Longrightarrow> live now s k = Some e \<Longrightarrow> \<not> entry_expired e now"
    and get_live: "inv s \<Longrightarrow> rt_get ops now k s = Inr r \<Longrightarrow> r = live now s k"
    and list_live: "inv s \<Longrightarrow> rt_list ops now s = Inr xs \<Longrightarrow>
      set xs = {(listed_key k, e) | k e. live now s k = Some e}"
    and upd_inv: "inv s \<Longrightarrow> rt_update ops now k f s = (seen, err, s') \<Longrightarrow> inv s'"
    and upd_frame: "inv s \<Longrightarrow> rt_update ops now k f s = (seen, err, s') \<Longrightarrow> k' \<noteq> k \<Longrightarrow>
      live t s' k' = live t s k'"
    and upd_seen: "inv s \<Longrightarrow> rt_update ops now k f s = (seen, None, s') \<Longrightarrow>
      seen = Some (shown (live now s k))"
    and upd_skip: "inv s \<Longrightarrow> rt_update ops now k f s = (seen, None, s') \<Longrightarrow>
      case_prod f (shown (live now s k)) = None \<Longrightarrow> now \<le> t \<Longrightarrow> live t s' k = live t s k"
    and upd_write: "inv s \<Longrightarrow> rt_update ops now k f s = (seen, None, s') \<Longrightarrow>
      case_prod f (shown (live now s k)) = Some e \<Longrightarrow> now \<le> t \<Longrightarrow>
      slack = 0 \<or> e_last_seen e \<le> now \<and> e_ttl e < 2 ^ 63 - 1 \<Longrightarrow>
      \<not> entry_expired e (t + slack) \<Longrightarrow> live t s' k = Some (norm e)"
    and upd_gone: "inv s \<Longrightarrow> rt_update ops now k f s = (seen, None, s') \<Longrightarrow>
      case_prod f (shown (live now s k)) = Some e \<Longrightarrow> now \<le> t \<Longrightarrow>
      entry_expired e t \<Longrightarrow> live t s' k = None"
begin

lemma norm_fields:
  "e_agent_ref (norm e) = e_agent_ref e" "e_instance (norm e) = e_instance e"
  "e_task_id (norm e) = e_task_id e" "e_share (norm e) = e_share e"
  "e_share_refusal (norm e) = e_share_refusal e" "e_creator (norm e) = e_creator e"
  "e_workspace (norm e) = e_workspace e" "e_readers (norm e) = e_readers e"
  "e_initiator (norm e) = e_initiator e" "e_granted (norm e) = e_granted e"
  "e_held (norm e) = e_held e" "e_muted_at (norm e) = e_muted_at e"
  "e_created_at (norm e) = e_created_at e" "e_last_seen (norm e) = e_last_seen e"
  "e_ttl (norm e) = e_ttl e"
  using norm_cases by auto

lemma upd_write_now:
  assumes "inv s" and "rt_update ops now k f s = (seen, None, s')"
    and "case_prod f (shown (live now s k)) = Some e"
    and "e_last_seen e = now" and "e_ttl e \<le> 0 \<or> slack < e_ttl e" and "slack < 2 ^ 63 - 1"
    and "e_ttl e < 2 ^ 63 - 1"
  shows "live now s' k = Some (norm e)"
proof (rule upd_write [OF assms(1,2,3) order_refl])
  from assms(4,7) show "slack = 0 \<or> e_last_seen e \<le> now \<and> e_ttl e < 2 ^ 63 - 1" by simp
  from assms(4-6) slack_nonneg show "\<not> entry_expired e (now + slack)"
    by (auto simp: entry_expired_def time_sub_def)
qed

text \<open>A callback that keeps the row's clock writes a row readers see at once.\<close>

lemma upd_write_kept_clock:
  assumes "slack = 0" and "inv s" and "rt_update ops now k f s = (seen, None, s')"
    and "live now s k = Some e" and "f e True = Some e'"
    and "e_last_seen e' = e_last_seen e" and "e_ttl e' = e_ttl e"
  shows "live now s' k = Some (norm e')"
proof (rule upd_write [OF assms(2,3) _ order_refl])
  from assms(1) show "slack = 0 \<or> e_last_seen e' \<le> now \<and> e_ttl e' < 2 ^ 63 - 1" by simp
  from assms(4,5) show "case_prod f (shown (live now s k)) = Some e'" by simp
  from live_fresh [OF assms(2,4)] assms(1,6,7) show "\<not> entry_expired e' (now + slack)"
    by (auto simp: entry_expired_def split: if_splits)
qed

end

text \<open>A store whose operations do not fail and that keeps a row to its expiry: the in-process one.\<close>

locale reliable_store = thread_store +
  assumes exact: "slack = 0"
    and get_ok: "inv s \<Longrightarrow> \<exists>r. rt_get ops now k s = Inr r"
    and upd_ok: "inv s \<Longrightarrow> \<exists>seen s'. rt_update ops now k f s = (seen, None, s')"
begin

lemma get_eq: "inv s \<Longrightarrow> rt_get ops now k s = Inr (live now s k)"
  using get_ok get_live by blast

lemma upd_eq:
  assumes "inv s"
  obtains s' where "rt_update ops now k f s = (Some (shown (live now s k)), None, s')"
  using upd_ok [OF assms] upd_seen [OF assms] by metis

end

subsection \<open>Review records\<close>

text \<open>
  A backend may lose a record up to \<open>slack\<close> before its expiry, as it may a row; it never
  serves another one.
\<close>

definition review_kept ::
  "duration \<Rightarrow> gotime \<Rightarrow> (review \<Rightarrow> review) \<Rightarrow> review \<Rightarrow> gotime \<Rightarrow> review option \<Rightarrow> bool" where
  "review_kept slack now nm r t x \<longleftrightarrow>
     (if review_expired r t then x = None
      else x = Some (nm r) \<or>
        x = None \<and> (review_expired r (t + slack) \<or>
          slack \<noteq> 0 \<and> (now < r_posted_at r \<or> 2 ^ 63 - 1 \<le> r_ttl r)))"

locale review_store =
  fixes ops :: "'s reviews"
    and inv :: "'s \<Rightarrow> bool"
    and live :: "gotime \<Rightarrow> 's \<Rightarrow> string \<Rightarrow> review option"
    and norm :: "review \<Rightarrow> review"
    and slack :: duration
  assumes get_live: "inv s \<Longrightarrow> rv_get ops now i s = Inr x \<Longrightarrow> x = live now s i"
    and live_fresh: "inv s \<Longrightarrow> live now s i = Some r \<Longrightarrow> \<not> review_expired r now"
    and put_inv: "inv s \<Longrightarrow> rv_put ops now r s = (err, s') \<Longrightarrow> inv s'"
    and put_live: "inv s \<Longrightarrow> rv_put ops now r s = (None, s') \<Longrightarrow> now \<le> t \<Longrightarrow>
      review_kept slack now norm r t (live t s' (r_id r))"
    and put_frame: "inv s \<Longrightarrow> rv_put ops now r s = (err, s') \<Longrightarrow> i \<noteq> r_id r \<Longrightarrow>
      live t s' i = live t s i"
    and upd_inv: "inv s \<Longrightarrow> rv_update ops now i f s = ((found, seen, err), s') \<Longrightarrow> inv s'"
    and upd_frame: "inv s \<Longrightarrow> rv_update ops now i f s = ((found, seen, err), s') \<Longrightarrow> j \<noteq> i \<Longrightarrow>
      live t s' j = live t s j"
    and upd_absent: "inv s \<Longrightarrow> rv_update ops now i f s = ((False, seen, None), s') \<Longrightarrow>
      live now s i = None \<and> (\<forall>t. live t s' i = live t s i)"
    and upd_found: "inv s \<Longrightarrow> rv_update ops now i f s = ((True, seen, None), s') \<Longrightarrow>
      seen = live now s i \<and> seen \<noteq> None"
    and upd_kept: "inv s \<Longrightarrow> rv_update ops now i f s = ((True, Some r, None), s') \<Longrightarrow>
      f r = None \<Longrightarrow> live t s' i = live t s i"
    and upd_live: "inv s \<Longrightarrow> rv_update ops now i f s = ((True, Some r, None), s') \<Longrightarrow>
      f r = Some r' \<Longrightarrow> now \<le> t \<Longrightarrow> review_kept slack now norm r' t (live t s' i)"
begin

text \<open>
  A claim: a callback that writes only while \<open>free\<close> holds and makes \<open>free\<close> fail takes
  a record at most once.
\<close>

lemma claim_once:
  assumes "inv s" and "rv_update ops now i f s = ((True, Some r, None), s')"
    and "f r = Some r'" and "\<not> free (norm r')" and "\<And>x. \<not> free x \<Longrightarrow> f x = None"
    and "now \<le> later" and "rv_update ops later i f s' = ((True, seen, None), s'')"
  shows "\<exists>x. seen = Some x \<and> f x = None"
proof -
  have "inv s'" by (rule upd_inv [OF assms(1,2)])
  from upd_found [OF this assms(7)] obtain x where x: "seen = Some x" "live later s' i = Some x"
    by auto
  with upd_live [OF assms(1-3,6)] have "x = norm r'" by (auto simp: review_kept_def split: if_splits)
  with assms(4,5) x show ?thesis by blast
qed

end

end
