(* ===== verification/MemoryStore.thy ===== *)
theory MemoryStore
  imports StoreSpec
begin

section \<open>The in-memory store\<close>

text \<open>
  \<open>pkg/routing/store/memory/memory.go\<close>. The state is the two maps and the life of the
  eviction goroutine: \<open>ms_once\<close> is \<open>evictOnce\<close> having run, \<open>ms_running\<close> the
  goroutine looping, \<open>ms_closed\<close> the \<open>stopEvict\<close> channel closed. The clock the
  operations read is their argument \<open>now\<close>. Each operation holds the store's mutex for its
  whole body, so one operation is one step.
\<close>

record mem_store =
  ms_data :: "(string \<times> entry) list"
  ms_reviews :: "(string \<times> review) list"
  ms_once :: bool
  ms_running :: bool
  ms_closed :: bool

definition mem_new :: mem_store where
  "mem_new =
     \<lparr>ms_data = [], ms_reviews = [], ms_once = False, ms_running = False, ms_closed = False\<rparr>"

definition mem_start_evict :: "mem_store \<Rightarrow> mem_store" where
  "mem_start_evict s = (if ms_once s then s else s\<lparr>ms_once := True, ms_running := True\<rparr>)"

definition mem_get :: "gotime \<Rightarrow> key \<Rightarrow> mem_store \<Rightarrow> entry option reply" where
  "mem_get now k s =
     (case map_of (ms_data s) (key_string k) of
        None \<Rightarrow> Inr None
      | Some e \<Rightarrow> if entry_expired e now then Inr None else Inr (Some e))"

definition mem_update :: "gotime \<Rightarrow> key \<Rightarrow> mutate \<Rightarrow> mem_store \<Rightarrow> mem_store updated" where
  "mem_update now k mutate s =
     (let e0 = map_of (ms_data s) (key_string k);
          found = (case e0 of None \<Rightarrow> False | Some e \<Rightarrow> \<not> entry_expired e now);
          e = (if found then the e0 else zero_entry)
      in case mutate e found of
           None \<Rightarrow> (Some (e, found), None, s)
         | Some e' \<Rightarrow>
             (Some (e, found), None,
              mem_start_evict (s\<lparr>ms_data := AList.update (key_string k) e' (ms_data s)\<rparr>)))"

fun mem_list_rows :: "gotime \<Rightarrow> (string \<times> entry) list \<Rightarrow> (key \<times> entry) list" where
  "mem_list_rows now [] = []"
| "mem_list_rows now ((ks, e) # rows) =
     (if entry_expired e now then mem_list_rows now rows
      else case parse_key ks of
             None \<Rightarrow> mem_list_rows now rows
           | Some k \<Rightarrow> (k, e) # mem_list_rows now rows)"

definition mem_list :: "gotime \<Rightarrow> mem_store \<Rightarrow> (key \<times> entry) list reply" where
  "mem_list now s = Inr (mem_list_rows now (ms_data s))"

definition mem_put_review :: "gotime \<Rightarrow> review \<Rightarrow> mem_store \<Rightarrow> store_error option \<times> mem_store" where
  "mem_put_review now r s =
     (None, mem_start_evict
       (if review_expired r now
        then s\<lparr>ms_reviews := AList.delete (r_id r) (ms_reviews s)\<rparr>
        else s\<lparr>ms_reviews := AList.update (r_id r) r (ms_reviews s)\<rparr>))"

definition mem_get_review :: "gotime \<Rightarrow> string \<Rightarrow> mem_store \<Rightarrow> review option reply" where
  "mem_get_review now i s =
     (case map_of (ms_reviews s) i of
        None \<Rightarrow> Inr None
      | Some r \<Rightarrow> if review_expired r now then Inr None else Inr (Some r))"

definition mem_update_review ::
  "gotime \<Rightarrow> string \<Rightarrow> (review \<Rightarrow> review option) \<Rightarrow> mem_store \<Rightarrow>
   (bool \<times> review option \<times> store_error option) \<times> mem_store" where
  "mem_update_review now i mutate s =
     (case map_of (ms_reviews s) i of
        None \<Rightarrow> ((False, None, None), s)
      | Some r \<Rightarrow>
          if review_expired r now then ((False, None, None), s)
          else case mutate r of
                 None \<Rightarrow> ((True, Some r, None), s)
               | Some r' \<Rightarrow>
                   ((True, Some r, None),
                    s\<lparr>ms_reviews := AList.update i r' (ms_reviews s)\<rparr>))"

definition mem_close :: "mem_store \<Rightarrow> mem_store" where
  "mem_close s =
     (if ms_closed s then s else s\<lparr>ms_closed := True, ms_once := True, ms_running := False\<rparr>)"

definition mem_evict :: "gotime \<Rightarrow> mem_store \<Rightarrow> mem_store" where
  "mem_evict now s =
     s\<lparr>ms_data := filter (\<lambda>(_, e). \<not> entry_expired e now) (ms_data s),
       ms_reviews := filter (\<lambda>(_, r). \<not> review_expired r now) (ms_reviews s)\<rparr>"

text \<open>One tick of the eviction goroutine; nothing happens when it does not run.\<close>

definition mem_tick :: "gotime \<Rightarrow> mem_store \<Rightarrow> mem_store" where
  "mem_tick now s = (if ms_running s then mem_evict now s else s)"

definition mem_routes :: "mem_store routes" where
  "mem_routes = \<lparr>rt_get = mem_get, rt_list = mem_list, rt_update = mem_update\<rparr>"

definition mem_reviews :: "mem_store reviews" where
  "mem_reviews = \<lparr>rv_get = mem_get_review, rv_put = mem_put_review, rv_update = mem_update_review\<rparr>"

subsection \<open>What readers see\<close>

definition mem_live :: "gotime \<Rightarrow> mem_store \<Rightarrow> key \<Rightarrow> entry option" where
  "mem_live now s k =
     (case map_of (ms_data s) (key_string k) of
        None \<Rightarrow> None
      | Some e \<Rightarrow> if entry_expired e now then None else Some e)"

definition mem_live_review :: "gotime \<Rightarrow> mem_store \<Rightarrow> string \<Rightarrow> review option" where
  "mem_live_review now s i =
     (case map_of (ms_reviews s) i of
        None \<Rightarrow> None
      | Some r \<Rightarrow> if review_expired r now then None else Some r)"

text \<open>Both are Go maps, and every row was written under the serialised form of a key.\<close>

definition mem_inv :: "mem_store \<Rightarrow> bool" where
  "mem_inv s \<longleftrightarrow>
     gomap (ms_data s) \<and> gomap (ms_reviews s) \<and>
     (\<forall>ks \<in> fst ` set (ms_data s). \<exists>k. ks = key_string k)"

lemma mem_start_evict_sel [simp]:
  "ms_data (mem_start_evict s) = ms_data s" "ms_reviews (mem_start_evict s) = ms_reviews s"
  by (simp_all add: mem_start_evict_def)

lemma mem_inv_new: "mem_inv mem_new"
  by (simp add: mem_inv_def mem_new_def)

lemma mem_get_live: "mem_get now k s = Inr (mem_live now s k)"
  by (simp add: mem_get_def mem_live_def split: option.splits)

lemma mem_get_review_live: "mem_get_review now i s = Inr (mem_live_review now s i)"
  by (simp add: mem_get_review_def mem_live_review_def split: option.splits)

lemma mem_seen:
  "mem_update now k f s =
     (let (e, found) = shown (mem_live now s k)
      in (Some (e, found), None,
          case f e found of
            None \<Rightarrow> s
          | Some e' \<Rightarrow>
              mem_start_evict (s\<lparr>ms_data := AList.update (key_string k) e' (ms_data s)\<rparr>)))"
  by (auto simp: mem_update_def mem_live_def Let_def split: option.splits)

lemma mem_list_rows_set:
  "set (mem_list_rows now rows) =
     {(k, e) | ks k e. (ks, e) \<in> set rows \<and> \<not> entry_expired e now \<and> parse_key ks = Some k}"
  by (induction now rows rule: mem_list_rows.induct) (auto split: option.splits)

lemma mem_live_iff:
  "mem_live now s k = Some e \<longleftrightarrow>
   map_of (ms_data s) (key_string k) = Some e \<and> \<not> entry_expired e now"
  by (auto simp: mem_live_def split: option.splits)

lemma mem_list_live:
  assumes inv: "mem_inv s"
  shows "set (mem_list_rows now (ms_data s)) =
    {(listed_key k, e) | k e. mem_live now s k = Some e}" (is "?rows = ?live")
proof (intro set_eqI iffI)
  fix x assume "x \<in> ?rows"
  then obtain ks k e where x: "x = (k, e)" and row: "(ks, e) \<in> set (ms_data s)"
    and fresh: "\<not> entry_expired e now" and k: "parse_key ks = Some k"
    by (auto simp: mem_list_rows_set)
  from row have "ks \<in> fst ` set (ms_data s)" by (rule image_eqI [rotated]) simp
  with inv obtain k0 where "ks = key_string k0" unfolding mem_inv_def by blast
  moreover from inv have "gomap (ms_data s)" unfolding mem_inv_def by blast
  with row have "map_of (ms_data s) ks = Some e" by (rule gomap_set_iff [THEN iffD1, rotated])
  ultimately have "mem_live now s k0 = Some e" using fresh by (simp add: mem_live_iff)
  moreover from k \<open>ks = key_string k0\<close> have "k = listed_key k0" by (simp add: parse_key_listed)
  ultimately show "x \<in> ?live" using x by blast
next
  fix x assume "x \<in> ?live"
  then obtain k e where x: "x = (listed_key k, e)" and "mem_live now s k = Some e" by blast
  then have "(key_string k, e) \<in> set (ms_data s)" and "\<not> entry_expired e now"
    by (simp_all add: mem_live_iff map_of_SomeD)
  with parse_key_listed [of k] show "x \<in> ?rows" unfolding mem_list_rows_set x by blast
qed

lemma mem_inv_update:
  "mem_inv s \<Longrightarrow>
   mem_inv (mem_start_evict (s\<lparr>ms_data := AList.update (key_string k) e (ms_data s)\<rparr>))"
  by (auto simp: mem_inv_def dom_update)

lemma mem_live_written:
  "mem_live t (mem_start_evict (s\<lparr>ms_data := AList.update (key_string k) e (ms_data s)\<rparr>)) k' =
     (if k' = k then if entry_expired e t then None else Some e else mem_live t s k')"
  by (auto simp: mem_live_def key_string_inj)

interpretation mem: reliable_store mem_routes mem_inv mem_live "\<lambda>e. e" 0
proof (unfold_locales, goal_cases)
  case 1 show ?case by simp
next
  case 2 show ?case by simp
next
  case (3 s now k e) then show ?case by (auto simp: mem_live_def split: option.splits if_splits)
next
  case (4 s now k r) then show ?case by (simp add: mem_routes_def mem_get_live)
next
  case (5 s now xs) then show ?case by (auto simp: mem_routes_def mem_list_def mem_list_live)
next
  case (6 s now k f seen err s') then show ?case
    by (auto simp: mem_routes_def mem_seen mem_inv_update split: option.splits prod.splits)
next
  case (7 s now k f seen err s' k' t) then show ?case
    by (auto simp: mem_routes_def mem_seen mem_live_written split: option.splits prod.splits)
next
  case (8 s now k f seen s') then show ?case
    by (auto simp: mem_routes_def mem_seen split: prod.splits)
next
  case (9 s now k f seen s' t) then show ?case
    by (auto simp: mem_routes_def mem_seen split: prod.splits)
next
  case (10 s now k f seen s' e t) then show ?case
    by (auto simp: mem_routes_def mem_seen mem_live_written split: prod.splits)
next
  case (11 s now k f seen s' e t) then show ?case
    by (auto simp: mem_routes_def mem_seen mem_live_written split: prod.splits)
next
  case 12 show ?case by simp
next
  case (13 s now k) then show ?case by (simp add: mem_routes_def mem_get_live)
next
  case (14 s now k f) then show ?case by (simp add: mem_routes_def mem_seen split: prod.splits)
qed

lemma mem_live_review_iff:
  "mem_live_review now s i = Some r \<longleftrightarrow>
   map_of (ms_reviews s) i = Some r \<and> \<not> review_expired r now"
  by (auto simp: mem_live_review_def split: option.splits)

lemma mem_inv_reviews [simp]:
  "mem_inv (mem_start_evict (s\<lparr>ms_reviews := m\<rparr>)) \<longleftrightarrow> mem_inv (s\<lparr>ms_reviews := m\<rparr>)"
  by (simp add: mem_inv_def)

interpretation mem_rv: review_store mem_reviews mem_inv mem_live_review "\<lambda>r. r" 0
proof (unfold_locales, goal_cases)
  case (1 s now i x) then show ?case
    by (auto simp: mem_reviews_def mem_get_review_def mem_live_review_def
        split: option.splits if_splits)
next
  case (2 s now i r) then show ?case by (simp add: mem_live_review_iff)
next
  case (3 s now r err s') then show ?case
    by (auto simp: mem_reviews_def mem_put_review_def mem_inv_def split: if_splits)
next
  case (4 s now r s' t) then show ?case
    by (auto simp: mem_reviews_def mem_put_review_def mem_live_review_def review_kept_def
        dest: review_expired_mono split: if_splits)
next
  case (5 s now r err s' i t) then show ?case
    by (auto simp: mem_reviews_def mem_put_review_def mem_live_review_def split: if_splits)
next
  case (6 s now i f found seen err s') then show ?case
    by (auto simp: mem_reviews_def mem_update_review_def mem_inv_def
        split: option.splits if_splits)
next
  case (7 s now i f found seen err s' j t) then show ?case
    by (auto simp: mem_reviews_def mem_update_review_def mem_live_review_def
        split: option.splits if_splits)
next
  case (8 s now i f seen s') then show ?case
    by (auto simp: mem_reviews_def mem_update_review_def mem_live_review_def
        split: option.splits if_splits)
next
  case (9 s now i f seen s') then show ?case
    by (auto simp: mem_reviews_def mem_update_review_def mem_live_review_def
        split: option.splits if_splits) metis+
next
  case (10 s now i f r s' t) then show ?case
    by (auto simp: mem_reviews_def mem_update_review_def split: option.splits if_splits)
next
  case (11 s now i f r s' r' t) then show ?case
    by (auto simp: mem_reviews_def mem_update_review_def mem_live_review_def review_kept_def
        split: option.splits if_splits)
qed

subsection \<open>Eviction\<close>

lemma mem_inv_evict: "mem_inv s \<Longrightarrow> mem_inv (mem_evict now s)"
  by (auto simp: mem_inv_def mem_evict_def)

lemma mem_evict_live:
  "mem_inv s \<Longrightarrow> now \<le> t \<Longrightarrow> mem_live t (mem_evict now s) k = mem_live t s k"
  by (auto simp: mem_inv_def mem_live_def mem_evict_def map_of_filter_gomap
      dest: entry_expired_mono split: option.splits)

lemma mem_evict_live_review:
  "mem_inv s \<Longrightarrow> now \<le> t \<Longrightarrow> mem_live_review t (mem_evict now s) i = mem_live_review t s i"
  by (auto simp: mem_inv_def mem_live_review_def mem_evict_def map_of_filter_gomap
      dest: review_expired_mono split: option.splits)

lemma mem_evict_drops:
  "mem_inv s \<Longrightarrow> (ks, e) \<in> set (ms_data (mem_evict now s)) \<Longrightarrow> \<not> entry_expired e now"
  by (auto simp: mem_evict_def)

text \<open>The goroutine runs only between the first write and \<open>Close\<close>.\<close>

definition mem_life :: "mem_store \<Rightarrow> bool" where
  "mem_life s \<longleftrightarrow> (ms_running s \<longrightarrow> ms_once s \<and> \<not> ms_closed s) \<and> (ms_closed s \<longrightarrow> ms_once s)"

lemma mem_life_ops:
  "mem_life mem_new"
  "mem_life s \<Longrightarrow> mem_update now k f s = (seen, err, s') \<Longrightarrow> mem_life s'"
  "mem_life s \<Longrightarrow> mem_put_review now r s = (err, s') \<Longrightarrow> mem_life s'"
  "mem_life s \<Longrightarrow> mem_update_review now i g s = (res, s') \<Longrightarrow> mem_life s'"
  "mem_life s \<Longrightarrow> mem_life (mem_tick now s)"
  "mem_life s \<Longrightarrow> mem_life (mem_close s)"
  by (auto simp: mem_life_def mem_new_def mem_seen mem_start_evict_def mem_put_review_def
      mem_update_review_def mem_tick_def mem_evict_def mem_close_def
      split: prod.splits option.splits if_splits)

lemma mem_closed_stays:
  "ms_closed s \<Longrightarrow> mem_update now k f s = (seen, err, s') \<Longrightarrow> ms_closed s'"
  "ms_closed s \<Longrightarrow> ms_closed (mem_tick now s)" "ms_closed (mem_close s)"
  by (auto simp: mem_seen mem_start_evict_def mem_tick_def mem_evict_def mem_close_def
      split: prod.splits option.splits if_splits)

subsection \<open>The stores of a run\<close>

text \<open>Every store a process can hold: the new one, and what the operations, the eviction tick
  and \<open>Close\<close> make of one.\<close>

inductive mem_reach :: "mem_store \<Rightarrow> bool" where
  reach_new: "mem_reach mem_new"
| reach_update: "mem_reach s \<Longrightarrow> mem_update now k f s = (seen, err, s') \<Longrightarrow> mem_reach s'"
| reach_put: "mem_reach s \<Longrightarrow> mem_put_review now r s = (err, s') \<Longrightarrow> mem_reach s'"
| reach_claim: "mem_reach s \<Longrightarrow> mem_update_review now i g s = (res, s') \<Longrightarrow> mem_reach s'"
| reach_tick: "mem_reach s \<Longrightarrow> mem_reach (mem_tick now s)"
| reach_close: "mem_reach s \<Longrightarrow> mem_reach (mem_close s)"

lemma mem_inv_tick: "mem_inv s \<Longrightarrow> mem_inv (mem_tick now s)"
  by (simp add: mem_tick_def mem_inv_evict)

lemma mem_inv_close: "mem_inv s \<Longrightarrow> mem_inv (mem_close s)"
  by (simp add: mem_close_def mem_inv_def)

lemma mem_reach_inv: "mem_reach s \<Longrightarrow> mem_inv s"
proof (induction rule: mem_reach.induct)
  case reach_new show ?case by (rule mem_inv_new)
next
  case (reach_update s now k f seen err s')
  then have "rt_update mem_routes now k f s = (seen, err, s')" by (simp only: mem_routes_def routes.simps)
  with reach_update(3) show ?case by (rule mem.upd_inv)
next
  case (reach_put s now r err s')
  then have "rv_put mem_reviews now r s = (err, s')" by (simp only: mem_reviews_def reviews.simps)
  with reach_put(3) show ?case by (rule mem_rv.put_inv)
next
  case (reach_claim s now i g res s')
  then have "rv_update mem_reviews now i g s = ((fst res, fst (snd res), snd (snd res)), s')"
    by (simp only: mem_reviews_def reviews.simps prod.collapse)
  with reach_claim(3) show ?case by (rule mem_rv.upd_inv)
qed (simp_all add: mem_inv_tick mem_inv_close)

lemma mem_reach_life: "mem_reach s \<Longrightarrow> mem_life s"
  by (induction rule: mem_reach.induct) (blast intro: mem_life_ops)+

subsection \<open>Properties\<close>

text \<open>C26: The in-memory \<open>Update\<close> is an atomic read-modify-write of one row: the callback
  sees what \<open>Get\<close> answers at that moment, a row it writes is what \<open>Get\<close> answers from
  then on while it is fresh, a callback that declines changes nothing, and no other thread's row
  changes, even under a key whose parts contain the separator.\<close>

theorem memory_update_then_get:
  assumes "mem_get now k s = Inr row"
  shows "\<exists>s'. mem_update now k f s = (Some (shown row), None, s') \<and>
    (\<forall>t k'. mem_get t k' s' =
      (case case_prod f (shown row) of
         Some e \<Rightarrow> if k' = k then Inr (if entry_expired e t then None else Some e) else mem_get t k' s
       | None \<Rightarrow> mem_get t k' s))"
  using assms
  by (auto simp: mem_seen mem_get_live mem_live_written split: prod.splits option.splits)

theorem memory_update_then_get_witness:
  "\<exists>s'. mem_update 5 \<lparr>k_channel = ''slack'', k_channel_id = ''C1'', k_thread_id = ''9''\<rparr>
      (\<lambda>e found. Some (e\<lparr>e_instance := ''i''\<rparr>)) mem_new = (Some (zero_entry, False), None, s') \<and>
    mem_get 6 \<lparr>k_channel = ''slack'', k_channel_id = ''C1'', k_thread_id = ''9''\<rparr> s' =
      Inr (Some (zero_entry\<lparr>e_instance := ''i''\<rparr>))"
  using memory_update_then_get [of 5 "\<lparr>k_channel = ''slack'', k_channel_id = ''C1'', k_thread_id = ''9''\<rparr>"
      mem_new None "\<lambda>e found. Some (e\<lparr>e_instance := ''i''\<rparr>)"]
  by (auto simp: mem_get_def mem_new_def entry_expired_def)

text \<open>C27: In every store a process reaches, \<open>List\<close> gives exactly the rows \<open>Get\<close>
  answers, each under the key \<open>ParseKey\<close> reads back.\<close>

theorem memory_list_complete:
  assumes "mem_reach s" and "mem_list now s = Inr rows"
  shows "set rows = {(listed_key k, e) | k e. mem_get now k s = Inr (Some e)}"
  using mem_list_live [OF mem_reach_inv [OF assms(1)], of now] assms(2)
  by (simp add: mem_list_def mem_get_live)

theorem memory_list_complete_witness:
  "set (mem_list_rows 0 (ms_data mem_new)) =
    {(listed_key k, e) | k e. mem_get 0 k mem_new = Inr (Some e)}"
  by (rule memory_list_complete [OF reach_new]) (simp add: mem_list_def)

text \<open>C24: The eviction goroutine is invisible: in every store a process reaches, a tick at
  \<open>now\<close> changes no answer of \<open>Get\<close> or \<open>GetReview\<close> from then on, no row it leaves
  is stale, and after \<open>Close\<close> there is no tick left to run.\<close>

theorem memory_eviction_invisible:
  assumes "mem_reach s" and "now \<le> t"
  shows "mem_get t k (mem_tick now s) = mem_get t k s \<and>
    mem_get_review t i (mem_tick now s) = mem_get_review t i s \<and>
    (ms_running s \<longrightarrow> (\<forall>(ks, e) \<in> set (ms_data (mem_tick now s)). \<not> entry_expired e now)) \<and>
    (ms_closed s \<longrightarrow> mem_tick now s = s)"
  using mem_reach_inv [OF assms(1)] mem_reach_life [OF assms(1)] assms(2)
  by (auto simp: mem_tick_def mem_get_live mem_get_review_live mem_evict_live
      mem_evict_live_review mem_life_def
      dest: mem_evict_drops)

theorem memory_eviction_invisible_witness:
  "mem_get 3 thread_a (mem_tick 2 mem_new) = mem_get 3 thread_a mem_new \<and>
   mem_get_review 3 ''i'' (mem_tick 2 mem_new) = mem_get_review 3 ''i'' mem_new"
  using memory_eviction_invisible [OF reach_new, of 2 3 thread_a "''i''"] by simp

end
