(* ===== verification/ThreadRecord.thy ===== *)
theory ThreadRecord
  imports Channel StoreSpec MemoryStore
begin

section \<open>The life of a thread's row\<close>

text \<open>
  \<open>pkg/channels/threadrecord.go\<close>: the closed predicate, reading a thread's state, the
  stamped read-modify-write and the listing of live rows. The facade's fields these operations
  read are the record \<open>facade\<close>; \<open>f.clock()\<close> and the store's clock are the argument
  \<open>now\<close> (\<open>SetNowFunc\<close> moves them together, and one handler reads one time).

  The lemmas are proved from the store's contract alone, in the locale
  \<open>thread_store\<close>, and reach the in-memory store through its interpretation.
\<close>

datatype facade_error =
    NoAgent
  | NoThreadStore
  | StoreFailed store_error
  | NoWorkspaceGrant string
  | ShareUnavailable
  | ShareRefused string string
  | NoSession
  | NoPendingPrompt
  | BadPrompt string
  | AgentFailed go_error

record 's facade =
  fc_agent :: bool
  fc_routes :: "'s routes option"
  fc_durable :: bool
  fc_ttl :: duration

definition default_thread_ttl :: duration where
  "default_thread_ttl = 90 * 24 * 3600 * 10 ^ 9"

definition thread_key :: "string \<Rightarrow> string \<Rightarrow> string \<Rightarrow> key" where
  "thread_key channel channel_id thread_id =
     \<lparr>k_channel = channel, k_channel_id = channel_id, k_thread_id = thread_id\<rparr>"

definition store_ttl :: "duration \<Rightarrow> duration" where
  "store_ttl ttl = (if ttl \<le> 0 then 0 else wrap64 (2 * ttl))"

definition thread_closed :: "duration \<Rightarrow> entry \<Rightarrow> gotime \<Rightarrow> bool" where
  "thread_closed ttl e now =
     (if ttl \<le> 0 \<or> e_last_seen e = 0 then False else time_sub now (e_last_seen e) > ttl)"

definition live_entry :: "duration \<Rightarrow> gotime \<Rightarrow> entry option \<Rightarrow> entry option" where
  "live_entry ttl now r =
     (case r of None \<Rightarrow> None | Some e \<Rightarrow> if thread_closed ttl e now then None else Some e)"

definition reopen :: "duration \<Rightarrow> gotime \<Rightarrow> entry \<Rightarrow> bool \<Rightarrow> entry \<times> bool" where
  "reopen ttl now e found =
     (if \<not> found \<or> \<not> thread_closed ttl e now then (e, found) else (zero_entry, False))"

record thread_state =
  ts_entry :: entry
  ts_found :: bool
  ts_closed :: bool
  ts_lifetime :: duration

definition no_thread_state :: thread_state where
  "no_thread_state =
     \<lparr>ts_entry = zero_entry, ts_found = False, ts_closed = False, ts_lifetime = 0\<rparr>"

definition get_thread_state ::
  "'s facade \<Rightarrow> gotime \<Rightarrow> string \<Rightarrow> string \<Rightarrow> string \<Rightarrow> 's \<Rightarrow> facade_error + thread_state" where
  "get_thread_state f now channel channel_id thread_id s =
     (case fc_routes f of
        None \<Rightarrow> Inl NoThreadStore
      | Some ops \<Rightarrow>
          (case rt_get ops now (thread_key channel channel_id thread_id) s of
             Inl err \<Rightarrow> Inl (StoreFailed err)
           | Inr None \<Rightarrow> Inr no_thread_state
           | Inr (Some e) \<Rightarrow>
               if thread_closed (fc_ttl f) e now
               then Inr (no_thread_state\<lparr>ts_closed := True, ts_lifetime := fc_ttl f\<rparr>)
               else Inr (no_thread_state\<lparr>ts_entry := e, ts_found := True\<rparr>)))"

definition thread_record ::
  "'s facade \<Rightarrow> gotime \<Rightarrow> string \<Rightarrow> string \<Rightarrow> string \<Rightarrow> 's \<Rightarrow> facade_error + entry \<times> bool" where
  "thread_record f now channel channel_id thread_id s =
     (case get_thread_state f now channel channel_id thread_id s of
        Inl err \<Rightarrow> Inl err
      | Inr st \<Rightarrow> Inr (ts_entry st, ts_found st))"

text \<open>The callback \<open>UpdateThreadRecord\<close> hands to the store around the caller's.\<close>

definition stamped :: "duration \<Rightarrow> gotime \<Rightarrow> mutate \<Rightarrow> mutate" where
  "stamped ttl now mutate e found =
     (let (e, found) = reopen ttl now e found
      in case mutate e found of
           None \<Rightarrow> None
         | Some e' \<Rightarrow>
             Some (e'\<lparr>e_last_seen := now,
                      e_created_at := (if e_created_at e' = 0 then now else e_created_at e'),
                      e_ttl := store_ttl ttl\<rparr>))"

definition update_thread_record ::
  "'s facade \<Rightarrow> gotime \<Rightarrow> string \<Rightarrow> string \<Rightarrow> string \<Rightarrow> mutate \<Rightarrow> 's \<Rightarrow> facade_error option \<times> 's" where
  "update_thread_record f now channel channel_id thread_id mutate s =
     (case fc_routes f of
        None \<Rightarrow> (Some NoThreadStore, s)
      | Some ops \<Rightarrow>
          (let (seen, err, s') =
             rt_update ops now (thread_key channel channel_id thread_id)
               (stamped (fc_ttl f) now mutate) s
           in (map_option StoreFailed err, s')))"

definition thread_records ::
  "'s facade \<Rightarrow> gotime \<Rightarrow> string \<Rightarrow> 's \<Rightarrow> facade_error + (key \<times> entry) list" where
  "thread_records f now channel s =
     (case fc_routes f of
        None \<Rightarrow> Inl NoThreadStore
      | Some ops \<Rightarrow>
          (case rt_list ops now s of
             Inl err \<Rightarrow> Inl (StoreFailed err)
           | Inr rows \<Rightarrow>
               Inr (filter (\<lambda>(k, e). k_channel k = channel \<and> \<not> thread_closed (fc_ttl f) e now)
                 rows)))"

subsection \<open>The closed predicate\<close>

lemma thread_key_sel [simp]:
  "k_channel (thread_key c i t) = c" "k_channel_id (thread_key c i t) = i"
  "k_thread_id (thread_key c i t) = t"
  by (simp_all add: thread_key_def)

lemma thread_key_inj [simp]: "thread_key c i t = thread_key c' i' t' \<longleftrightarrow> c = c' \<and> i = i' \<and> t = t'"
  by (auto simp: thread_key_def)

lemma thread_closed_mono: "t \<le> t' \<Longrightarrow> thread_closed ttl e t \<Longrightarrow> thread_closed ttl e t'"
  by (auto simp: thread_closed_def dest: time_sub_mono [of _ _ "e_last_seen e"] split: if_splits)

lemma thread_fresh_open: "e_last_seen e = now \<Longrightarrow> \<not> thread_closed ttl e now"
  by (simp add: thread_closed_def)

lemma store_ttl_exact: "0 < ttl \<Longrightarrow> 2 * ttl < 2 ^ 63 \<Longrightarrow> store_ttl ttl = 2 * ttl"
  by (simp add: store_ttl_def wrap64_id in_int64_def)

lemma store_ttl_forever [simp]: "ttl \<le> 0 \<Longrightarrow> store_ttl ttl = 0"
  by (simp add: store_ttl_def)

lemma store_ttl_lt: "store_ttl ttl < 2 ^ 63 - 1"
proof -
  have "even (wrap64 (2 * ttl))" by (simp add: wrap64_def dvd_mod)
  moreover have "wrap64 (2 * ttl) \<le> 2 ^ 63 - 1"
    using wrap64_in_int64 [of "2 * ttl"] by (simp add: in_int64_def)
  moreover have "odd (2 ^ 63 - 1 :: int)" by simp
  ultimately have "wrap64 (2 * ttl) < 2 ^ 63 - 1" by (metis order_less_le)
  then show ?thesis by (simp add: store_ttl_def)
qed

lemma reopen_cases:
  "reopen ttl now e found =
     (case live_entry ttl now (if found then Some e else None) of
        None \<Rightarrow> if found then (zero_entry, False) else (e, False)
      | Some e' \<Rightarrow> (e', True))"
  by (simp add: reopen_def live_entry_def)

lemma reopen_shown: "case_prod (reopen ttl now) (shown r) = shown (live_entry ttl now r)"
  by (auto simp: reopen_def live_entry_def shown_def split: option.splits)

lemma stamped_shown:
  "case_prod (stamped ttl now f) (shown r) =
     (case case_prod f (shown (live_entry ttl now r)) of
        None \<Rightarrow> None
      | Some e \<Rightarrow>
          Some (e\<lparr>e_last_seen := now,
                  e_created_at := (if e_created_at e = 0 then now else e_created_at e),
                  e_ttl := store_ttl ttl\<rparr>))"
  using reopen_shown [of ttl now r]
  by (auto simp: stamped_def Let_def split: prod.splits option.splits)

subsection \<open>The operations against the store's contract\<close>

text \<open>What the row of a stamped write looks like.\<close>

definition stamp :: "duration \<Rightarrow> gotime \<Rightarrow> entry \<Rightarrow> entry" where
  "stamp ttl now e =
     e\<lparr>e_last_seen := now,
       e_created_at := (if e_created_at e = 0 then now else e_created_at e),
       e_ttl := store_ttl ttl\<rparr>"

lemma stamp_sel [simp]:
  "e_last_seen (stamp ttl now e) = now" "e_ttl (stamp ttl now e) = store_ttl ttl"
  "e_agent_ref (stamp ttl now e) = e_agent_ref e" "e_instance (stamp ttl now e) = e_instance e"
  "e_initiator (stamp ttl now e) = e_initiator e" "e_granted (stamp ttl now e) = e_granted e"
  "e_task_id (stamp ttl now e) = e_task_id e" "e_share (stamp ttl now e) = e_share e"
  "e_held (stamp ttl now e) = e_held e" "e_muted_at (stamp ttl now e) = e_muted_at e"
  "e_workspace (stamp ttl now e) = e_workspace e"
  by (simp_all add: stamp_def)

text \<open>The state of a thread, as a function of the row the store serves.\<close>

definition state_of_row :: "duration \<Rightarrow> gotime \<Rightarrow> entry option \<Rightarrow> thread_state" where
  "state_of_row ttl now r =
     (case r of
        None \<Rightarrow> no_thread_state
      | Some e \<Rightarrow>
          if thread_closed ttl e now
          then no_thread_state\<lparr>ts_closed := True, ts_lifetime := ttl\<rparr>
          else no_thread_state\<lparr>ts_entry := e, ts_found := True\<rparr>)"

lemma state_of_row_sel:
  "ts_found (state_of_row ttl now r) \<longleftrightarrow> live_entry ttl now r \<noteq> None"
  "ts_closed (state_of_row ttl now r) \<longleftrightarrow> r \<noteq> None \<and> live_entry ttl now r = None"
  "live_entry ttl now r = Some e \<Longrightarrow> ts_entry (state_of_row ttl now r) = e"
  by (auto simp: state_of_row_def live_entry_def no_thread_state_def split: option.splits)

context thread_store begin

lemma thread_state_live:
  assumes "inv s" and "fc_routes f = Some ops"
    and "get_thread_state f now c i t s = Inr st"
  shows "st = state_of_row (fc_ttl f) now (live now s (thread_key c i t))"
  using assms(2,3) get_live [OF assms(1), of now "thread_key c i t"]
  by (auto simp: get_thread_state_def state_of_row_def split: sum.splits option.splits)

lemma update_record_inv:
  assumes "inv s" and "fc_routes f = Some ops"
    and "update_thread_record f now c i t m s = (err, s')"
  shows "inv s'"
  using assms(2,3) upd_inv [OF assms(1)]
  by (cases "rt_update ops now (thread_key c i t) (stamped (fc_ttl f) now m) s")
    (auto simp: update_thread_record_def)

lemma update_record_frame:
  assumes "inv s" and "fc_routes f = Some ops"
    and "update_thread_record f now c i t m s = (err, s')" and "k \<noteq> thread_key c i t"
  shows "live u s' k = live u s k"
  using assms(2-4) upd_frame [OF assms(1) _ assms(4)]
  by (cases "rt_update ops now (thread_key c i t) (stamped (fc_ttl f) now m) s")
    (auto simp: update_thread_record_def)

lemma update_record_kept:
  assumes "inv s" and "fc_routes f = Some ops"
    and "update_thread_record f now c i t m s = (None, s')"
    and "case_prod m (shown (live_entry (fc_ttl f) now (live now s (thread_key c i t)))) = None"
    and "now \<le> u"
  shows "live u s' (thread_key c i t) = live u s (thread_key c i t)"
proof -
  obtain seen err s1 where u: "rt_update ops now (thread_key c i t) (stamped (fc_ttl f) now m) s
      = (seen, err, s1)" by (metis prod_cases3)
  with assms(2,3) have "err = None" "s1 = s'" by (simp_all add: update_thread_record_def)
  with u have "rt_update ops now (thread_key c i t) (stamped (fc_ttl f) now m) s
      = (seen, None, s')" by simp
  from upd_skip [OF assms(1) this _ assms(5)] assms(4) show ?thesis by (simp add: stamped_shown)
qed

lemma update_record_written:
  assumes "inv s" and "fc_routes f = Some ops"
    and "update_thread_record f now c i t m s = (None, s')"
    and "case_prod m (shown (live_entry (fc_ttl f) now (live now s (thread_key c i t)))) = Some e"
    and "now \<le> u"
  shows "\<not> entry_expired (stamp (fc_ttl f) now e) (u + slack) \<Longrightarrow>
      live u s' (thread_key c i t) = Some (norm (stamp (fc_ttl f) now e))"
    and "entry_expired (stamp (fc_ttl f) now e) u \<Longrightarrow> live u s' (thread_key c i t) = None"
proof -
  obtain seen err s1 where u: "rt_update ops now (thread_key c i t) (stamped (fc_ttl f) now m) s
      = (seen, err, s1)" by (metis prod_cases3)
  with assms(2,3) have "err = None" "s1 = s'" by (simp_all add: update_thread_record_def)
  with u have w: "rt_update ops now (thread_key c i t) (stamped (fc_ttl f) now m) s
      = (seen, None, s')" by simp
  from assms(4) have m: "case_prod (stamped (fc_ttl f) now m)
      (shown (live now s (thread_key c i t))) = Some (stamp (fc_ttl f) now e)"
    by (simp add: stamped_shown stamp_def)
  show "\<not> entry_expired (stamp (fc_ttl f) now e) (u + slack) \<Longrightarrow>
      live u s' (thread_key c i t) = Some (norm (stamp (fc_ttl f) now e))"
    using store_ttl_lt [of "fc_ttl f"] by (intro upd_write [OF assms(1) w m assms(5)]) simp_all
  show "entry_expired (stamp (fc_ttl f) now e) u \<Longrightarrow> live u s' (thread_key c i t) = None"
    by (rule upd_gone [OF assms(1) w m assms(5)])
qed

text \<open>
  The three ages of a row after a write: open for \<open>ttl\<close>, closed but still there until twice
  that, gone after.
\<close>

lemma update_record_ages:
  assumes "inv s" and "fc_routes f = Some ops"
    and "update_thread_record f now c i t m s = (None, s')"
    and "case_prod m (shown (live_entry (fc_ttl f) now (live now s (thread_key c i t)))) = Some e"
    and "0 < fc_ttl f" and "2 * fc_ttl f < 2 ^ 63 - 1" and "now \<noteq> 0" and "now \<le> u"
  shows "u - now + slack \<le> fc_ttl f \<Longrightarrow>
      state_of_row (fc_ttl f) u (live u s' (thread_key c i t)) =
        no_thread_state\<lparr>ts_entry := norm (stamp (fc_ttl f) now e), ts_found := True\<rparr>"
    and "fc_ttl f < u - now \<Longrightarrow> u - now + slack \<le> 2 * fc_ttl f \<Longrightarrow>
      state_of_row (fc_ttl f) u (live u s' (thread_key c i t)) =
        no_thread_state\<lparr>ts_closed := True, ts_lifetime := fc_ttl f\<rparr>"
    and "2 * fc_ttl f < u - now \<Longrightarrow>
      state_of_row (fc_ttl f) u (live u s' (thread_key c i t)) = no_thread_state"
proof -
  have exp: "entry_expired (stamp (fc_ttl f) now e) x \<longleftrightarrow> 2 * fc_ttl f < x - now" for x
    using assms(5,6) by (auto simp: entry_expired_def store_ttl_exact time_sub_gt_iff)
  have closed: "thread_closed (fc_ttl f) (norm (stamp (fc_ttl f) now e)) x \<longleftrightarrow>
      fc_ttl f < x - now" for x
    using assms(5-7) by (auto simp: thread_closed_def norm_fields time_sub_gt_iff)
  note w = update_record_written [OF assms(1-4,8)]
  show "u - now + slack \<le> fc_ttl f \<Longrightarrow>
      state_of_row (fc_ttl f) u (live u s' (thread_key c i t)) =
        no_thread_state\<lparr>ts_entry := norm (stamp (fc_ttl f) now e), ts_found := True\<rparr>"
    using w(1) exp closed slack_nonneg assms(5) by (simp add: state_of_row_def)
  show "fc_ttl f < u - now \<Longrightarrow> u - now + slack \<le> 2 * fc_ttl f \<Longrightarrow>
      state_of_row (fc_ttl f) u (live u s' (thread_key c i t)) =
        no_thread_state\<lparr>ts_closed := True, ts_lifetime := fc_ttl f\<rparr>"
    using w(1) exp closed by (simp add: state_of_row_def)
  show "2 * fc_ttl f < u - now \<Longrightarrow>
      state_of_row (fc_ttl f) u (live u s' (thread_key c i t)) = no_thread_state"
    using w(2) exp by (simp add: state_of_row_def)
qed

lemma thread_records_live:
  assumes "inv s" and "fc_routes f = Some ops" and "thread_records f now c s = Inr rows"
  shows "set rows = {(listed_key k, e) | k e. live now s k = Some e \<and>
     k_channel (listed_key k) = c \<and> \<not> thread_closed (fc_ttl f) e now}"
  using assms(2,3) list_live [OF assms(1), of now]
  by (auto simp: thread_records_def split: sum.splits)

end

context reliable_store begin

lemma thread_state_eq:
  assumes "inv s" and "fc_routes f = Some ops"
  shows "get_thread_state f now c i t s =
    Inr (state_of_row (fc_ttl f) now (live now s (thread_key c i t)))"
proof -
  have "\<exists>st. get_thread_state f now c i t s = Inr st"
    using get_eq [OF assms(1), of now "thread_key c i t"] assms(2)
    by (auto simp: get_thread_state_def split: option.splits)
  with thread_state_live [OF assms] show ?thesis by blast
qed

end

end
