(* ===== verification/Seal.thy ===== *)
theory Seal
  imports GoStrings
begin

section \<open>Sealed records\<close>

text \<open>
  \<open>pkg/seal/seal.go\<close>. The AEAD of the standard library (AES-256-GCM) is the record
  \<open>aead\<close> of its two operations, an argument of the definitions; what it promises is
  \<open>aead_laws\<close>. The text decoders \<open>NormalizeKey\<close> tries in order, the key derivation and
  the random bytes are arguments too. A sealed record is the nonce followed by the ciphertext.
\<close>

record aead =
  ae_nonce_size :: nat
  ae_seal :: "string \<Rightarrow> string \<Rightarrow> string \<Rightarrow> string"
  ae_open :: "string \<Rightarrow> string \<Rightarrow> string \<Rightarrow> string option"

datatype seal_error =
    BadKey nat
  | BadKeySize nat
  | NoRandom
  | ShortRecord
  | DecryptFailed
  | DeriveFailed

definition key_size :: nat where
  "key_size = 32"

fun first_decoded :: "(string \<Rightarrow> string option) list \<Rightarrow> string \<Rightarrow> string option" where
  "first_decoded [] s = None"
| "first_decoded (d # ds) s =
     (case d s of
        None \<Rightarrow> first_decoded ds s
      | Some k \<Rightarrow> if length k = key_size then Some k else first_decoded ds s)"

definition normalize_key ::
  "(string \<Rightarrow> string option) list \<Rightarrow> (string \<Rightarrow> string) \<Rightarrow> string \<Rightarrow> seal_error + string" where
  "normalize_key decoders trim_space raw =
     (if length raw = key_size then Inr raw
      else case first_decoded decoders (trim_space raw) of
             None \<Rightarrow> Inl (BadKey (length raw))
           | Some k \<Rightarrow> Inr k)"

definition new_aead :: "(string \<Rightarrow> aead) \<Rightarrow> string \<Rightarrow> seal_error + aead" where
  "new_aead gcm k = (if length k \<noteq> key_size then Inl (BadKeySize (length k)) else Inr (gcm k))"

definition derive_sealer ::
  "(string \<Rightarrow> aead) \<Rightarrow> (string \<Rightarrow> string \<Rightarrow> nat \<Rightarrow> string option) \<Rightarrow>
   (string \<Rightarrow> string option) list \<Rightarrow> (string \<Rightarrow> string) \<Rightarrow> string \<Rightarrow> string \<Rightarrow> seal_error + aead" where
  "derive_sealer gcm hkdf decoders trim_space configured info =
     (case normalize_key decoders trim_space configured of
        Inl e \<Rightarrow> Inl e
      | Inr k \<Rightarrow>
          (case hkdf k info key_size of
             None \<Rightarrow> Inl DeriveFailed
           | Some sub \<Rightarrow> new_aead gcm sub))"

definition seal_seal :: "aead \<Rightarrow> string option \<Rightarrow> string \<Rightarrow> string \<Rightarrow> seal_error + string" where
  "seal_seal a nonce plaintext aad =
     (case nonce of
        None \<Rightarrow> Inl NoRandom
      | Some n \<Rightarrow> Inr (n @ ae_seal a n plaintext aad))"

definition seal_open :: "aead \<Rightarrow> string \<Rightarrow> string \<Rightarrow> seal_error + string" where
  "seal_open a rec aad =
     (if length rec < ae_nonce_size a then Inl ShortRecord
      else case ae_open a (take (ae_nonce_size a) rec) (drop (ae_nonce_size a) rec) aad of
             None \<Rightarrow> Inl DecryptFailed
           | Some p \<Rightarrow> Inr p)"

text \<open>
  What an AEAD promises for a nonce of its size: a ciphertext opens to its plaintext under the
  additional data it was sealed with, and under no other.
\<close>

definition aead_laws :: "aead \<Rightarrow> bool" where
  "aead_laws a \<longleftrightarrow>
     (\<forall>n p d d'. length n = ae_nonce_size a \<longrightarrow>
        ae_open a n (ae_seal a n p d) d' = (if d' = d then Some p else None))"

lemma first_decoded_size: "first_decoded ds s = Some k \<Longrightarrow> length k = key_size"
  by (induction ds) (auto split: option.splits if_splits)

lemma normalize_key_size: "normalize_key ds trim raw = Inr k \<Longrightarrow> length k = key_size"
  by (auto simp: normalize_key_def dest: first_decoded_size split: if_splits option.splits)

lemma normalize_key_raw: "length raw = key_size \<Longrightarrow> normalize_key ds trim raw = Inr raw"
  by (simp add: normalize_key_def)

lemma new_aead_of_normalized:
  "normalize_key ds trim raw = Inr k \<Longrightarrow> new_aead gcm k = Inr (gcm k)"
  by (auto simp: new_aead_def dest: normalize_key_size)

lemma seal_open_seal:
  assumes "aead_laws a" and "seal_seal a (Some n) p d = Inr rec" and "length n = ae_nonce_size a"
  shows "seal_open a rec d' = (if d' = d then Inr p else Inl DecryptFailed)"
proof -
  from assms(1,3) have "ae_open a n (ae_seal a n p d) d' = (if d' = d then Some p else None)"
    unfolding aead_laws_def by blast
  with assms(2,3) show ?thesis by (auto simp: seal_seal_def seal_open_def)
qed

text \<open>A concrete AEAD that satisfies the laws, for the witnesses: it stores both in the clear.\<close>

definition clear_aead :: aead where
  "clear_aead =
     \<lparr>ae_nonce_size = 1,
      ae_seal = (\<lambda>n p d. decimal (length d) @ [CHR '':''] @ d @ p),
      ae_open = (\<lambda>n c d'.
        (let h = decimal (length d') @ [CHR '':''] @ d'
         in if prefix h c then Some (drop (length h) c) else None))\<rparr>"

lemma clear_aead_laws: "aead_laws clear_aead"
proof -
  have "d' = d" if "prefix (decimal (length d') @ CHR '':'' # d')
      (decimal (length d) @ CHR '':'' # d @ p)" for d d' p :: string
  proof -
    from that obtain z where
      eq: "decimal (length d) @ CHR '':'' # (d @ p) = decimal (length d') @ CHR '':'' # (d' @ z)"
      by (auto simp: prefix_def)
    then have "split_on CHR '':'' (decimal (length d) @ CHR '':'' # (d @ p))
        = split_on CHR '':'' (decimal (length d') @ CHR '':'' # (d' @ z))" by simp
    then have "decimal (length d) = decimal (length d')"
      by (simp add: split_on_append decimal_no_colon)
    with eq show ?thesis by (auto dest: decimal_inj)
  qed
  then show ?thesis by (auto simp: aead_laws_def clear_aead_def Let_def)
qed

end
