(* ===== verification/Share.thy ===== *)
theory Share
  imports ThreadRecord Seal
begin

section \<open>Session shares of a thread's collaborators\<close>

text \<open>
  \<open>pkg/channels/share.go\<close>. What an operation asks of the controller is the list of
  \<open>agent_call\<close>s it returns, in order, each with the identity it carries; the controller's
  answer to \<open>CreateShare\<close> is an argument. Other turns run between the read of the row and
  the write of the minted share: \<open>meanwhile\<close> is what they made of the store.
\<close>

datatype agent_call =
    CallStart call_ctx string string string string
  | CallGet call_ctx string
  | CallDelete call_ctx string
  | CallCreateShare call_ctx string duration
  | CallRevoke call_ctx string

fun call_identity :: "agent_call \<Rightarrow> call_ctx" where
  "call_identity (CallStart c _ _ _ _) = c"
| "call_identity (CallGet c _) = c"
| "call_identity (CallDelete c _) = c"
| "call_identity (CallCreateShare c _ _) = c"
| "call_identity (CallRevoke c _) = c"

record minted_share =
  mt_id :: string
  mt_token :: string
  mt_expires_at :: gotime

datatype share_answer = Minted minted_share | MintRefused string | MintFailed go_error

definition share_aad :: "key \<Rightarrow> string \<Rightarrow> string" where
  "share_aad k session_id =
     k_channel k @ [CHR 0x00] @ k_channel_id k @ [CHR 0x00] @ k_thread_id k @ [CHR 0x00] @ session_id"

definition creator_id :: "inbound \<Rightarrow> string" where
  "creator_id msg = (if m_owner_token msg \<noteq> [] then m_owner_id msg else m_sender_id msg)"

definition recorded_creator :: "entry \<Rightarrow> string" where
  "recorded_creator e = (if e_creator e \<noteq> [] then e_creator e else e_initiator e)"

definition share_renewal :: "duration \<Rightarrow> duration" where
  "share_renewal ttl =
     (if ttl > 0 then min (3600 * 10 ^ 9) (ttl div 2) else 3600 * 10 ^ 9)"

definition share_expiry_margin :: "duration \<Rightarrow> duration" where
  "share_expiry_margin ttl = min (300 * 10 ^ 9) (share_renewal ttl)"

definition open_share ::
  "aead option \<Rightarrow> gotime \<Rightarrow> key \<Rightarrow> share option \<Rightarrow> string \<Rightarrow> duration \<Rightarrow> string option" where
  "open_share sealer now k sh session_id margin =
     (case (sealer, sh) of
        (Some a, Some x) \<Rightarrow>
          if session_id = [] \<or> sh_instance x \<noteq> session_id then None
          else if sh_expires_at x \<noteq> 0 \<and> \<not> now + margin < sh_expires_at x then None
          else (case seal_open a (sh_sealed x) (share_aad k session_id) of
                  Inl _ \<Rightarrow> None
                | Inr token \<Rightarrow> Some token)
      | _ \<Rightarrow> None)"

definition revoke_share :: "call_ctx \<Rightarrow> string \<Rightarrow> agent_call list" where
  "revoke_share c share_id = (if share_id = [] then [] else [CallRevoke c share_id])"

definition revoke_left_share ::
  "call_ctx \<Rightarrow> inbound \<Rightarrow> share \<Rightarrow> string \<Rightarrow> agent_call list" where
  "revoke_left_share c msg sh creator =
     (if creator \<noteq> [] \<and> creator_id msg \<noteq> creator then [] else revoke_share c (sh_id sh))"

definition refusal_mutate :: "string \<Rightarrow> string \<Rightarrow> mutate" where
  "refusal_mutate session_id reason e found =
     (if \<not> found \<or> e_instance e \<noteq> session_id then None
      else Some (e\<lparr>e_share_refusal := Some \<lparr>sr_instance = session_id, sr_reason = reason\<rparr>\<rparr>))"

definition record_share_refusal ::
  "'s routes \<Rightarrow> gotime \<Rightarrow> key \<Rightarrow> string \<Rightarrow> string \<Rightarrow> 's \<Rightarrow> 's" where
  "record_share_refusal ops now k session_id reason s =
     (let (_, _, s') = rt_update ops now k (refusal_mutate session_id reason) s in s')"

text \<open>
  The three variables \<open>shareFor\<close>'s callback captures, as functions of the row it is handed:
  the thread moved to another session, another turn's share this process can open, and the
  share it displaces.
\<close>

definition other_share :: "share option \<Rightarrow> entry \<Rightarrow> bool" where
  "other_share held e =
     (case e_share e of
        None \<Rightarrow> False
      | Some x \<Rightarrow> (case held of None \<Rightarrow> True | Some h \<Rightarrow> sh_id x \<noteq> sh_id h))"

definition share_moved :: "string \<Rightarrow> entry \<Rightarrow> bool \<Rightarrow> bool" where
  "share_moved session_id e found \<longleftrightarrow> \<not> found \<or> e_instance e \<noteq> session_id"

definition share_winner ::
  "aead option \<Rightarrow> gotime \<Rightarrow> key \<Rightarrow> share option \<Rightarrow> string \<Rightarrow> entry \<Rightarrow> bool \<Rightarrow> string option" where
  "share_winner sealer now k held session_id e found =
     (if share_moved session_id e found \<or> \<not> other_share held e then None
      else open_share sealer now k (e_share e) session_id 0)"

definition share_displaced ::
  "aead option \<Rightarrow> gotime \<Rightarrow> key \<Rightarrow> share option \<Rightarrow> string \<Rightarrow> entry \<Rightarrow> bool \<Rightarrow> share option" where
  "share_displaced sealer now k held session_id e found =
     (if share_moved session_id e found \<or> \<not> other_share held e then None
      else case open_share sealer now k (e_share e) session_id 0 of
             Some _ \<Rightarrow> None
           | None \<Rightarrow> e_share e)"

definition store_share_mutate ::
  "aead option \<Rightarrow> gotime \<Rightarrow> key \<Rightarrow> share option \<Rightarrow> string \<Rightarrow> minted_share \<Rightarrow> string \<Rightarrow> mutate" where
  "store_share_mutate sealer now k held session_id m sealed e found =
     (if share_moved session_id e found then None
      else if share_winner sealer now k held session_id e found \<noteq> None then None
      else Some (e\<lparr>e_share := Some \<lparr>sh_id = mt_id m, sh_instance = session_id,
                                   sh_sealed = sealed, sh_expires_at = mt_expires_at m\<rparr>\<rparr>))"

text \<open>The part of \<open>shareFor\<close> after the controller minted a share.\<close>

definition keep_minted ::
  "aead \<Rightarrow> string option \<Rightarrow> 's routes \<Rightarrow> gotime \<Rightarrow> call_ctx \<Rightarrow> key \<Rightarrow> share option \<Rightarrow> string \<Rightarrow>
   minted_share \<Rightarrow> 's \<Rightarrow> string \<times> agent_call list \<times> 's" where
  "keep_minted a nonce ops now owner k held session_id m s =
     (case seal_seal a nonce (mt_token m) (share_aad k session_id) of
        Inl _ \<Rightarrow> ([], revoke_share owner (mt_id m), s)
      | Inr sealed \<Rightarrow>
          (let (seen, err, s') =
                 rt_update ops now k (store_share_mutate (Some a) now k held session_id m sealed) s;
               moved = (case seen of None \<Rightarrow> False | Some (e, found) \<Rightarrow> share_moved session_id e found);
               winner = (case seen of None \<Rightarrow> None
                         | Some (e, found) \<Rightarrow> share_winner (Some a) now k held session_id e found);
               displaced = (if err \<noteq> None then None else
                 case seen of None \<Rightarrow> None
                 | Some (e, found) \<Rightarrow> share_displaced (Some a) now k held session_id e found)
           in if winner \<noteq> None \<and> winner \<noteq> Some [] then
                (the winner, revoke_share owner (mt_id m), s')
              else if moved then ([], revoke_share owner (mt_id m), s')
              else
                (mt_token m,
                 (case held of
                    None \<Rightarrow> []
                  | Some h \<Rightarrow> if open_share (Some a) now k held session_id 0 = None
                              then revoke_share owner (sh_id h) else []) @
                 (case displaced of None \<Rightarrow> [] | Some d \<Rightarrow> revoke_share owner (sh_id d)),
                 s')))"

definition share_for ::
  "'s facade \<Rightarrow> aead \<Rightarrow> string option \<Rightarrow> gotime \<Rightarrow> share_answer \<Rightarrow> ('s \<Rightarrow> 's) \<Rightarrow> call_ctx \<Rightarrow>
   inbound \<Rightarrow> string \<Rightarrow> 's routes \<Rightarrow> 's \<Rightarrow> (facade_error + string) \<times> agent_call list \<times> 's" where
  "share_for f a nonce now mint meanwhile c msg session_id ops s =
     (let k = thread_key (m_channel msg) (m_channel_id msg) (m_thread_id msg)
      in case rt_get ops now k s of
           Inl _ \<Rightarrow> (Inr [], [], s)
         | Inr row \<Rightarrow>
             (let held = (case row of None \<Rightarrow> None | Some e \<Rightarrow> e_share e);
                  margin = (if m_owner_token msg \<noteq> [] then share_renewal (fc_ttl f)
                            else share_expiry_margin (fc_ttl f));
                  early =
                    (case row of
                       None \<Rightarrow> None
                     | Some e \<Rightarrow>
                         if e_instance e = session_id \<and> m_sender_id msg \<noteq> [] \<and>
                            m_sender_id msg = e_creator e then Some (Inr [])
                         else
                           (case e_share_refusal e of
                              Some r \<Rightarrow>
                                if sr_instance r = session_id
                                then Some (Inl (ShareRefused session_id (sr_reason r)))
                                else map_option Inr (open_share (Some a) now k held session_id margin)
                            | None \<Rightarrow>
                                map_option Inr (open_share (Some a) now k held session_id margin)));
                  owner = with_owner_auth c msg
              in case early of
                   Some ans \<Rightarrow> (ans, [], s)
                 | None \<Rightarrow>
                     if m_owner_token msg = [] then (Inl ShareUnavailable, [], s)
                     else
                       (let call = CallCreateShare owner session_id (fc_ttl f); s1 = meanwhile s
                        in case mint of
                             MintRefused reason \<Rightarrow>
                               (Inl (ShareRefused session_id reason), [call],
                                record_share_refusal ops now k session_id reason s1)
                           | MintFailed _ \<Rightarrow> (Inr [], [call], s1)
                           | Minted m \<Rightarrow>
                               (let (token, calls, s2) =
                                  keep_minted a nonce ops now owner k held session_id m s1
                                in (Inr token, call # calls, s2)))))"

definition with_share ::
  "'s facade \<Rightarrow> aead option \<Rightarrow> string option \<Rightarrow> gotime \<Rightarrow> share_answer \<Rightarrow> ('s \<Rightarrow> 's) \<Rightarrow> call_ctx \<Rightarrow>
   inbound \<Rightarrow> string \<Rightarrow> 's routes \<Rightarrow> 's \<Rightarrow> (facade_error + call_ctx) \<times> agent_call list \<times> 's" where
  "with_share f sealer nonce now mint meanwhile c msg session_id ops s =
     (case sealer of
        None \<Rightarrow> (Inr c, [], s)
      | Some a \<Rightarrow>
          if \<not> m_collaborator msg \<or> session_id = [] then (Inr c, [], s)
          else
            (let (ans, calls, s') = share_for f a nonce now mint meanwhile c msg session_id ops s
             in case ans of
                  Inl err \<Rightarrow> (Inl err, calls, s')
                | Inr token \<Rightarrow> (Inr (with_share_token c token), calls, s')))"

definition with_session_auth ::
  "'s facade \<Rightarrow> aead option \<Rightarrow> gotime \<Rightarrow> call_ctx \<Rightarrow> inbound \<Rightarrow> entry \<Rightarrow> call_ctx \<times> bool" where
  "with_session_auth f sealer now c msg e =
     (if \<not> m_collaborator msg \<or> m_owner_token msg \<noteq> [] then (c, True)
      else
        case open_share sealer now
               (thread_key (m_channel msg) (m_channel_id msg) (m_thread_id msg))
               (e_share e) (e_instance e) (share_expiry_margin (fc_ttl f)) of
          None \<Rightarrow> (c, False)
        | Some token \<Rightarrow> (with_share_token c token, True))"

subsection \<open>Identities\<close>

lemma revoke_share_identity: "x \<in> set (revoke_share c i) \<Longrightarrow> call_identity x = c"
  by (auto simp: revoke_share_def split: if_splits)

lemma keep_minted_identity:
  "keep_minted a nonce ops now owner k held sid m s = (token, calls, s') \<Longrightarrow>
   x \<in> set calls \<Longrightarrow> call_identity x = owner"
  by (auto simp: keep_minted_def Let_def revoke_share_identity
      split: sum.splits prod.splits option.splits if_splits)

lemma share_for_identity:
  assumes "share_for f a nonce now mint mid c msg sid ops s = (ans, calls, s')"
    and "x \<in> set calls"
  shows "m_owner_token msg \<noteq> [] \<and> call_identity x = with_owner_auth c msg"
  using assms keep_minted_identity
  by (auto simp: share_for_def Let_def
      split: sum.splits option.splits if_splits share_answer.splits prod.splits)

lemma with_share_bearer:
  "with_share f sealer nonce now mint mid c msg sid ops s = (Inr c', calls, s') \<Longrightarrow>
   cx_bearer c' = cx_bearer c \<and> cx_agent c' = cx_agent c"
  by (auto simp: with_share_def ctx_bearer split: option.splits if_splits prod.splits sum.splits)

subsection \<open>A share opens only where it was sealed\<close>

definition nul_free :: "key \<Rightarrow> bool" where
  "nul_free k \<longleftrightarrow>
     CHR 0x00 \<notin> set (k_channel k) \<and> CHR 0x00 \<notin> set (k_channel_id k) \<and> CHR 0x00 \<notin> set (k_thread_id k)"

lemma share_aad_inj:
  assumes "nul_free k" and "nul_free k'" and "share_aad k i = share_aad k' i'"
  shows "k = k' \<and> i = i'"
proof -
  have split_aad: "\<exists>r. split_on CHR 0x00 (share_aad q j) =
      k_channel q # k_channel_id q # k_thread_id q # r" if "nul_free q" for q j
    using that by (simp add: share_aad_def nul_free_def split_on_append)
  from split_aad [OF assms(1), of i] split_aad [OF assms(2), of i'] assms(3)
  have "k_channel k = k_channel k'" "k_channel_id k = k_channel_id k'" "k_thread_id k = k_thread_id k'"
    by auto
  with assms(3) show ?thesis by (cases k; cases k') (simp add: share_aad_def)
qed

lemma open_share_bound:
  assumes "aead_laws a" and "nul_free k" and "nul_free k'"
    and "seal_seal a (Some n) token (share_aad k sid) = Inr sealed" and "length n = ae_nonce_size a"
    and "sh_sealed sh = sealed"
    and "open_share (Some a) now k' (Some sh) sid' margin = Some token'"
  shows "k' = k \<and> sid' = sid \<and> token' = token"
proof -
  from assms(7) have "seal_open a (sh_sealed sh) (share_aad k' sid') = Inr token'"
    by (auto simp: open_share_def split: if_splits sum.splits)
  with seal_open_seal [OF assms(1,4), of "share_aad k' sid'"] assms(5,6)
  have "share_aad k' sid' = share_aad k sid" and "token' = token"
    by (auto split: if_splits)
  with share_aad_inj [OF assms(3,2)] show ?thesis by simp
qed

lemma open_share_fresh:
  "open_share sealer now k (Some sh) sid margin = Some token \<Longrightarrow>
   sh_instance sh = sid \<and> (sh_expires_at sh = 0 \<or> now + margin < sh_expires_at sh)"
  by (auto simp: open_share_def split: option.splits if_splits)

lemma share_margins:
  "share_expiry_margin ttl \<le> share_renewal ttl" "share_expiry_margin ttl \<le> 300 * 10 ^ 9"
  "0 < ttl \<Longrightarrow> 2 * share_renewal ttl \<le> ttl"
  by (auto simp: share_expiry_margin_def share_renewal_def)

subsection \<open>A minted share is kept or revoked\<close>

context thread_store begin

text \<open>
  The minted share is revoked, or the row of the thread holds it, or the store failed: then the
  turn still uses it, and the next one mints another.
\<close>

lemma keep_minted_accounted:
  assumes "slack = 0" and "inv s" and "mt_id m \<noteq> []"
    and "keep_minted a nonce ops now owner k held sid m s = (token, calls, s')"
    and "\<And>e. live now s k = Some e \<Longrightarrow> open_share (Some a) now k (e_share e) sid 0 \<noteq> Some []"
  obtains (revoked) "CallRevoke owner (mt_id m) \<in> set calls"
    | (kept) e sh where "live now s' k = Some e" "e_share e = Some sh" "sh_id sh = mt_id m"
        "sh_instance sh = sid" "e_instance e = sid" "token = mt_token m"
    | (store_failed) sealed seen err where
        "seal_seal a nonce (mt_token m) (share_aad k sid) = Inr sealed"
        "rt_update ops now k (store_share_mutate (Some a) now k held sid m sealed) s = (seen, Some err, s')"
        "token = mt_token m"
proof (cases "seal_seal a nonce (mt_token m) (share_aad k sid)")
  case (Inl e)
  with assms(3,4) revoked show ?thesis by (auto simp: keep_minted_def revoke_share_def)
next
  case (Inr sealed)
  let ?f = "store_share_mutate (Some a) now k held sid m sealed"
  obtain seen err s1 where u: "rt_update ops now k ?f s = (seen, err, s1)" by (metis prod_cases3)
  let ?moved = "case seen of None \<Rightarrow> False | Some (e, found) \<Rightarrow> share_moved sid e found"
  let ?w = "case seen of None \<Rightarrow> None | Some (e, found) \<Rightarrow> share_winner (Some a) now k held sid e found"
  have s1: "s1 = s'" and res:
    "?w \<noteq> None \<and> ?w \<noteq> Some [] \<or> ?moved \<Longrightarrow> calls = revoke_share owner (mt_id m)"
    "\<not> (?w \<noteq> None \<and> ?w \<noteq> Some [] \<or> ?moved) \<Longrightarrow> token = mt_token m"
    using assms(4) unfolding keep_minted_def Inr u Let_def sum.case prod.case
    by (simp_all split: if_split_asm)
  show ?thesis
  proof (cases "?w \<noteq> None \<and> ?w \<noteq> Some [] \<or> ?moved")
    case True
    with res(1) assms(3) revoked show ?thesis by (simp add: revoke_share_def)
  next
    case used: False
    show ?thesis
    proof (cases err)
      case (Some e)
      with u s1 store_failed [OF Inr] res(2) used show ?thesis by simp
    next
      case None
      with u s1 have u': "rt_update ops now k ?f s = (seen, None, s')" by simp
      obtain e found where sh: "shown (live now s k) = (e, found)" by fastforce
      with upd_seen [OF assms(2) u'] have seen: "seen = Some (e, found)" by simp
      with used have stay: "\<not> share_moved sid e found"
        and w: "share_winner (Some a) now k held sid e found \<in> {None, Some []}" by auto
      then have found: "found" "e_instance e = sid" by (auto simp: share_moved_def)
      with sh have row: "live now s k = Some e" by (auto simp: shown_def split: option.splits)
      from w assms(5) [OF row] have "share_winner (Some a) now k held sid e found = None"
        by (auto simp: share_winner_def split: if_splits)
      with stay found have f: "?f e True = Some (e\<lparr>e_share := Some \<lparr>sh_id = mt_id m, sh_instance = sid,
          sh_sealed = sealed, sh_expires_at = mt_expires_at m\<rparr>\<rparr>)"
        by (simp add: store_share_mutate_def)
      show ?thesis
        by (rule kept [OF upd_write_kept_clock [OF assms(1,2) u' row f]])
          (use found res(2) used in \<open>simp add: norm_fields\<close>)+
    qed
  qed
qed

end

subsection \<open>Properties\<close>

text \<open>C14: A sealed share opens only for the thread and session it was minted for: whoever
  copies a row's ciphertext to another thread, or asks with another session, gets no token, and
  the one that opens is the token that was sealed. The AEAD is a parameter with its documented
  behaviour; the thread's parts contain no NUL byte, as no channel produces one.\<close>

theorem share_bound_to_thread:
  assumes "aead_laws a" and "nul_free k" and "nul_free k'"
    and "seal_seal a (Some n) token (share_aad k sid) = Inr (sh_sealed sh)"
    and "length n = ae_nonce_size a"
    and "open_share (Some a) now k' (Some sh) sid' margin = Some token'"
  shows "k' = k \<and> sid' = sid \<and> token' = token"
  using open_share_bound [OF assms(1-4,5) refl assms(6)] .

theorem share_bound_to_thread_witness:
  "open_share (Some clear_aead) 5 thread_a
     (Some \<lparr>sh_id = ''s'', sh_instance = ''i'',
        sh_sealed = ''n'' @ ae_seal clear_aead ''n'' ''secret'' (share_aad thread_a ''i''),
        sh_expires_at = 0\<rparr>) ''i'' 0 = Some ''secret''"
proof -
  let ?sh = "\<lparr>sh_id = ''s'', sh_instance = ''i'',
        sh_sealed = ''n'' @ ae_seal clear_aead ''n'' ''secret'' (share_aad thread_a ''i''),
        sh_expires_at = 0\<rparr>"
  have nul: "nul_free thread_a" by (simp add: nul_free_def thread_a_def)
  have sealed: "seal_seal clear_aead (Some ''n'') ''secret'' (share_aad thread_a ''i'') = Inr (sh_sealed ?sh)"
    by (simp add: seal_seal_def)
  have size: "length ''n'' = ae_nonce_size clear_aead" by (simp add: clear_aead_def)
  obtain token where "open_share (Some clear_aead) 5 thread_a (Some ?sh) ''i'' 0 = Some token"
    using seal_open_seal [OF clear_aead_laws sealed size, of "share_aad thread_a ''i''"]
    by (simp add: open_share_def)
  with share_bound_to_thread [OF clear_aead_laws nul nul sealed size this] show ?thesis by simp
qed

end
