(* ===== verification/ContextId.thy ===== *)
theory ContextId
  imports Records
begin

section \<open>The Session request id\<close>

text \<open>
  \<open>pkg/channels/contextid.go\<close>: \<open>SynthesizeContextID\<close>. Each part is written as its
  length in decimal, a colon, its bytes and a bar; the request id is the hexadecimal digest of
  the result. The digest (SHA-256) is the argument \<open>sha\<close>. The lemmas show that the
  digest's input determines the parts, so two conversations share a request id only when they
  are the same conversation or the digest collides.
\<close>

definition frame_part :: "string \<Rightarrow> string" where
  "frame_part s = decimal (length s) @ [CHR '':''] @ s @ [bar]"

definition context_preimage :: "string list \<Rightarrow> string" where
  "context_preimage parts = concat (map frame_part parts)"

lemma frame_part_prefix_free:
  assumes "frame_part s @ x = frame_part t @ y"
  shows "s = t \<and> x = y"
proof -
  from assms have eq: "decimal (length s) @ CHR '':'' # (s @ bar # x)
      = decimal (length t) @ CHR '':'' # (t @ bar # y)"
    by (simp add: frame_part_def)
  then have "split_on CHR '':'' (decimal (length s) @ CHR '':'' # (s @ bar # x))
      = split_on CHR '':'' (decimal (length t) @ CHR '':'' # (t @ bar # y))" by simp
  then have len: "decimal (length s) = decimal (length t)"
    by (simp add: split_on_append decimal_no_colon)
  then have "length s = length t" by (rule decimal_inj)
  with eq len show ?thesis by simp
qed

lemma context_preimage_inj: "context_preimage ps = context_preimage qs \<Longrightarrow> ps = qs"
proof (induction ps arbitrary: qs)
  case Nil
  then show ?case by (cases qs) (simp_all add: context_preimage_def frame_part_def)
next
  case (Cons p ps)
  then obtain q qs' where qs: "qs = q # qs'"
    by (cases qs) (simp_all add: context_preimage_def frame_part_def)
  with Cons.prems have "frame_part p @ context_preimage ps = frame_part q @ context_preimage qs'"
    by (simp add: context_preimage_def)
  with Cons.IH qs show ?case by (auto dest: frame_part_prefix_free)
qed

subsection \<open>SynthesizeContextID\<close>

definition context_parts ::
  "string \<Rightarrow> string \<Rightarrow> string \<Rightarrow> string \<Rightarrow> string \<Rightarrow> workspace_choice option \<Rightarrow> string list" where
  "context_parts channel channel_id user_id thread_id agent_ref workspace =
     [channel, channel_id, user_id, thread_id, agent_ref] @
     (if ws_chosen workspace
      then [wc_namespace (the workspace), wc_name (the workspace)] else [])"

definition synthesize_context_id ::
  "(string \<Rightarrow> string) \<Rightarrow> string \<Rightarrow> string \<Rightarrow> string \<Rightarrow> string \<Rightarrow> string \<Rightarrow>
   workspace_choice option \<Rightarrow> string" where
  "synthesize_context_id sha channel channel_id user_id thread_id agent_ref workspace =
     hex_encode (sha (context_preimage
       (context_parts channel channel_id user_id thread_id agent_ref workspace)))"

text \<open>A choice as the request id sees it: an explicit none is no choice.\<close>

definition effective_workspace :: "workspace_choice option \<Rightarrow> (string \<times> string) option" where
  "effective_workspace w =
     (if ws_chosen w then Some (wc_namespace (the w), wc_name (the w)) else None)"

lemma context_parts_inj:
  "context_parts c i u t a w = context_parts c' i' u' t' a' w' \<longleftrightarrow>
   c = c' \<and> i = i' \<and> u = u' \<and> t = t' \<and> a = a' \<and>
   effective_workspace w = effective_workspace w'"
  by (auto simp: context_parts_def effective_workspace_def)

lemma context_id_eq_iff:
  assumes "sha (context_preimage (context_parts c i u t a w)) =
      sha (context_preimage (context_parts c' i' u' t' a' w')) \<Longrightarrow>
    context_preimage (context_parts c i u t a w) =
      context_preimage (context_parts c' i' u' t' a' w')"
  shows "synthesize_context_id sha c i u t a w = synthesize_context_id sha c' i' u' t' a' w' \<longleftrightarrow>
   c = c' \<and> i = i' \<and> u = u' \<and> t = t' \<and> a = a' \<and>
   effective_workspace w = effective_workspace w'"
proof
  assume "synthesize_context_id sha c i u t a w = synthesize_context_id sha c' i' u' t' a' w'"
  then have "sha (context_preimage (context_parts c i u t a w)) =
      sha (context_preimage (context_parts c' i' u' t' a' w'))"
    unfolding synthesize_context_id_def by (rule hex_encode_inj)
  from assms [OF this] show "c = c' \<and> i = i' \<and> u = u' \<and> t = t' \<and> a = a' \<and>
      effective_workspace w = effective_workspace w'"
    by (auto dest!: context_preimage_inj simp: context_parts_inj)
next
  assume "c = c' \<and> i = i' \<and> u = u' \<and> t = t' \<and> a = a' \<and>
      effective_workspace w = effective_workspace w'"
  then have "context_parts c i u t a w = context_parts c' i' u' t' a' w'"
    by (simp add: context_parts_inj)
  then show "synthesize_context_id sha c i u t a w = synthesize_context_id sha c' i' u' t' a' w'"
    by (simp add: synthesize_context_id_def)
qed

subsection \<open>Properties\<close>

text \<open>C39: Two messages name one kagent session exactly when they agree on the channel, the
  conversation, the user, the thread, the agent and the workspace in effect, an explicit choice
  of no workspace being no choice. The hypothesis says that SHA-256 tells the two hashed strings
  of this pair apart.\<close>

theorem context_id_identifies_session:
  assumes "sha (context_preimage (context_parts c i u t a w)) =
      sha (context_preimage (context_parts c' i' u' t' a' w')) \<Longrightarrow>
    context_preimage (context_parts c i u t a w) =
      context_preimage (context_parts c' i' u' t' a' w')"
  shows "synthesize_context_id sha c i u t a w = synthesize_context_id sha c' i' u' t' a' w' \<longleftrightarrow>
   c = c' \<and> i = i' \<and> u = u' \<and> t = t' \<and> a = a' \<and>
   effective_workspace w = effective_workspace w'"
  using assms by (rule context_id_eq_iff)

theorem context_id_identifies_session_witness:
  "synthesize_context_id (\<lambda>s. s) ''slack'' ''ab'' ''c'' ''t'' ''agent'' None \<noteq>
   synthesize_context_id (\<lambda>s. s) ''slack'' ''a'' ''bc'' ''t'' ''agent'' None"
  by (simp add: context_id_identifies_session [of "\<lambda>s. s"])

end
