(* ===== verification/Binding.thy ===== *)
theory Binding
  imports Share Title ContextId
begin

section \<open>The thread's session binding\<close>

text \<open>
  The part of \<open>pkg/channels/facade.go\<close> that binds a thread to a session: \<open>sessionFor\<close>,
  \<open>SessionResumable\<close>, \<open>ResetSession\<close>, \<open>clearBinding\<close>, the in-flight task
  record and the lookups of a turn a previous process left running. The controller's answers are
  arguments; the calls made are the returned list, each with its identity. \<open>meanwhile\<close> is
  what other turns made of the store between the read of the row and its update.
\<close>

subsection \<open>The callbacks\<close>

definition drop_task :: "entry \<Rightarrow> entry" where
  "drop_task e = e\<lparr>e_task_id := [], e_resume := None, e_delivered := zero_delivered\<rparr>"

definition clear_binding :: mutate where
  "clear_binding e found =
     (if \<not> found then None
      else Some (e\<lparr>e_instance := [], e_task_id := [], e_resume := None, e_share := None,
                  e_share_refusal := None, e_creator := [], e_workspace := None,
                  e_readers := []\<rparr>))"

definition touch_mutate :: "duration \<Rightarrow> gotime \<Rightarrow> mutate" where
  "touch_mutate ttl now e found =
     (if \<not> found then None
      else Some (e\<lparr>e_last_seen := now,
                  e_ttl := (if e_ttl e \<le> 0 \<and> ttl > 0 then store_ttl ttl else e_ttl e)\<rparr>))"

definition left_share :: "string \<Rightarrow> entry \<Rightarrow> (share \<times> string) option" where
  "left_share session_id e =
     (case e_share e of
        None \<Rightarrow> None
      | Some sh \<Rightarrow> if sh_instance sh \<noteq> session_id then Some (sh, recorded_creator e) else None)"

definition bind_row ::
  "duration \<Rightarrow> gotime \<Rightarrow> inbound \<Rightarrow> workspace_choice option \<Rightarrow> string \<Rightarrow> entry \<Rightarrow> entry" where
  "bind_row ttl now msg workspace session_id e =
     (let e1 = (if e_instance e \<noteq> [] \<and> e_instance e \<noteq> session_id then drop_task e else e);
          e2 = (if left_share session_id e1 = None then e1 else e1\<lparr>e_share := None\<rparr>);
          e3 = (case e_share_refusal e2 of
                  None \<Rightarrow> e2
                | Some r \<Rightarrow> if sr_instance r \<noteq> session_id then e2\<lparr>e_share_refusal := None\<rparr> else e2);
          e4 = (if e_instance e3 \<noteq> session_id then e3\<lparr>e_creator := creator_id msg\<rparr> else e3);
          e5 = (if ws_equal (e_workspace e4) workspace then e4 else e4\<lparr>e_readers := []\<rparr>);
          e6 = e5\<lparr>e_agent_ref := m_agent_ref msg, e_instance := session_id,
                  e_workspace := workspace, e_last_seen := now\<rparr>
      in e6\<lparr>e_created_at := (if e_created_at e6 = 0 then now else e_created_at e6),
            e_ttl := (if e_ttl e6 \<le> 0 then store_ttl ttl else e_ttl e6)\<rparr>)"

definition bind_mutate ::
  "duration \<Rightarrow> gotime \<Rightarrow> inbound \<Rightarrow> workspace_choice option \<Rightarrow> string \<Rightarrow> mutate" where
  "bind_mutate ttl now msg workspace session_id e found =
     Some (bind_row ttl now msg workspace session_id (fst (reopen ttl now e found)))"

definition remember_mutate :: "string \<Rightarrow> (string \<times> string) list option \<Rightarrow> mutate" where
  "remember_mutate task_id resume e found =
     (if \<not> found then None
      else Some (e\<lparr>e_task_id := task_id, e_resume := resume, e_delivered := zero_delivered\<rparr>))"

definition forget_mutate :: mutate where
  "forget_mutate e found =
     (if \<not> found then None
      else if e_task_id e = [] \<and> e_resume e = None \<and> delivered_is_zero (e_delivered e) then None
      else Some (drop_task e))"

subsection \<open>sessionFor\<close>

definition msg_key :: "inbound \<Rightarrow> key" where
  "msg_key msg = thread_key (m_channel msg) (m_channel_id msg) (m_thread_id msg)"

definition wanted_workspace :: "inbound \<Rightarrow> entry \<Rightarrow> workspace_choice option" where
  "wanted_workspace msg e =
     (if m_workspace msg = None \<and> e_agent_ref e = m_agent_ref msg
      then e_workspace e else m_workspace msg)"

text \<open>The share a conversation that ended leaves behind.\<close>

definition ended_calls ::
  "duration \<Rightarrow> gotime \<Rightarrow> call_ctx \<Rightarrow> inbound \<Rightarrow> entry option \<Rightarrow> agent_call list" where
  "ended_calls ttl now c msg row =
     (case row of
        None \<Rightarrow> []
      | Some e \<Rightarrow>
          if thread_closed ttl e now
          then (case e_share e of
                  None \<Rightarrow> []
                | Some sh \<Rightarrow> revoke_left_share c msg sh (recorded_creator e))
          else [])"

text \<open>The share of the session a rebind leaves, read off the row the callback was handed.\<close>

definition rebind_calls ::
  "duration \<Rightarrow> gotime \<Rightarrow> call_ctx \<Rightarrow> inbound \<Rightarrow> string \<Rightarrow> (entry \<times> bool) option \<Rightarrow> agent_call list" where
  "rebind_calls ttl now c msg session_id seen =
     (case seen of
        None \<Rightarrow> []
      | Some (e, found) \<Rightarrow>
          (case left_share session_id (fst (reopen ttl now e found)) of
             None \<Rightarrow> []
           | Some (sh, creator) \<Rightarrow> revoke_left_share c msg sh creator))"

text \<open>The part of \<open>sessionFor\<close> that asks for a session and stores it.\<close>

definition start_call ::
  "(string \<Rightarrow> string) \<Rightarrow> call_ctx \<Rightarrow> inbound \<Rightarrow> workspace_choice option \<Rightarrow> agent_call" where
  "start_call sha c msg workspace =
     CallStart c (m_agent_ref msg)
       (synthesize_context_id sha (m_channel msg) (m_channel_id msg) [] (m_thread_id msg)
          (m_agent_ref msg) workspace)
       (session_name msg) (m_grant msg)"

definition bind_session ::
  "(string \<Rightarrow> string) \<Rightarrow> 's routes \<Rightarrow> duration \<Rightarrow> gotime \<Rightarrow> go_error + string \<Rightarrow> ('s \<Rightarrow> 's) \<Rightarrow>
   call_ctx \<Rightarrow> inbound \<Rightarrow> workspace_choice option \<Rightarrow> 's \<Rightarrow>
   (facade_error + string) \<times> agent_call list \<times> 's" where
  "bind_session sha ops ttl now start meanwhile c msg workspace s =
     (case start of
        Inl err \<Rightarrow> (Inl (AgentFailed err), [start_call sha c msg workspace], s)
      | Inr session_id \<Rightarrow>
          (let (seen, err, s') =
             rt_update ops now (msg_key msg)
               (bind_mutate ttl now msg workspace session_id) (meanwhile s)
           in case err of
                Some x \<Rightarrow> (Inl (StoreFailed x), [start_call sha c msg workspace], s')
              | None \<Rightarrow>
                  (Inr session_id,
                   start_call sha c msg workspace # rebind_calls ttl now c msg session_id seen,
                   s')))"

definition session_for ::
  "(string \<Rightarrow> string) \<Rightarrow> 's facade \<Rightarrow> gotime \<Rightarrow> go_error + string \<Rightarrow> ('s \<Rightarrow> 's) \<Rightarrow> call_ctx \<Rightarrow>
   inbound \<Rightarrow> 's \<Rightarrow> (facade_error + string) \<times> agent_call list \<times> 's" where
  "session_for sha f now start meanwhile c msg s =
     (case fc_routes f of
        None \<Rightarrow> (Inl NoThreadStore, [], s)
      | Some ops \<Rightarrow>
          case rt_get ops now (msg_key msg) s of
            Inl err \<Rightarrow> (Inl (StoreFailed err), [], s)
          | Inr row \<Rightarrow>
              (let ended = ended_calls (fc_ttl f) now c msg row;
                   (e, ok) = shown (live_entry (fc_ttl f) now row);
                   workspace = wanted_workspace msg e
               in if ok \<and> e_instance e \<noteq> [] \<and> e_agent_ref e = m_agent_ref msg \<and>
                     ws_equal workspace (e_workspace e)
                  then
                    (let (_, err, s') =
                       rt_update ops now (msg_key msg) (touch_mutate (fc_ttl f) now) (meanwhile s)
                     in case err of
                          Some x \<Rightarrow> (Inl (StoreFailed x), ended, s')
                        | None \<Rightarrow> (Inr (e_instance e), ended, s'))
                  else if ws_chosen workspace \<and> m_grant msg = []
                  then (Inl (NoWorkspaceGrant (ws_string workspace)), ended, s)
                  else
                    (let (res, calls, s') =
                       bind_session sha ops (fc_ttl f) now start meanwhile c msg workspace s
                     in (res, ended @ calls, s'))))"

subsection \<open>SessionResumable and ResetSession\<close>

text \<open>
  The answer of \<open>GetSession\<close> is \<open>Inl\<close> of the error and of \<open>IsNotFound\<close> on it.
\<close>

definition session_resumable ::
  "'s facade \<Rightarrow> aead option \<Rightarrow> gotime \<Rightarrow> (go_error \<times> bool) + unit \<Rightarrow> ('s \<Rightarrow> 's) \<Rightarrow> call_ctx \<Rightarrow>
   inbound \<Rightarrow> 's \<Rightarrow> (bool \<times> bool) \<times> agent_call list \<times> 's" where
  "session_resumable f sealer now got meanwhile c msg s =
     (case (fc_agent f, fc_routes f) of
        (True, Some ops) \<Rightarrow>
          (let owner = with_owner_auth c msg
           in case rt_get ops now (msg_key msg) s of
                Inl _ \<Rightarrow> ((False, False), [], s)
              | Inr row \<Rightarrow>
                  (case live_entry (fc_ttl f) now row of
                     None \<Rightarrow> ((False, True), [], s)
                   | Some e \<Rightarrow>
                       if e_instance e = [] then ((False, True), [], s)
                       else
                         (let (ctx, ok) = with_session_auth f sealer now owner msg e
                          in if \<not> ok then ((False, False), [], s)
                             else
                               (case got of
                                  Inr _ \<Rightarrow> ((True, True), [CallGet ctx (e_instance e)], s)
                                | Inl (_, not_found) \<Rightarrow>
                                    if \<not> not_found
                                    then ((False, False), [CallGet ctx (e_instance e)], s)
                                    else
                                      (let (_, _, s') = rt_update ops now (msg_key msg)
                                             clear_binding (meanwhile s)
                                       in ((False, True), [CallGet ctx (e_instance e)], s'))))))
      | _ \<Rightarrow> ((False, False), [], s))"

definition reset_session ::
  "'s facade \<Rightarrow> aead option \<Rightarrow> gotime \<Rightarrow> go_error option \<Rightarrow> ('s \<Rightarrow> 's) \<Rightarrow> call_ctx \<Rightarrow>
   inbound \<Rightarrow> 's \<Rightarrow> (bool \<times> facade_error option) \<times> agent_call list \<times> 's" where
  "reset_session f sealer now answer meanwhile c msg s =
     (case (fc_agent f, fc_routes f) of
        (True, Some ops) \<Rightarrow>
          (let owner = with_owner_auth c msg
           in case rt_get ops now (msg_key msg) s of
                Inl err \<Rightarrow> ((False, Some (StoreFailed err)), [], s)
              | Inr None \<Rightarrow> ((False, None), [], s)
              | Inr (Some e) \<Rightarrow>
                  if e_instance e = [] then ((False, None), [], s)
                  else
                    (let (ctx, ok) = with_session_auth f sealer now owner msg e
                     in if \<not> ok then ((False, Some ShareUnavailable), [], s)
                        else
                          (case answer of
                             Some err \<Rightarrow>
                               ((False, Some (AgentFailed err)), [CallDelete ctx (e_instance e)], s)
                           | None \<Rightarrow>
                               (let (_, err, s') = rt_update ops now (msg_key msg)
                                      clear_binding (meanwhile s)
                                in ((err = None, map_option StoreFailed err),
                                    [CallDelete ctx (e_instance e)], s')))))
      | _ \<Rightarrow> ((False, None), [], s))"

subsection \<open>The record of the task in flight\<close>

definition update_binding :: "'s facade \<Rightarrow> gotime \<Rightarrow> key \<Rightarrow> mutate \<Rightarrow> 's \<Rightarrow> 's" where
  "update_binding f now k mutate s =
     (case fc_routes f of
        None \<Rightarrow> s
      | Some ops \<Rightarrow> (let (_, _, s') = rt_update ops now k mutate s in s'))"

definition remember_task ::
  "'s facade \<Rightarrow> gotime \<Rightarrow> key \<Rightarrow> string \<Rightarrow> (string \<times> string) list option \<Rightarrow> 's \<Rightarrow> 's" where
  "remember_task f now k task_id resume s = update_binding f now k (remember_mutate task_id resume) s"

definition forget_task :: "'s facade \<Rightarrow> gotime \<Rightarrow> key \<Rightarrow> 's \<Rightarrow> 's" where
  "forget_task f now k s = update_binding f now k forget_mutate s"

definition resumes_turns :: "'s facade \<Rightarrow> bool" where
  "resumes_turns f \<longleftrightarrow> fc_agent f \<and> fc_routes f \<noteq> None \<and> fc_durable f"

definition in_flight_of :: "key \<Rightarrow> entry \<Rightarrow> in_flight_turn" where
  "in_flight_of k e =
     \<lparr>ift_msg = zero_inbound\<lparr>m_channel := k_channel k, m_channel_id := k_channel_id k,
         m_thread_id := k_thread_id k, m_agent_ref := e_agent_ref e, m_resume := e_resume e\<rparr>,
      ift_task_id = e_task_id e, ift_delivered = e_delivered e\<rparr>"

definition in_flight_turns ::
  "'s facade \<Rightarrow> gotime \<Rightarrow> string \<Rightarrow> 's \<Rightarrow> facade_error + in_flight_turn list" where
  "in_flight_turns f now channel s =
     (case (fc_agent f, fc_routes f) of
        (True, Some ops) \<Rightarrow>
          (case rt_list ops now s of
             Inl err \<Rightarrow> Inl (StoreFailed err)
           | Inr rows \<Rightarrow>
               Inr (map (\<lambda>(k, e). in_flight_of k e)
                 (filter (\<lambda>(k, e). k_channel k = channel \<and> e_task_id e \<noteq> [] \<and>
                     e_instance e \<noteq> [] \<and> \<not> thread_closed (fc_ttl f) e now) rows)))
      | _ \<Rightarrow> Inr [])"

definition in_flight_turn_of ::
  "'s facade \<Rightarrow> gotime \<Rightarrow> inbound \<Rightarrow> 's \<Rightarrow> facade_error + in_flight_turn option" where
  "in_flight_turn_of f now msg s =
     (case (fc_agent f, fc_routes f) of
        (True, Some ops) \<Rightarrow>
          (case rt_get ops now (msg_key msg) s of
             Inl err \<Rightarrow> Inl (StoreFailed err)
           | Inr row \<Rightarrow>
               (case live_entry (fc_ttl f) now row of
                  None \<Rightarrow> Inr None
                | Some e \<Rightarrow>
                    if e_task_id e = [] \<or> e_instance e = [] then Inr None
                    else Inr (Some (in_flight_of (msg_key msg) e))))
      | _ \<Rightarrow> Inr None)"

subsection \<open>What a bound row holds\<close>

text \<open>
  A row's share and share refusal belong to the session the row is bound to. Every callback the
  gateway runs on a row keeps that.
\<close>

definition binding_ok :: "entry \<Rightarrow> bool" where
  "binding_ok e \<longleftrightarrow>
     (\<forall>sh. e_share e = Some sh \<longrightarrow> sh_instance sh = e_instance e) \<and>
     (\<forall>r. e_share_refusal e = Some r \<longrightarrow> sr_instance r = e_instance e)"

lemma recorded_creator_drop [simp]: "recorded_creator (drop_task e) = recorded_creator e"
  by (simp add: recorded_creator_def drop_task_def)

lemma drop_task_sel [simp]:
  "e_share (drop_task e) = e_share e" "e_share_refusal (drop_task e) = e_share_refusal e"
  "e_instance (drop_task e) = e_instance e" "e_agent_ref (drop_task e) = e_agent_ref e"
  "e_initiator (drop_task e) = e_initiator e" "e_granted (drop_task e) = e_granted e"
  "e_held (drop_task e) = e_held e" "e_muted_at (drop_task e) = e_muted_at e"
  "e_workspace (drop_task e) = e_workspace e" "e_creator (drop_task e) = e_creator e"
  "e_readers (drop_task e) = e_readers e" "e_created_at (drop_task e) = e_created_at e"
  "e_ttl (drop_task e) = e_ttl e" "e_last_seen (drop_task e) = e_last_seen e"
  "e_task_id (drop_task e) = []" "e_resume (drop_task e) = None"
  "e_delivered (drop_task e) = zero_delivered"
  by (simp_all add: drop_task_def)

lemma left_share_drop [simp]: "left_share sid (drop_task e) = left_share sid e"
  by (simp add: left_share_def split: option.split)

lemma bind_row_sel:
  "e_agent_ref (bind_row ttl now msg w sid e) = m_agent_ref msg"
  "e_instance (bind_row ttl now msg w sid e) = sid"
  "e_workspace (bind_row ttl now msg w sid e) = w"
  "e_last_seen (bind_row ttl now msg w sid e) = now"
  "e_initiator (bind_row ttl now msg w sid e) = e_initiator e"
  "e_granted (bind_row ttl now msg w sid e) = e_granted e"
  "e_held (bind_row ttl now msg w sid e) = e_held e"
  "e_muted_at (bind_row ttl now msg w sid e) = e_muted_at e"
  "e_ttl (bind_row ttl now msg w sid e) = (if e_ttl e \<le> 0 then store_ttl ttl else e_ttl e)"
  "e_readers (bind_row ttl now msg w sid e) = (if e_workspace e = w then e_readers e else [])"
  "e_creator (bind_row ttl now msg w sid e) =
     (if e_instance e = sid then e_creator e else creator_id msg)"
  "e_share (bind_row ttl now msg w sid e) = (if left_share sid e = None then e_share e else None)"
  "e_share_refusal (bind_row ttl now msg w sid e) =
     (case e_share_refusal e of None \<Rightarrow> None
      | Some r \<Rightarrow> if sr_instance r = sid then Some r else None)"
  "e_task_id (bind_row ttl now msg w sid e) =
     (if e_instance e \<noteq> [] \<and> e_instance e \<noteq> sid then [] else e_task_id e)"
  "e_delivered (bind_row ttl now msg w sid e) =
     (if e_instance e \<noteq> [] \<and> e_instance e \<noteq> sid then zero_delivered else e_delivered e)"
  by (simp_all add: bind_row_def Let_def drop_task_def left_share_def split: option.split)

lemma bind_row_ok: "binding_ok (bind_row ttl now msg w sid e)"
  by (auto simp: binding_ok_def bind_row_sel left_share_def split: option.splits if_splits)

lemma zero_entry_ok [simp]: "binding_ok zero_entry"
  by (simp add: binding_ok_def)

text \<open>The callbacks that run on a live row, for one session, minted share and reason.\<close>

definition row_callbacks ::
  "duration \<Rightarrow> gotime \<Rightarrow> inbound \<Rightarrow> workspace_choice option \<Rightarrow> string \<Rightarrow> string \<Rightarrow>
   (string \<times> string) list option \<Rightarrow> aead option \<Rightarrow> key \<Rightarrow> share option \<Rightarrow> minted_share \<Rightarrow>
   string \<Rightarrow> mutate list" where
  "row_callbacks ttl now msg w sid task resume sealer k held m text =
     [touch_mutate ttl now, bind_mutate ttl now msg w sid, clear_binding,
      remember_mutate task resume, forget_mutate, refusal_mutate sid text,
      store_share_mutate sealer now k held sid m text]"

lemma row_callbacks_ok:
  assumes "binding_ok e" and "f \<in> set (row_callbacks ttl now msg w sid task resume sealer k held m text)"
    and "f e found = Some e'"
  shows "binding_ok e'"
proof -
  have "bind_mutate ttl now msg w sid e found = Some e' \<Longrightarrow> binding_ok e'"
    by (auto simp: bind_mutate_def bind_row_ok)
  with assms show ?thesis
    by (auto simp: row_callbacks_def touch_mutate_def clear_binding_def remember_mutate_def
        forget_mutate_def refusal_mutate_def store_share_mutate_def share_moved_def binding_ok_def
        split: if_splits)
qed

lemma row_callbacks_keep:
  assumes "f \<in> set (row_callbacks ttl now msg w sid task resume sealer k held m text)"
    and "f e True = Some e'" and "\<not> thread_closed ttl e now"
  shows "e_initiator e' = e_initiator e \<and> e_granted e' = e_granted e \<and> e_held e' = e_held e \<and>
    e_muted_at e' = e_muted_at e"
proof -
  have "bind_mutate ttl now msg w sid e True = Some e' \<Longrightarrow>
      e_initiator e' = e_initiator e \<and> e_granted e' = e_granted e \<and> e_held e' = e_held e \<and>
      e_muted_at e' = e_muted_at e"
    using assms(3) by (auto simp: bind_mutate_def reopen_def bind_row_sel)
  with assms show ?thesis
    by (auto simp: row_callbacks_def touch_mutate_def clear_binding_def remember_mutate_def
        forget_mutate_def refusal_mutate_def store_share_mutate_def drop_task_def
        split: if_splits)
qed

subsection \<open>Identities of the calls\<close>

lemma revoke_left_identity: "x \<in> set (revoke_left_share c msg sh creator) \<Longrightarrow> call_identity x = c"
  by (auto simp: revoke_left_share_def revoke_share_identity split: if_splits)

lemma ended_calls_shape:
  "ended_calls ttl now c msg row = [] \<or>
   (\<exists>sh creator. ended_calls ttl now c msg row = revoke_left_share c msg sh creator)"
  by (auto simp: ended_calls_def split: option.split)

lemma rebind_calls_shape:
  "rebind_calls ttl now c msg sid seen = [] \<or>
   (\<exists>sh creator. rebind_calls ttl now c msg sid seen = revoke_left_share c msg sh creator)"
  by (auto simp: rebind_calls_def split: option.split prod.split)

lemma ended_calls_identity: "x \<in> set (ended_calls ttl now c msg row) \<Longrightarrow> call_identity x = c"
  using ended_calls_shape [of ttl now c msg row] revoke_left_identity by force

lemma rebind_calls_identity:
  "x \<in> set (rebind_calls ttl now c msg sid seen) \<Longrightarrow> call_identity x = c"
  using rebind_calls_shape [of ttl now c msg sid seen] revoke_left_identity by force

lemma bind_session_identity:
  "bind_session sha ops ttl now start mid c msg w s = (res, calls, s') \<Longrightarrow> x \<in> set calls \<Longrightarrow>
   call_identity x = c"
  by (auto simp: bind_session_def start_call_def dest: rebind_calls_identity
      split: sum.splits prod.splits option.splits)

text \<open>\<open>sessionFor\<close> by its ways out.\<close>

lemma session_for_cases:
  assumes "session_for sha f now start mid c msg s = (res, calls, s')"
  obtains (refused) "\<exists>err. res = Inl err" "calls = []" "s' = s"
    | (bound) ops row e seen err where "fc_routes f = Some ops"
        "rt_get ops now (msg_key msg) s = Inr row" "live_entry (fc_ttl f) now row = Some e"
        "calls = []"
        "e_instance e \<noteq> []" "e_agent_ref e = m_agent_ref msg"
        "wanted_workspace msg e = e_workspace e"
        "rt_update ops now (msg_key msg) (touch_mutate (fc_ttl f) now) (mid s) = (seen, err, s')"
        "res = (case err of None \<Rightarrow> Inr (e_instance e) | Some x \<Rightarrow> Inl (StoreFailed x))"
    | (ungranted) ops row where "fc_routes f = Some ops"
        "rt_get ops now (msg_key msg) s = Inr row"
        "ws_chosen (wanted_workspace msg (fst (shown (live_entry (fc_ttl f) now row))))"
        "m_grant msg = []" "calls = ended_calls (fc_ttl f) now c msg row" "s' = s"
        "\<exists>w. res = Inl (NoWorkspaceGrant w)"
    | (started) ops row w bcalls where "fc_routes f = Some ops"
        "rt_get ops now (msg_key msg) s = Inr row"
        "w = wanted_workspace msg (fst (shown (live_entry (fc_ttl f) now row)))"
        "ws_chosen w \<longrightarrow> m_grant msg \<noteq> []"
        "bind_session sha ops (fc_ttl f) now start mid c msg w s = (res, bcalls, s')"
        "calls = ended_calls (fc_ttl f) now c msg row @ bcalls"
proof (cases "fc_routes f")
  case None
  with assms refused show ?thesis by (auto simp: session_for_def)
next
  case (Some ops)
  note ops = this
  show ?thesis
  proof (cases "rt_get ops now (msg_key msg) s")
    case (Inl err)
    with assms ops refused show ?thesis by (auto simp: session_for_def)
  next
    case (Inr row)
    obtain e ok where sh: "shown (live_entry (fc_ttl f) now row) = (e, ok)" by fastforce
    show ?thesis
    proof (cases "ok \<and> e_instance e \<noteq> [] \<and> e_agent_ref e = m_agent_ref msg \<and>
        wanted_workspace msg e = e_workspace e")
      case True
      with sh have live: "live_entry (fc_ttl f) now row = Some e"
        by (auto simp: shown_def split: option.splits)
      then have "ended_calls (fc_ttl f) now c msg row = []"
        by (auto simp: ended_calls_def live_entry_def split: option.splits if_splits)
      with True assms ops Inr sh live show ?thesis
        by (cases "rt_update ops now (msg_key msg) (touch_mutate (fc_ttl f) now) (mid s)")
          (auto simp: session_for_def Let_def split: option.splits intro!: bound)
    next
      case False
      with assms ops Inr sh show ?thesis
        by (cases "bind_session sha ops (fc_ttl f) now start mid c msg (wanted_workspace msg e) s")
          (auto simp: session_for_def Let_def split: if_splits intro: ungranted started)
    qed
  qed
qed

lemma session_for_identity:
  assumes "session_for sha f now start mid c msg s = (res, calls, s')" and "x \<in> set calls"
  shows "call_identity x = c"
  using assms(1)
proof (cases rule: session_for_cases)
  case (started ops row w bcalls)
  with assms(2) show ?thesis using ended_calls_identity bind_session_identity by fastforce
qed (use assms(2) ended_calls_identity in auto)

text \<open>A start is asked for at most once, with the thread's request id, and never in a workspace
  without its grant.\<close>

lemma revoke_left_no_start:
  "CallStart a b r n g \<notin> set (revoke_left_share c msg sh creator)"
  by (auto simp: revoke_left_share_def revoke_share_def)

lemma no_start:
  "CallStart a b r n g \<notin> set (ended_calls ttl now c msg row)"
  "CallStart a b r n g \<notin> set (rebind_calls ttl now c msg sid seen)"
  using ended_calls_shape [of ttl now c msg row] rebind_calls_shape [of ttl now c msg sid seen]
    revoke_left_no_start by force+

lemma bind_session_starts:
  "bind_session sha ops ttl now start mid c msg w s = (res, calls, s') \<Longrightarrow>
   CallStart a b r n g \<in> set calls \<Longrightarrow> CallStart a b r n g = start_call sha c msg w"
  by (auto simp: bind_session_def no_start split: sum.splits prod.splits option.splits)

lemma session_for_starts:
  assumes "session_for sha f now start mid c msg s = (res, calls, s')"
    and "CallStart a b r n g \<in> set calls"
  shows "\<exists>w. CallStart a b r n g = start_call sha c msg w \<and> (ws_chosen w \<longrightarrow> m_grant msg \<noteq> []) \<and>
         (m_workspace msg \<noteq> None \<longrightarrow> w = m_workspace msg)"
  using assms(1)
proof (cases rule: session_for_cases)
  case (started ops row w bcalls)
  with assms(2) have "CallStart a b r n g \<in> set bcalls" by (auto simp: no_start)
  from bind_session_starts [OF started(5) this] started(3,4) show ?thesis
    by (auto simp: wanted_workspace_def)
qed (use assms(2) no_start in auto)


subsection \<open>The binding in the store\<close>

lemma touch_mutate_sel:
  "touch_mutate ttl now e True = Some e' \<Longrightarrow>
   e_last_seen e' = now \<and> e_agent_ref e' = e_agent_ref e \<and> e_instance e' = e_instance e \<and>
   e_workspace e' = e_workspace e \<and> e_initiator e' = e_initiator e \<and>
   e_granted e' = e_granted e \<and> e_held e' = e_held e \<and> e_muted_at e' = e_muted_at e \<and>
   e_task_id e' = e_task_id e \<and> e_share e' = e_share e"
  by (auto simp: touch_mutate_def)

lemma bind_mutate_shown:
  "case_prod (bind_mutate ttl now msg w sid) (shown r) =
     Some (bind_row ttl now msg w sid (fst (shown (live_entry ttl now r))))"
  by (cases r) (simp_all add: bind_mutate_def reopen_def live_entry_def)

lemma live_entry_Some: "live_entry ttl now r = Some e \<Longrightarrow> r = Some e \<and> \<not> thread_closed ttl e now"
  by (auto simp: live_entry_def split: option.splits if_splits)

lemma bind_session_Inr:
  assumes "bind_session sha ops ttl now start mid c msg w s = (Inr sid, calls, s')"
  obtains seen where "start = Inr sid"
    "rt_update ops now (msg_key msg) (bind_mutate ttl now msg w sid) (mid s) = (seen, None, s')"
    "calls = start_call sha c msg w # rebind_calls ttl now c msg sid seen"
  using assms by (auto simp: bind_session_def split: sum.splits prod.splits option.splits)

context reliable_store begin

text \<open>A write of a row stamped \<open>now\<close> is what readers see from then on, until it expires.\<close>

lemma upd_stamped:
  assumes "inv s" and "rt_update ops now k f s = (seen, None, s')"
    and "case_prod f (shown (live now s k)) = Some e" and "e_last_seen e = now"
  shows "live now s' k = Some (norm e)"
    and "now \<le> u \<Longrightarrow> live u s' k = (if entry_expired e u then None else Some (norm e))"
proof -
  show "now \<le> u \<Longrightarrow> live u s' k = (if entry_expired e u then None else Some (norm e))" for u
    using upd_write [OF assms(1-3)] upd_gone [OF assms(1-3)] exact by auto
  from this [of now] assms(4) show "live now s' k = Some (norm e)" by (simp add: entry_fresh)
qed

lemma session_for_row:
  assumes "inv (mid s)" and "fc_routes f = Some ops"
    and "session_for sha f now start mid c msg s = (Inr sid, calls, s')"
    and "live_entry (fc_ttl f) now (live now (mid s) (msg_key msg)) = Some e0"
  shows "\<exists>e g. live now s' (msg_key msg) = Some (norm e) \<and> e_last_seen e = now \<and> g e0 True = Some e \<and>
    (g = touch_mutate (fc_ttl f) now \<or>
     (\<exists>w. g = bind_mutate (fc_ttl f) now msg w sid \<and> (m_workspace msg \<noteq> None \<longrightarrow> w = m_workspace msg)))"
  using assms(3)
proof (cases rule: session_for_cases)
  case (bound ops' row e seen err)
  with assms(2) have u: "rt_update ops now (msg_key msg) (touch_mutate (fc_ttl f) now) (mid s)
      = (seen, None, s')" by (auto split: option.splits)
  from live_entry_Some [OF assms(4)] obtain e' where
    m: "touch_mutate (fc_ttl f) now e0 True = Some e'" "e_last_seen e' = now"
    by (simp add: touch_mutate_def)
  with live_entry_Some [OF assms(4)] upd_stamped(1) [OF assms(1) u] show ?thesis by auto
next
  case (started ops' row w bcalls)
  with assms(2) have b: "bind_session sha ops (fc_ttl f) now start mid c msg w s = (Inr sid, bcalls, s')"
    by simp
  from bind_session_Inr [OF b] obtain seen where
    u: "rt_update ops now (msg_key msg) (bind_mutate (fc_ttl f) now msg w sid) (mid s)
      = (seen, None, s')" by blast
  have "live now s' (msg_key msg) = Some (norm (bind_row (fc_ttl f) now msg w sid e0))"
    by (rule upd_stamped(1) [OF assms(1) u])
      (use assms(4) in \<open>simp_all add: bind_mutate_shown bind_row_sel\<close>)
  moreover have "bind_mutate (fc_ttl f) now msg w sid e0 True
      = Some (bind_row (fc_ttl f) now msg w sid e0)"
    using live_entry_Some [OF assms(4)] by (simp add: bind_mutate_def reopen_def)
  moreover from started(3) have "m_workspace msg \<noteq> None \<longrightarrow> w = m_workspace msg"
    by (auto simp: wanted_workspace_def)
  ultimately show ?thesis
    by (intro exI [of _ "bind_row (fc_ttl f) now msg w sid e0"]
        exI [of _ "bind_mutate (fc_ttl f) now msg w sid"]) (auto simp: bind_row_sel)
qed auto

lemma session_for_keeps_grants:
  assumes "inv (mid s)" and "fc_routes f = Some ops"
    and "session_for sha f now start mid c msg s = (Inr sid, calls, s')"
    and "live_entry (fc_ttl f) now (live now (mid s) (msg_key msg)) = Some e0"
  shows "\<exists>e. live_entry (fc_ttl f) now (live now s' (msg_key msg)) = Some e \<and>
    e_initiator e = e_initiator e0 \<and> e_granted e = e_granted e0 \<and> e_held e = e_held e0 \<and>
    e_muted_at e = e_muted_at e0"
proof -
  from session_for_row [OF assms] obtain e g where
    g: "live now s' (msg_key msg) = Some (norm e)" "e_last_seen e = now" "g e0 True = Some e"
      "g = touch_mutate (fc_ttl f) now \<or> (\<exists>w. g = bind_mutate (fc_ttl f) now msg w sid)"
    by blast
  from live_entry_Some [OF assms(4)] have "\<not> thread_closed (fc_ttl f) e0 now" by simp
  with g(3,4) have "e_initiator e = e_initiator e0 \<and> e_granted e = e_granted e0 \<and>
      e_held e = e_held e0 \<and> e_muted_at e = e_muted_at e0"
    by (auto simp: bind_mutate_def reopen_def bind_row_sel dest: touch_mutate_sel)
  moreover from g(2) have "\<not> thread_closed (fc_ttl f) (norm e) now"
    by (simp add: thread_fresh_open norm_fields)
  ultimately show ?thesis using g(1) by (simp add: live_entry_def norm_fields)
qed

text \<open>A turn whose session was found or started leaves a row the next turn finds it in.\<close>

lemma session_for_binds:
  assumes "inv s" and "fc_routes f = Some ops"
    and "session_for sha f now start (\<lambda>s. s) c msg s = (Inr sid, calls, s')"
  shows "\<exists>e. live now s' (msg_key msg) = Some e \<and> e_instance e = sid \<and>
    e_agent_ref e = m_agent_ref msg \<and> wanted_workspace msg e = e_workspace e \<and> e_last_seen e = now"
  using assms(3)
proof (cases rule: session_for_cases)
  case (bound ops' row e seen err)
  with assms(2) have u: "rt_update ops now (msg_key msg) (touch_mutate (fc_ttl f) now) s
      = (seen, None, s')" by (auto split: option.splits)
  from bound assms(2) get_live [OF assms(1)] have row: "live now s (msg_key msg) = Some e"
    by (auto dest: live_entry_Some)
  obtain e' where m: "touch_mutate (fc_ttl f) now e True = Some e'" "e_last_seen e' = now"
    by (simp add: touch_mutate_def)
  have "live now s' (msg_key msg) = Some (norm e')"
    by (rule upd_stamped(1) [OF assms(1) u]) (use row m in auto)
  moreover from bound have "e_instance e = sid" by (auto split: option.splits)
  ultimately show ?thesis using touch_mutate_sel [OF m(1)] bound
    by (auto simp: norm_fields wanted_workspace_def)
next
  case (started ops' row w bcalls)
  with assms(2) have b: "bind_session sha ops (fc_ttl f) now start (\<lambda>s. s) c msg w s
      = (Inr sid, bcalls, s')" by simp
  from bind_session_Inr [OF b] obtain seen where
    u: "rt_update ops now (msg_key msg) (bind_mutate (fc_ttl f) now msg w sid) s
      = (seen, None, s')" by blast
  have "live now s' (msg_key msg) = Some (norm (bind_row (fc_ttl f) now msg w sid
      (fst (shown (live_entry (fc_ttl f) now (live now s (msg_key msg)))))))"
    by (rule upd_stamped(1) [OF assms(1) u]) (simp_all add: bind_mutate_shown bind_row_sel)
  with started(3) show ?thesis
    by (auto simp: norm_fields bind_row_sel wanted_workspace_def)
qed auto

text \<open>
  The next turn of the same message's agent and workspace, while the conversation lasts, resumes
  the session and asks the controller for nothing.
\<close>

lemma session_for_resumes:
  assumes "inv s" and "fc_routes f = Some ops"
    and "live_entry (fc_ttl f) now (live now s (msg_key msg)) = Some e"
    and "e_instance e \<noteq> []" and "e_agent_ref e = m_agent_ref msg"
    and "wanted_workspace msg e = e_workspace e"
  shows "\<exists>s'. session_for sha f now start (\<lambda>s. s) c msg s = (Inr (e_instance e), [], s')"
proof -
  obtain s' where u: "rt_update ops now (msg_key msg) (touch_mutate (fc_ttl f) now) s =
      (Some (shown (live now s (msg_key msg))), None, s')" using upd_eq [OF assms(1)] by blast
  from live_entry_Some [OF assms(3)] have "ended_calls (fc_ttl f) now c msg (live now s (msg_key msg)) = []"
    by (simp add: ended_calls_def)
  with u assms get_eq [OF assms(1)] show ?thesis by (simp add: session_for_def Let_def)
qed

end

end
