(* ===== verification/StreamTask.thy ===== *)
theory StreamTask
  imports EventMapper Binding
begin

section \<open>Pumping a task's events\<close>

text \<open>
  \<open>streamTask\<close>, \<open>emitFinal\<close> and \<open>outboundMessage\<close> of
  \<open>pkg/channels/facade.go\<close>. The goroutine's effects are a trace of actions: a delta
  received by the channel, the writes of the in-flight record, and the calls on the controller.

  The turn's context is an oracle. A counter advances with every attempt to deliver a delta and
  every check of the context: \<open>ls_done n\<close> says whether the context is done at step \<open>n\<close>
  and \<open>ls_sent n\<close> whether the \<open>select\<close> of that step delivered, which Go may choose to
  do while both are ready. \<open>listener_ok\<close>: a context stays done, and a delivery fails only on
  a done context. The first event is pulled before the goroutine starts. A stream is its events
  and how it ends: with an error or by closing. The telemetry marks of the turn timer are left
  out here.
\<close>

datatype action =
    Emit outbound_delta
  | Remember string
  | Forget
  | CancelTask string
  | ReadTask string

record listener =
  ls_sent :: "nat \<Rightarrow> bool"
  ls_done :: "nat \<Rightarrow> bool"

definition listener_ok :: "listener \<Rightarrow> bool" where
  "listener_ok o' \<longleftrightarrow>
     (\<forall>m n. m \<le> n \<longrightarrow> ls_done o' m \<longrightarrow> ls_done o' n) \<and> (\<forall>n. \<not> ls_sent o' n \<longrightarrow> ls_done o' n)"

definition always_listening :: listener where
  "always_listening = \<lparr>ls_sent = (\<lambda>_. True), ls_done = (\<lambda>_. False)\<rparr>"

record pump =
  pm_mapper :: mapper
  pm_task :: string
  pm_recorded :: bool
  pm_terminal :: bool
  pm_delivered :: bool
  pm_clock :: nat
  pm_trace :: "action list"

text \<open>What a stream's pump is given: the library, the context, whether the call is a
  resubscription and the answer of \<open>GetTask\<close>.\<close>

record turn_env =
  te_lib :: lib
  te_listener :: listener
  te_resumed :: bool
  te_read :: "go_error + task"

definition emit :: "turn_env \<Rightarrow> outbound_delta \<Rightarrow> pump \<Rightarrow> bool \<times> pump" where
  "emit E d p =
     (let ok = ls_sent (te_listener E) (pm_clock p)
      in (ok, p\<lparr>pm_clock := Suc (pm_clock p),
                pm_trace := pm_trace p @ (if ok then [Emit d] else [])\<rparr>))"

definition act :: "action \<Rightarrow> pump \<Rightarrow> pump" where
  "act a p = p\<lparr>pm_trace := pm_trace p @ [a]\<rparr>"

definition ctx_done :: "turn_env \<Rightarrow> pump \<Rightarrow> bool \<times> pump" where
  "ctx_done E p = (ls_done (te_listener E) (pm_clock p), p\<lparr>pm_clock := Suc (pm_clock p)\<rparr>)"

fun emit_all :: "turn_env \<Rightarrow> outbound_delta list \<Rightarrow> pump \<Rightarrow> bool \<times> pump" where
  "emit_all E [] p = (True, p)"
| "emit_all E (d # ds) p =
     (let (ok, p1) = emit E d p in if \<not> ok then (False, p1) else emit_all E ds p1)"

definition emit_final :: "turn_env \<Rightarrow> pump \<Rightarrow> bool \<times> pump" where
  "emit_final E p =
     (let p0 = act (ReadTask (pm_task p)) p
      in case te_read E of
           Inl _ \<Rightarrow> (True, p0)
         | Inr tk \<Rightarrow>
             (let text = task_result_text tk;
                  (ok, p1) = (if text = [] then (True, p0)
                              else emit E (zero_delta\<lparr>od_content := text\<rparr>) p0)
              in if \<not> ok then (False, p1)
                 else
                   (let (us, m) = task_usage_deltas (pm_mapper p1) tk
                    in emit_all E us (p1\<lparr>pm_mapper := m\<rparr>))))"

definition is_whole :: "event \<Rightarrow> bool" where
  "is_whole ev = (case ev of WholeTask _ \<Rightarrow> True | _ \<Rightarrow> False)"

definition event_task_id :: "event \<Rightarrow> string" where
  "event_task_id ev =
     (case ev of
        ArtifactUpdate u \<Rightarrow> au_task_id u
      | StatusUpdate tid _ _ \<Rightarrow> tid
      | WholeTask tk \<Rightarrow> tk_id tk
      | BareMessage m \<Rightarrow> ms_task_id m)"

text \<open>The loop over one event's deltas; it stops at a delivery that failed and at an ending.\<close>

fun pump_deltas :: "turn_env \<Rightarrow> bool \<Rightarrow> outbound_delta list \<Rightarrow> pump \<Rightarrow> pump" where
  "pump_deltas E whole [] p = p"
| "pump_deltas E whole (d # ds) p =
     (if delta_is_zero d then pump_deltas E whole ds p
      else if te_resumed E \<and> \<not> whole \<and> od_kind d = DeltaText \<and> od_content d \<noteq> []
      then pump_deltas E whole ds p
      else
        (let p1 = (if delta_ends d then p\<lparr>pm_terminal := True\<rparr> else p);
             (final_ok, p2) = (if te_resumed E \<and> \<not> whole \<and> od_done d
                               then emit_final E p1 else (True, p1))
         in if \<not> final_ok then p2
            else
              (let (ok, p3) = emit E d p2
               in if \<not> ok then p3
                  else if pm_terminal p3 then p3\<lparr>pm_delivered := True\<rparr>
                  else pump_deltas E whole ds p3)))"

definition pump_event :: "turn_env \<Rightarrow> event \<Rightarrow> pump \<Rightarrow> pump" where
  "pump_event E ev p =
     (let p1 = (if event_task_id ev \<noteq> [] then p\<lparr>pm_task := event_task_id ev\<rparr> else p);
          p2 = (if \<not> pm_recorded p1 \<and> pm_task p1 \<noteq> []
                then act (Remember (pm_task p1)) (p1\<lparr>pm_recorded := True\<rparr>) else p1);
          (ds, m) = deltas (te_lib E) (pm_mapper p2) ev
      in pump_deltas E (is_whole ev) ds (p2\<lparr>pm_mapper := m\<rparr>))"

fun pump_events :: "turn_env \<Rightarrow> event list \<Rightarrow> go_error option \<Rightarrow> pump \<Rightarrow> pump" where
  "pump_events E [] None p = p"
| "pump_events E [] (Some err) p =
     (let (ok, p1) = emit E (zero_delta\<lparr>od_err := Some err\<rparr>) p in p1\<lparr>pm_delivered := ok\<rparr>)"
| "pump_events E (ev # evs) err p =
     (let p1 = pump_event E ev p
      in if pm_terminal p1 then p1
         else
           (let (over, p2) = ctx_done E p1
            in if over then p2 else pump_events E evs err p2))"

definition pump_finish :: "turn_env \<Rightarrow> bool \<Rightarrow> pump \<Rightarrow> pump" where
  "pump_finish E shutdown p =
     (let (over, p1) = ctx_done E p
      in if over then
           (if pm_task p1 \<noteq> [] \<and> \<not> pm_terminal p1 then
              (if shutdown then p1 else act (CancelTask (pm_task p1)) (act Forget p1))
            else if pm_recorded p1 then act Forget p1 else p1)
         else
           (let p2 = (if pm_recorded p1 then act Forget p1 else p1)
            in if \<not> pm_delivered p2
               then snd (emit E (zero_delta\<lparr>od_err :=
                      Some (plain_error ''a2a: stream ended without terminal status'')\<rparr>) p2)
               else p2))"

definition start_pump :: "string \<Rightarrow> pump" where
  "start_pump known =
     \<lparr>pm_mapper = new_mapper, pm_task = known, pm_recorded = (known \<noteq> []), pm_terminal = False,
      pm_delivered = False, pm_clock = 0, pm_trace = []\<rparr>"

text \<open>
  \<open>known\<close> is the task a resubscription names, empty on a fresh turn; \<open>shutdown\<close> whether
  the context's cause is the gateway's shutdown.
\<close>

definition stream_task ::
  "lib \<Rightarrow> listener \<Rightarrow> go_error + task \<Rightarrow> bool \<Rightarrow> string \<Rightarrow> event list \<Rightarrow> go_error option \<Rightarrow>
   go_error + action list" where
  "stream_task L o' read shutdown known evs err =
     (case (evs, err) of
        ([], Some e) \<Rightarrow> Inl e
      | ([], None) \<Rightarrow> Inl (plain_error ''a2a: stream ended without events'')
      | _ \<Rightarrow>
          (let E = \<lparr>te_lib = L, te_listener = o', te_resumed = (known \<noteq> []), te_read = read\<rparr>
           in Inr (pm_trace (pump_finish E shutdown (pump_events E evs err (start_pump known))))))"


subsection \<open>What the channel receives\<close>

fun emitted :: "action list \<Rightarrow> outbound_delta list" where
  "emitted [] = []"
| "emitted (Emit d # as) = d # emitted as"
| "emitted (_ # as) = emitted as"

lemma emitted_append [simp]: "emitted (xs @ ys) = emitted xs @ emitted ys"
  by (induction xs rule: emitted.induct) simp_all

lemma emitted_mem: "d \<in> set (emitted xs) \<longleftrightarrow> Emit d \<in> set xs"
  by (induction xs rule: emitted.induct) auto

definition plain :: "outbound_delta list \<Rightarrow> bool" where
  "plain ds \<longleftrightarrow> (\<forall>d\<in>set ds. \<not> delta_ends d)"

lemma plain_simps [simp]:
  "plain []" "plain (d # ds) \<longleftrightarrow> \<not> delta_ends d \<and> plain ds" "plain (xs @ ys) \<longleftrightarrow> plain xs \<and> plain ys"
  by (auto simp: plain_def)

text \<open>A delivered ending is the last delta, and it is the only one.\<close>

definition turn_shape :: "outbound_delta list \<Rightarrow> bool \<Rightarrow> bool" where
  "turn_shape ds delivered \<longleftrightarrow>
     (if delivered then \<exists>xs d. ds = xs @ [d] \<and> delta_ends d \<and> plain xs else plain ds)"

definition store_act :: "action \<Rightarrow> bool" where
  "store_act a \<longleftrightarrow> (case a of Emit _ \<Rightarrow> False | ReadTask _ \<Rightarrow> False | _ \<Rightarrow> True)"

abbreviation writes :: "action list \<Rightarrow> action list" where
  "writes xs \<equiv> filter store_act xs"

lemma emit_sel:
  "emit E d p = (ok, p') \<Longrightarrow>
   ok = ls_sent (te_listener E) (pm_clock p) \<and>
   emitted (pm_trace p') = emitted (pm_trace p) @ (if ok then [d] else []) \<and>
   writes (pm_trace p') = writes (pm_trace p) \<and> pm_clock p' = Suc (pm_clock p) \<and>
   pm_task p' = pm_task p \<and> pm_recorded p' = pm_recorded p \<and> pm_terminal p' = pm_terminal p \<and>
   pm_delivered p' = pm_delivered p \<and> pm_mapper p' = pm_mapper p"
  by (auto simp: emit_def Let_def store_act_def)

text \<open>Two pumps that differ only in what was rendered in between.\<close>

definition rendered :: "turn_env \<Rightarrow> bool \<Rightarrow> pump \<Rightarrow> pump \<Rightarrow> bool" where
  "rendered E ok p p' \<longleftrightarrow>
     (\<exists>xs. emitted (pm_trace p') = emitted (pm_trace p) @ xs \<and> plain xs) \<and>
     writes (pm_trace p') = writes (pm_trace p) \<and> pm_clock p \<le> pm_clock p' \<and>
     pm_task p' = pm_task p \<and> pm_recorded p' = pm_recorded p \<and> pm_terminal p' = pm_terminal p \<and>
     pm_delivered p' = pm_delivered p \<and>
     (\<not> ok \<longrightarrow> (\<exists>n<pm_clock p'. \<not> ls_sent (te_listener E) n))"

lemma rendered_refl [simp]: "rendered E True p p"
  by (auto simp: rendered_def intro: exI [of _ "[]"])

lemma rendered_trans: "rendered E True p p' \<Longrightarrow> rendered E ok p' p'' \<Longrightarrow> rendered E ok p p''"
  by (fastforce simp: rendered_def)

lemma emit_rendered: "emit E d p = (ok, p') \<Longrightarrow> \<not> delta_ends d \<Longrightarrow> rendered E ok p p'"
  by (auto simp: rendered_def dest!: emit_sel)

lemma emit_all_rendered:
  "emit_all E ds p = (ok, p') \<Longrightarrow> plain ds \<Longrightarrow> rendered E ok p p'"
proof (induction E ds p arbitrary: ok p' rule: emit_all.induct)
  case (2 E d ds p)
  obtain ok1 p1 where e: "emit E d p = (ok1, p1)" by fastforce
  with 2 show ?case
    using emit_rendered [OF e] rendered_trans by (auto split: if_splits)
qed simp

lemma usage_plain: "plain (fst (task_usage_deltas m tk))"
  using no_ending_usage [of _ "mp_counted m" "tk_artifacts tk"]
  by (auto simp: plain_def task_usage_deltas_def split: prod.splits)

lemma emit_final_rendered: "emit_final E p = (ok, p') \<Longrightarrow> rendered E ok p p'"
proof -
  assume r: "emit_final E p = (ok, p')"
  let ?p0 = "act (ReadTask (pm_task p)) p"
  have p0: "rendered E True p ?p0" by (auto simp: rendered_def act_def store_act_def)
  show ?thesis
  proof (cases "te_read E")
    case (Inl err)
    with r p0 show ?thesis by (simp add: emit_final_def)
  next
    case (Inr tk)
    let ?d = "zero_delta\<lparr>od_content := task_result_text tk\<rparr>"
    obtain ok1 p1 where e: "(if task_result_text tk = [] then (True, ?p0) else emit E ?d ?p0)
        = (ok1, p1)" by fastforce
    have "\<not> delta_ends ?d" by (simp add: delta_ends_def zero_delta_def)
    with e have r1: "rendered E ok1 ?p0 p1" by (auto dest: emit_rendered split: if_splits)
    obtain us m where us: "task_usage_deltas (pm_mapper p1) tk = (us, m)" by fastforce
    have m: "rendered E True p1 (p1\<lparr>pm_mapper := m\<rparr>)" by (auto simp: rendered_def)
    show ?thesis
    proof (cases ok1)
      case False
      with r Inr e r1 p0 show ?thesis
        by (auto simp: emit_final_def Let_def split: prod.splits intro: rendered_trans)
    next
      case True
      with r Inr e us have "emit_all E us (p1\<lparr>pm_mapper := m\<rparr>) = (ok, p')"
        by (auto simp: emit_final_def Let_def split: prod.splits)
      moreover have "plain us" using usage_plain [of "pm_mapper p1" tk] us by simp
      ultimately have tail: "rendered E ok (p1\<lparr>pm_mapper := m\<rparr>) p'" by (rule emit_all_rendered)
      from r1 True have "rendered E True ?p0 p1" by simp
      from rendered_trans [OF p0 rendered_trans [OF this rendered_trans [OF m tail]]]
      show ?thesis .
    qed
  qed
qed


text \<open>
  What a step of the loop leaves: either the turn goes on and everything delivered was plain, or
  it reached an ending, which was delivered last, or a delivery failed.
\<close>

definition stepped :: "turn_env \<Rightarrow> pump \<Rightarrow> pump \<Rightarrow> bool" where
  "stepped E p p' \<longleftrightarrow>
     writes (pm_trace p') = writes (pm_trace p) \<and> pm_clock p \<le> pm_clock p' \<and>
     pm_task p' = pm_task p \<and> pm_recorded p' = pm_recorded p \<and>
     turn_shape (emitted (pm_trace p')) (pm_delivered p') \<and>
     (pm_delivered p' \<longrightarrow> pm_terminal p') \<and>
     (pm_terminal p' \<longrightarrow> pm_delivered p' \<or> (\<exists>n<pm_clock p'. \<not> ls_sent (te_listener E) n))"

lemma rendered_stepped:
  assumes "rendered E ok p p'" and "plain (emitted (pm_trace p))" and "\<not> pm_delivered p"
    and "pm_terminal p \<longrightarrow> \<not> ok"
  shows "stepped E p p'"
  using assms by (auto simp: rendered_def stepped_def turn_shape_def)

lemma pump_deltas_step:
  assumes "\<not> delta_is_zero d"
    and "\<not> (te_resumed E \<and> \<not> whole \<and> od_kind d = DeltaText \<and> od_content d \<noteq> [])"
    and "p1 = (if delta_ends d then p\<lparr>pm_terminal := True\<rparr> else p)"
    and "(if te_resumed E \<and> \<not> whole \<and> od_done d then emit_final E p1 else (True, p1)) = (fin, p2)"
    and "emit E d p2 = (ok, p3)"
  shows "pump_deltas E whole (d # ds) p =
    (if \<not> fin then p2 else if \<not> ok then p3
     else if pm_terminal p3 then p3\<lparr>pm_delivered := True\<rparr> else pump_deltas E whole ds p3)"
  unfolding pump_deltas.simps Let_def assms(3) [symmetric] if_not_P [OF assms(1)]
    if_not_P [OF assms(2)] assms(4) assms(5) prod.case by (rule refl)

lemma pump_deltas_stepped:
  assumes "plain (emitted (pm_trace p))" and "\<not> pm_delivered p" and "\<not> pm_terminal p"
  shows "stepped E p (pump_deltas E whole ds p)"
  using assms
proof (induction E whole ds p rule: pump_deltas.induct)
  case (1 E whole p)
  then show ?case by (auto simp: stepped_def turn_shape_def)
next
  case (2 E whole d ds p)
  let ?skip = "te_resumed E \<and> \<not> whole \<and> od_kind d = DeltaText \<and> od_content d \<noteq> []"
  show ?case
  proof (cases "delta_is_zero d \<or> ?skip")
    case True
    with 2 show ?thesis by (cases "delta_is_zero d") simp_all
  next
    case False
    define p1 where "p1 = (if delta_ends d then p\<lparr>pm_terminal := True\<rparr> else p)"
    obtain fin p2 where f: "(if te_resumed E \<and> \<not> whole \<and> od_done d then emit_final E p1 else (True, p1))
        = (fin, p2)" by fastforce
    then have r: "rendered E fin p1 p2" by (auto dest: emit_final_rendered split: if_splits)
    have p1: "plain (emitted (pm_trace p1))" "\<not> pm_delivered p1"
      "pm_terminal p1 \<longleftrightarrow> delta_ends d" "pm_trace p1 = pm_trace p" "pm_clock p1 = pm_clock p"
      "pm_task p1 = pm_task p" "pm_recorded p1 = pm_recorded p"
      using 2(4-6) by (simp_all add: p1_def)
    have as_p: "stepped E p1 q \<Longrightarrow> stepped E p q" for q using p1 by (simp add: stepped_def)
    obtain ok p3 where e: "emit E d p2 = (ok, p3)" by fastforce
    show ?thesis
    proof (cases fin)
      case False
      with pump_deltas_step [OF _ _ p1_def f e] \<open>\<not> (delta_is_zero d \<or> ?skip)\<close>
      have "pump_deltas E whole (d # ds) p = p2" by simp
      with as_p [OF rendered_stepped [OF r p1(1,2)]] False show ?thesis by simp
    next
      case True
      with pump_deltas_step [OF _ _ p1_def f e] \<open>\<not> (delta_is_zero d \<or> ?skip)\<close>
      have res: "pump_deltas E whole (d # ds) p =
          (if \<not> ok then p3 else if pm_terminal p3 then p3\<lparr>pm_delivered := True\<rparr>
           else pump_deltas E whole ds p3)" by simp
      from r True p1 have p2: "plain (emitted (pm_trace p2))" "\<not> pm_delivered p2"
        "pm_terminal p2 \<longleftrightarrow> delta_ends d" "writes (pm_trace p2) = writes (pm_trace p)"
        "pm_clock p \<le> pm_clock p2" "pm_task p2 = pm_task p" "pm_recorded p2 = pm_recorded p"
        by (auto simp: rendered_def)
      note s = emit_sel [OF e]
      show ?thesis
      proof (cases "ok \<and> \<not> delta_ends d")
        case True
        with p2 s have "stepped E p3 (pump_deltas E whole ds p3)"
          by (intro 2(3) [OF _ _ p1_def refl f [symmetric] _ refl e [symmetric]])
            (use \<open>\<not> (delta_is_zero d \<or> ?skip)\<close> \<open>fin\<close> in auto)
        with res True p2 s show ?thesis by (auto simp: stepped_def)
      next
        case False
        with res p2 s show ?thesis by (auto simp: stepped_def turn_shape_def)
      qed
    qed
  qed
qed


text \<open>The record is written once, before it is cleared.\<close>

definition written :: "string \<Rightarrow> pump \<Rightarrow> bool" where
  "written known p \<longleftrightarrow>
     (if known \<noteq> [] then writes (pm_trace p) = [] \<and> pm_recorded p \<and> pm_task p \<noteq> []
      else if pm_recorded p
      then (\<exists>t. t \<noteq> [] \<and> writes (pm_trace p) = [Remember t]) \<and> pm_task p \<noteq> []
      else writes (pm_trace p) = [] \<and> pm_task p = [])"

definition pumping :: "turn_env \<Rightarrow> string \<Rightarrow> pump \<Rightarrow> bool" where
  "pumping E known p \<longleftrightarrow>
     written known p \<and> turn_shape (emitted (pm_trace p)) (pm_delivered p) \<and>
     (pm_terminal p \<longrightarrow> pm_delivered p \<or> (\<exists>n<pm_clock p. \<not> ls_sent (te_listener E) n))"

lemma start_pump_ok: "pumping E known (start_pump known)"
  by (auto simp: pumping_def written_def start_pump_def turn_shape_def)

lemma pump_event_ok:
  assumes "pumping E known p" and "\<not> pm_delivered p" and "\<not> pm_terminal p"
  shows "pumping E known (pump_event E ev p) \<and>
    (pm_delivered (pump_event E ev p) \<longrightarrow> pm_terminal (pump_event E ev p)) \<and>
    pm_clock p \<le> pm_clock (pump_event E ev p)"
proof -
  define p1 where "p1 = (if event_task_id ev \<noteq> [] then p\<lparr>pm_task := event_task_id ev\<rparr> else p)"
  define p2 where "p2 = (if \<not> pm_recorded p1 \<and> pm_task p1 \<noteq> []
    then act (Remember (pm_task p1)) (p1\<lparr>pm_recorded := True\<rparr>) else p1)"
  obtain ds m where d: "deltas (te_lib E) (pm_mapper p2) ev = (ds, m)" by fastforce
  let ?q = "p2\<lparr>pm_mapper := m\<rparr>"
  have res: "pump_event E ev p = pump_deltas E (is_whole ev) ds ?q"
    unfolding pump_event_def Let_def p1_def [symmetric] p2_def [symmetric] d prod.case by (rule refl)
  have w: "written known p2"
    using assms(1) by (auto simp: pumping_def written_def p1_def p2_def act_def store_act_def split: if_split_asm)
  have sh: "plain (emitted (pm_trace p2))" "\<not> pm_delivered p2" "\<not> pm_terminal p2"
    "pm_clock p2 = pm_clock p"
    using assms by (auto simp: pumping_def p1_def p2_def act_def turn_shape_def)
  have "stepped E ?q (pump_deltas E (is_whole ev) ds ?q)"
    by (rule pump_deltas_stepped) (use sh in simp_all)
  with w sh(4) res show ?thesis by (auto simp: stepped_def pumping_def written_def)
qed

lemma pump_events_ok:
  assumes "pumping E known p" and "\<not> pm_delivered p" and "\<not> pm_terminal p"
  shows "pumping E known (pump_events E evs err p)"
  using assms
proof (induction E evs err p rule: pump_events.induct)
  case (2 E err p)
  obtain ok p1 where e: "emit E (zero_delta\<lparr>od_err := Some err\<rparr>) p = (ok, p1)" by fastforce
  with emit_sel [OF e] 2 show ?case
    by (auto simp: pumping_def written_def turn_shape_def delta_ends_def zero_delta_def)
next
  case (3 E ev evs err p)
  note ev = pump_event_ok [OF 3(2-4), of ev]
  show ?case
  proof (cases "pm_terminal (pump_event E ev p)")
    case True
    with ev show ?thesis by (simp add: Let_def)
  next
    case False
    let ?p2 = "snd (ctx_done E (pump_event E ev p))"
    from ev False have p2: "pumping E known ?p2" "\<not> pm_delivered ?p2" "\<not> pm_terminal ?p2"
      by (auto simp: pumping_def ctx_done_def written_def)
    show ?thesis
    proof (cases "fst (ctx_done E (pump_event E ev p))")
      case True
      with False p2(1) show ?thesis by (auto simp: Let_def split: prod.split)
    next
      case over: False
      obtain ov q where c: "ctx_done E (pump_event E ev p) = (ov, q)" by fastforce
      with over p2 have "\<not> ov" and q: "pumping E known q" "\<not> pm_delivered q" "\<not> pm_terminal q"
        by simp_all
      from 3(1) [OF refl False refl c [symmetric] _ q] \<open>\<not> ov\<close>
      have "pumping E known (pump_events E evs err q)" by simp
      with False c \<open>\<not> ov\<close> show ?thesis by (simp add: Let_def)
    qed
  qed
qed simp


subsection \<open>The whole turn\<close>

text \<open>The pump of a turn at the end of its stream.\<close>

definition turn_env_of :: "lib \<Rightarrow> listener \<Rightarrow> go_error + task \<Rightarrow> string \<Rightarrow> turn_env" where
  "turn_env_of L o' read known =
     \<lparr>te_lib = L, te_listener = o', te_resumed = (known \<noteq> []), te_read = read\<rparr>"

definition end_pump ::
  "lib \<Rightarrow> listener \<Rightarrow> go_error + task \<Rightarrow> string \<Rightarrow> event list \<Rightarrow> go_error option \<Rightarrow> pump" where
  "end_pump L o' read known evs err =
     pump_events (turn_env_of L o' read known) evs err (start_pump known)"

text \<open>The listener went away before the task reached an ending.\<close>

definition cut_short ::
  "lib \<Rightarrow> listener \<Rightarrow> go_error + task \<Rightarrow> string \<Rightarrow> event list \<Rightarrow> go_error option \<Rightarrow> bool" where
  "cut_short L o' read known evs err \<longleftrightarrow>
     (let p = end_pump L o' read known evs err
      in ls_done o' (pm_clock p) \<and> \<not> pm_terminal p \<and> pm_task p \<noteq> [])"

lemma stream_task_trace:
  assumes "stream_task L o' read shutdown known evs err = Inr tr"
  shows "tr = pm_trace (pump_finish (turn_env_of L o' read known) shutdown
    (end_pump L o' read known evs err))"
  using assms by (auto simp: stream_task_def end_pump_def turn_env_of_def Let_def
      split: list.splits option.splits)

lemma end_pump_ok: "pumping (turn_env_of L o' read known) known (end_pump L o' read known evs err)"
  unfolding end_pump_def by (rule pump_events_ok [OF start_pump_ok]) (simp_all add: start_pump_def)

lemma pump_finish_writes:
  assumes "pumping E known p"
  shows "writes (pm_trace (pump_finish E shutdown p)) = writes (pm_trace p) @
    (if ls_done (te_listener E) (pm_clock p) \<and> pm_task p \<noteq> [] \<and> \<not> pm_terminal p then
       (if shutdown then [] else [Forget, CancelTask (pm_task p)])
     else if pm_recorded p then [Forget] else [])"
  using assms emit_sel
  by (auto simp: pump_finish_def ctx_done_def act_def store_act_def Let_def emit_def)

lemma pump_finish_shape:
  assumes "pumping E known p"
  shows "\<exists>ended. turn_shape (emitted (pm_trace (pump_finish E shutdown p))) ended \<and>
    (\<not> ls_done (te_listener E) (pm_clock p) \<longrightarrow>
     ended \<or> \<not> ls_sent (te_listener E) (Suc (pm_clock p)))"
proof (cases "ls_done (te_listener E) (pm_clock p) \<or> pm_delivered p")
  case True
  with assms show ?thesis
    by (intro exI [of _ "pm_delivered p"])
      (auto simp: pump_finish_def ctx_done_def act_def Let_def pumping_def)
next
  case False
  with assms show ?thesis
    by (intro exI [of _ "ls_sent (te_listener E) (Suc (pm_clock p))"])
      (auto simp: pump_finish_def ctx_done_def act_def Let_def pumping_def emit_def turn_shape_def
        delta_ends_def zero_delta_def)
qed

lemma stream_task_shape:
  assumes "stream_task L o' read shutdown known evs err = Inr tr"
  shows "\<exists>ended. turn_shape (emitted tr) ended"
  using pump_finish_shape [OF end_pump_ok [of L o' read known evs err], of shutdown]
    stream_task_trace [OF assms] by auto

lemma stream_task_answers:
  assumes "stream_task L always_listening read shutdown known evs err = Inr tr"
  shows "\<exists>xs d. emitted tr = xs @ [d] \<and> delta_ends d \<and> (\<forall>x\<in>set xs. \<not> delta_ends x)"
  using pump_finish_shape [OF end_pump_ok [of L always_listening read known evs err], of shutdown]
    stream_task_trace [OF assms]
  by (auto simp: always_listening_def turn_env_of_def turn_shape_def plain_def)

text \<open>
  The record of the task in flight: a fresh turn writes it at most once, first; a resubscription
  does not. At the end it is cleared, except by a shutdown that cut the turn short. Only a turn
  another cause cut short cancels its task.
\<close>

lemma stream_task_record:
  assumes "stream_task L o' read shutdown known evs err = Inr tr"
  obtains pre where "pre = [] \<or> known = [] \<and> (\<exists>t. t \<noteq> [] \<and> pre = [Remember t])"
    and "writes tr = pre @
      (if cut_short L o' read known evs err
       then (if shutdown then [] else [Forget, CancelTask (pm_task (end_pump L o' read known evs err))])
       else if known \<noteq> [] \<or> pre \<noteq> [] then [Forget] else [])"
    and "cut_short L o' read known evs err \<longrightarrow> known \<noteq> [] \<or> pre \<noteq> []"
proof -
  let ?p = "end_pump L o' read known evs err"
  note ok = end_pump_ok [of L o' read known evs err]
  have w: "writes tr = writes (pm_trace ?p) @
      (if cut_short L o' read known evs err
       then (if shutdown then [] else [Forget, CancelTask (pm_task ?p)])
       else if pm_recorded ?p then [Forget] else [])"
    unfolding stream_task_trace [OF assms] pump_finish_writes [OF ok]
    by (auto simp: cut_short_def turn_env_of_def Let_def)
  show ?thesis
  proof (rule that [of "writes (pm_trace ?p)"])
    show "writes (pm_trace ?p) = [] \<or> known = [] \<and> (\<exists>t. t \<noteq> [] \<and> writes (pm_trace ?p) = [Remember t])"
      using ok by (auto simp: pumping_def written_def split: if_splits)
    have "pm_recorded ?p \<longleftrightarrow> known \<noteq> [] \<or> writes (pm_trace ?p) \<noteq> []"
      using ok by (auto simp: pumping_def written_def split: if_splits)
    with w show "writes tr = writes (pm_trace ?p) @
      (if cut_short L o' read known evs err
       then (if shutdown then [] else [Forget, CancelTask (pm_task ?p)])
       else if known \<noteq> [] \<or> writes (pm_trace ?p) \<noteq> [] then [Forget] else [])" by simp
    show "cut_short L o' read known evs err \<longrightarrow> known \<noteq> [] \<or> writes (pm_trace ?p) \<noteq> []"
      using ok by (auto simp: pumping_def written_def cut_short_def Let_def split: if_splits)
  qed
qed

text \<open>A task that ended or paused is not cancelled, whatever the listener does.\<close>

lemma stream_task_cancel:
  assumes "stream_task L o' read shutdown known evs err = Inr tr"
    and "CancelTask t \<in> set tr"
  shows "\<not> shutdown" and "cut_short L o' read known evs err"
proof -
  from assms(2) have "CancelTask t \<in> set (writes tr)" by (simp add: store_act_def)
  moreover from assms(1) obtain pre where
    "pre = [] \<or> known = [] \<and> (\<exists>t. t \<noteq> [] \<and> pre = [Remember t])"
    "writes tr = pre @ (if cut_short L o' read known evs err
       then (if shutdown then [] else [Forget, CancelTask (pm_task (end_pump L o' read known evs err))])
       else if known \<noteq> [] \<or> pre \<noteq> [] then [Forget] else [])"
    by (rule stream_task_record)
  ultimately show "\<not> shutdown" "cut_short L o' read known evs err"
    by (auto split: if_splits)
qed

lemma pump_events_quiet:
  assumes "pumping E known p" and "\<not> pm_delivered p" and "\<not> pm_terminal p"
    and "\<not> pm_terminal (pump_events E evs err p)"
    and "d \<in> set (emitted (pm_trace (pump_events E evs err p)))"
  shows "\<not> od_done d \<and> od_kind d \<noteq> DeltaPrompt"
  using assms
proof (induction E evs err p rule: pump_events.induct)
  case (1 E p)
  then show ?case by (auto simp: pumping_def turn_shape_def plain_def delta_ends_def)
next
  case (2 E err p)
  obtain ok p1 where e: "emit E (zero_delta\<lparr>od_err := Some err\<rparr>) p = (ok, p1)" by fastforce
  with emit_sel [OF e] 2 show ?case
    by (auto simp: pumping_def turn_shape_def plain_def delta_ends_def zero_delta_def split: if_splits)
next
  case (3 E ev evs err p)
  note ev = pump_event_ok [OF 3(2-4), of ev]
  obtain ov q where c: "ctx_done E (pump_event E ev p) = (ov, q)" by fastforce
  from 3(5) have t: "\<not> pm_terminal (pump_event E ev p)" by (auto simp: Let_def)
  with ev c have q: "pumping E known q" "\<not> pm_delivered q" "\<not> pm_terminal q"
    by (auto simp: pumping_def ctx_done_def written_def split: if_split_asm)
  show ?case
  proof (cases ov)
    case True
    with t c q 3(6) show ?thesis
      by (auto simp: Let_def pumping_def turn_shape_def plain_def delta_ends_def)
  next
    case False
    with t c have step: "pump_events E (ev # evs) err p = pump_events E evs err q"
      by (simp add: Let_def)
    show ?thesis
      by (rule 3(1) [OF refl t refl c [symmetric] False q]) (use 3(5,6) step in simp_all)
  qed
qed

lemma stream_task_cancel_quiet:
  assumes "stream_task L o' read shutdown known evs err = Inr tr"
    and "CancelTask t \<in> set tr" and "Emit d \<in> set tr"
  shows "\<not> od_done d \<and> od_kind d \<noteq> DeltaPrompt"
proof -
  let ?p = "end_pump L o' read known evs err" and ?E = "turn_env_of L o' read known"
  from stream_task_cancel [OF assms(1,2)] have cut: "cut_short L o' read known evs err"
    and "\<not> shutdown" by simp_all
  then have "emitted tr = emitted (pm_trace ?p)"
    unfolding stream_task_trace [OF assms(1)]
    by (simp add: pump_finish_def ctx_done_def act_def cut_short_def turn_env_of_def Let_def)
  moreover from cut have "\<not> pm_terminal ?p" by (simp add: cut_short_def Let_def)
  ultimately show ?thesis
    using assms(3) pump_events_quiet [OF start_pump_ok [of ?E known], of evs err d]
    by (simp add: emitted_mem [symmetric] end_pump_def start_pump_def)
qed

subsection \<open>Properties\<close>

text \<open>C1: A channel that keeps listening is answered exactly once: whatever the agent streams,
  wherever its stream breaks, what reaches the channel ends with one ending (an answer, a failure
  or a question), and nothing before it is one.\<close>

theorem turn_answered_once:
  assumes "stream_task L always_listening read shutdown known evs err = Inr tr"
  shows "\<exists>xs d. emitted tr = xs @ [d] \<and> delta_ends d \<and> (\<forall>x\<in>set xs. \<not> delta_ends x)"
  using assms by (rule stream_task_answers)

text \<open>A turn that reports it is working and completes.\<close>

definition short_turn :: "event list" where
  "short_turn =
     [StatusUpdate ''t'' \<lparr>st_state = TWorking, st_message = None\<rparr> [],
      StatusUpdate ''t'' \<lparr>st_state = TCompleted, st_message = None\<rparr> []]"

text \<open>A listener that goes away after \<open>n\<close> questions.\<close>

definition leaves_after :: "nat \<Rightarrow> listener" where
  "leaves_after n = \<lparr>ls_sent = (\<lambda>k. k < n), ls_done = (\<lambda>k. n \<le> k)\<rparr>"

lemmas run_turn = stream_task_def short_turn_def pump_event_def pump_finish_def ctx_done_def
  start_pump_def deltas_def map_task_status_def message_parts_def narration_deltas_def
  tool_activity_deltas_def delta_is_zero_def zero_delta_def event_task_id_def is_whole_def
  emit_def act_def always_listening_def leaves_after_def delta_ends_def basic_lib_def

theorem turn_answered_once_witness:
  "\<exists>tr. stream_task basic_lib always_listening (Inl (plain_error [])) False [] short_turn None = Inr tr \<and>
     (\<exists>xs d. emitted tr = xs @ [d] \<and> delta_ends d)"
proof -
  obtain tr where tr:
    "stream_task basic_lib always_listening (Inl (plain_error [])) False [] short_turn None = Inr tr"
    by (simp add: stream_task_def short_turn_def Let_def)
  from turn_answered_once [OF tr] tr show ?thesis by blast
qed

text \<open>Whatever the channel does, at most one ending reaches it, and nothing after it.\<close>

theorem turn_ends_at_most_once:
  assumes "stream_task L l read shutdown known evs err = Inr tr"
  shows "\<exists>ended. turn_shape (emitted tr) ended"
  using assms by (rule stream_task_shape)

theorem turn_ends_at_most_once_witness:
  "\<exists>tr ended. stream_task basic_lib (leaves_after 1) (Inl (plain_error [])) False [] short_turn None = Inr tr \<and>
     turn_shape (emitted tr) ended"
proof -
  obtain tr where tr:
    "stream_task basic_lib (leaves_after 1) (Inl (plain_error [])) False [] short_turn None = Inr tr"
    by (simp add: stream_task_def short_turn_def Let_def)
  from turn_ends_at_most_once [OF tr] tr show ?thesis by blast
qed

text \<open>C8: The agent is told to cancel a task only when the channel went away before the turn
  was over, never on the gateway's own shutdown, and then the channel had been shown neither an
  answer nor a question.\<close>

theorem cancel_only_unanswered:
  assumes "stream_task L l read shutdown known evs err = Inr tr" and "CancelTask t \<in> set tr"
  shows "\<not> shutdown \<and> cut_short L l read known evs err \<and>
    (\<forall>d. Emit d \<in> set tr \<longrightarrow> \<not> od_done d \<and> od_kind d \<noteq> DeltaPrompt)"
  using stream_task_cancel [OF assms] stream_task_cancel_quiet [OF assms] by blast

theorem cancel_only_unanswered_witness:
  "\<exists>tr. stream_task basic_lib (leaves_after 0) (Inl (plain_error [])) False [] short_turn None = Inr tr \<and>
     CancelTask ''t'' \<in> set tr \<and> cut_short basic_lib (leaves_after 0) (Inl (plain_error [])) [] short_turn None"
proof -
  obtain tr where tr:
    "stream_task basic_lib (leaves_after 0) (Inl (plain_error [])) False [] short_turn None = Inr tr"
    and c: "CancelTask ''t'' \<in> set tr"
    by (simp add: run_turn Let_def)
  from cancel_only_unanswered [OF tr c] tr c show ?thesis by blast
qed

end
