(* ===== verification/Parts.thy ===== *)
theory Parts
  imports A2A
begin

section \<open>The parts of an outbound message\<close>

text \<open>
  \<open>buildInboundParts\<close>, \<open>attachmentParts\<close>, \<open>textAttachment\<close> and the media type
  test of \<open>pkg/channels/hitl_parse.go\<close>.
\<close>

abbreviation backtick :: char where "backtick \<equiv> CHR ''`''"

definition with_author :: "string \<Rightarrow> string \<Rightarrow> string" where
  "with_author author body =
     (if author = [] then body else ''[message from '' @ author @ '']'' @ [newline] @ body)"

fun backtick_run :: "string \<Rightarrow> nat \<Rightarrow> nat \<Rightarrow> nat" where
  "backtick_run [] run longest = longest"
| "backtick_run (c # cs) run longest =
     (if c \<noteq> backtick then backtick_run cs 0 longest
      else backtick_run cs (run + 1) (if run + 1 > longest then run + 1 else longest))"

definition longest_backtick_run :: "string \<Rightarrow> nat" where
  "longest_backtick_run b = backtick_run b 0 0"

definition attachment_fence :: "attachment \<Rightarrow> string" where
  "attachment_fence att = replicate (max 3 (longest_backtick_run (at_bytes att) + 1)) backtick"

definition text_attachment :: "attachment \<Rightarrow> string" where
  "text_attachment att =
     (let name = (if at_filename att = [] then ''attachment'' else at_filename att);
          fence = attachment_fence att
      in ''Attached file `'' @ name @ ''`:'' @ [newline] @ fence @ [newline] @ at_bytes att @
         [newline] @ fence)"

text \<open>
  \<open>strings.TrimSpace\<close> on the text's runes; bytes that are not UTF-8 come back as the
  replacement rune, which no test below distinguishes from them.
\<close>

definition trim_space :: "string \<Rightarrow> string" where
  "trim_space s = of_runes (rev (dropWhile is_space (rev (dropWhile is_space (runes_of s)))))"

definition is_textual_media_type :: "string \<Rightarrow> bool" where
  "is_textual_media_type media_type =
     (let lowered = to_lower (trim_space media_type);
          mt = (if CHR '';'' \<in> set lowered
                then trim_space (takeWhile (\<lambda>c. c \<noteq> CHR '';'') lowered) else lowered)
      in has_prefix mt ''text/'' \<or>
         mt \<in> set [''application/json'', ''application/xml'', ''application/yaml'',
           ''application/x-yaml'', ''application/x-yml'', ''application/toml'', ''application/x-sh'',
           ''application/javascript'', ''application/x-ndjson'', ''application/csv''] \<or>
         has_suffix mt ''+json'' \<or> has_suffix mt ''+xml'' \<or> has_suffix mt ''+yaml'')"

definition attachment_part :: "attachment \<Rightarrow> part" where
  "attachment_part att =
     (if is_textual_media_type (at_content_type att) then text_part (text_attachment att)
      else \<lparr>pt_content = PRaw (at_bytes att), pt_filename = at_filename att,
            pt_media = at_content_type att, pt_meta = []\<rparr>)"

definition attachment_parts :: "attachment list \<Rightarrow> part list" where
  "attachment_parts atts = map attachment_part (filter (\<lambda>a. at_bytes a \<noteq> []) atts)"

definition build_inbound_parts :: "inbound \<Rightarrow> part list" where
  "build_inbound_parts msg =
     (case m_decision msg of
        Some d \<Rightarrow>
          [text_part (with_author (m_author msg) (if m_text msg = [] then hd_type d else m_text msg))]
      | None \<Rightarrow>
          (let body = with_author (m_author msg) (m_text msg);
               parts = (if m_context msg = [] then [] else [text_part (m_context msg)]) @
                       (if body = [] then [] else [text_part body]) @
                       attachment_parts (m_attachments msg)
           in if parts = [] then [text_part []] else parts))"

subsection \<open>The fence holds its content\<close>

lemma backtick_run_ge: "longest \<le> backtick_run s run longest"
proof (induction s arbitrary: run longest)
  case (Cons c s)
  have "longest \<le> (if run + 1 > longest then run + 1 else longest)" by simp
  also have "\<dots> \<le> backtick_run s (run + 1) (if run + 1 > longest then run + 1 else longest)"
    by (rule Cons.IH)
  finally show ?case using Cons.IH by simp
qed simp

lemma backtick_run_replicate:
  "run \<le> longest \<Longrightarrow> run + n \<le> backtick_run (replicate n backtick @ s) run longest"
proof (induction n arbitrary: run longest)
  case 0
  then show ?case using backtick_run_ge [of longest s run] by simp
next
  case (Suc n)
  show ?case using Suc.IH [of "run + 1" "if run + 1 > longest then run + 1 else longest"] by simp
qed

lemma backtick_run_skip:
  "run \<le> longest \<Longrightarrow> \<exists>run' longest'. run' \<le> longest' \<and>
     (\<forall>t. backtick_run (s @ t) run longest = backtick_run t run' longest')"
proof (induction s arbitrary: run longest)
  case (Cons c s)
  then show ?case
    using Cons.IH [of 0 longest] Cons.IH [of "run + 1" "if run + 1 > longest then run + 1 else longest"]
    by (cases "c = backtick") simp_all
qed auto

lemma longest_backtick_run_bound:
  assumes "contains s (replicate n backtick)"
  shows "n \<le> longest_backtick_run s"
proof -
  from assms obtain p q where s: "s = p @ replicate n backtick @ q"
    by (auto simp: contains_def sublist_def)
  obtain r l where rl: "r \<le> l" "\<And>t. backtick_run (p @ t) 0 0 = backtick_run t r l"
    using backtick_run_skip [of 0 0 p] by auto
  then have "longest_backtick_run s = backtick_run (replicate n backtick @ q) r l"
    by (simp add: longest_backtick_run_def s)
  with backtick_run_replicate [OF rl(1), of n q] show ?thesis by simp
qed

lemma fence_not_in_content: "\<not> contains (at_bytes att) (attachment_fence att)"
proof
  assume "contains (at_bytes att) (attachment_fence att)"
  then have "max 3 (longest_backtick_run (at_bytes att) + 1) \<le> longest_backtick_run (at_bytes att)"
    unfolding attachment_fence_def by (rule longest_backtick_run_bound)
  then show False by simp
qed

text \<open>No line of the content but the fence itself opens with the fence, so none closes the block.\<close>

lemma text_attachment_lines:
  assumes "line \<in> set (split_on newline (at_bytes att))"
  shows "\<not> has_prefix line (attachment_fence att)"
proof
  assume "has_prefix line (attachment_fence att)"
  then obtain r where l: "line = attachment_fence att @ r" by (auto simp: has_prefix_def prefix_def)
  have "sublist (attachment_fence att) line" using l by simp
  from sublist_order.order.trans [OF this split_on_sublist [OF assms]]
  show False using fence_not_in_content by (simp add: contains_def)
qed

lemma parts_nonempty: "build_inbound_parts msg \<noteq> []"
  by (auto simp: build_inbound_parts_def Let_def split: option.split)

subsection \<open>Properties\<close>

text \<open>C40: No attachment can close the code fence it is quoted in: the fence chosen for a file
  does not occur anywhere in the file, and no line of it starts with the fence.\<close>

theorem attachment_cannot_escape_fence:
  "\<not> contains (at_bytes att) (attachment_fence att) \<and>
   list_all (\<lambda>line. \<not> has_prefix line (attachment_fence att)) (split_on newline (at_bytes att))"
  using fence_not_in_content text_attachment_lines by (auto simp: list_all_iff)

end
