(* ===== verification/Failure.thy ===== *)
theory Failure
  imports Channel
begin

section \<open>Failure classes\<close>

text \<open>
  \<open>pkg/channels/failure.go\<close> and \<open>turnFailureClass\<close> of
  \<open>pkg/channels/turn_timer.go\<close>: the class a turn's error is reported under and whether a
  second attempt may get past it.
\<close>

datatype failure_class =
    FailureNone | FailureTools | FailurePlatform | FailureModel | FailurePolicy
  | FailureConnectionRequired | FailureUnknown

definition failure_reasons :: "(string \<times> failure_class) list" where
  "failure_reasons = [(''connection_required'', FailureConnectionRequired)]"

definition tool_set_markers :: "string list" where
  "tool_set_markers = [''tool set'', ''mcp session'', ''mcp tools'', ''authorization required'']"

definition policy_markers :: "string list" where
  "policy_markers =
     [''authorization failed'', ''rejected due to inappropriate content'', ''rate limit exceeded'',
      ''code = permissiondenied'']"

definition model_markers :: "string list" where
  "model_markers =
     [''failed to call model'', ''anthropic api error'', ''openai chat completion request failed'',
      ''openai responses request failed'', ''sap ai core'', ''llm error response'',
      ''invalid_request_error'', ''overloaded_error'', ''rate_limit_error'', ''resource_exhausted'']"

definition credentials_markers :: "string list" where
  "credentials_markers = [''authentication_error'', ''permission_error'']"

definition connection_marker :: string where "connection_marker = ''credential provider''"
definition connection_denied_marker :: string where "connection_denied_marker = ''denied''"

definition transport_markers :: "string list" where
  "transport_markers =
     [''connection reset'', ''connection refused'', ''broken pipe'', ''no such host'',
      ''code = unavailable'', ''rst_stream'']"

definition contains_any :: "string \<Rightarrow> string list \<Rightarrow> bool" where
  "contains_any s markers = list_ex (contains s) markers"

definition classify_failure :: "go_error option \<Rightarrow> failure_class" where
  "classify_failure err =
     (case err of
        None \<Rightarrow> FailureNone
      | Some e \<Rightarrow>
          if ge_not_permitted e then FailurePolicy
          else
            (case (case ge_reason e of None \<Rightarrow> None | Some r \<Rightarrow> map_of failure_reasons r) of
               Some c \<Rightarrow> c
             | None \<Rightarrow>
                 (let text = to_lower (ge_text e)
                  in if contains text connection_marker \<and> contains text connection_denied_marker
                     then FailureConnectionRequired
                     else if contains_any text tool_set_markers then FailureTools
                     else if contains_any text policy_markers then FailurePolicy
                     else if contains_any text model_markers \<or> contains_any text credentials_markers
                     then FailureModel
                     else if contains_any text transport_markers then FailurePlatform
                     else FailureUnknown)))"

definition retryable :: "failure_class \<Rightarrow> bool" where
  "retryable c \<longleftrightarrow> c = FailureTools \<or> c = FailurePlatform"

definition model_credentials_refused :: "go_error option \<Rightarrow> bool" where
  "model_credentials_refused err \<longleftrightarrow>
     classify_failure err = FailureModel \<and>
     (case err of None \<Rightarrow> False | Some e \<Rightarrow> contains_any (to_lower (ge_text e)) credentials_markers)"

definition turn_failure_class :: "string \<Rightarrow> go_error option \<Rightarrow> failure_class" where
  "turn_failure_class outcome err =
     (if outcome \<noteq> ''failed'' \<and> outcome \<noteq> ''send_failed'' then FailureNone
      else classify_failure err)"

lemma classify_none_iff [simp]: "classify_failure err = FailureNone \<longleftrightarrow> err = None"
  by (auto simp: classify_failure_def failure_reasons_def Let_def
      split: option.splits if_splits dest!: map_of_SomeD)

text \<open>A refusal of the sender, a known reason and a quoted credential refusal are never retried.\<close>

lemma retryable_cases:
  assumes "retryable (classify_failure (Some e))"
  shows "\<not> ge_not_permitted e \<and> ge_reason e \<noteq> Some ''connection_required'' \<and>
    \<not> (contains (to_lower (ge_text e)) connection_marker \<and>
        contains (to_lower (ge_text e)) connection_denied_marker) \<and>
    (contains_any (to_lower (ge_text e)) tool_set_markers \<or>
     (\<not> contains_any (to_lower (ge_text e)) (policy_markers @ model_markers @ credentials_markers) \<and>
      contains_any (to_lower (ge_text e)) transport_markers))"
  using assms
  by (auto simp: retryable_def classify_failure_def failure_reasons_def Let_def contains_any_def
      split: option.splits if_splits)

subsection \<open>Properties\<close>

text \<open>A turn is retried only for a failure that may pass: never when the caller was not
  permitted, never when the agent names a missing connection (in its reason or in its words), and
  otherwise only when the text says the agent's tools could not be listed, or speaks of the
  transport and of neither a policy, a model nor credentials.\<close>

theorem retry_only_transient:
  assumes "retryable (classify_failure (Some e))"
  shows "\<not> ge_not_permitted e \<and> ge_reason e \<noteq> Some ''connection_required'' \<and>
    \<not> (contains (to_lower (ge_text e)) connection_marker \<and>
        contains (to_lower (ge_text e)) connection_denied_marker) \<and>
    (contains_any (to_lower (ge_text e)) tool_set_markers \<or>
     (\<not> contains_any (to_lower (ge_text e)) (policy_markers @ model_markers @ credentials_markers) \<and>
      contains_any (to_lower (ge_text e)) transport_markers))"
  using assms by (rule retryable_cases)

theorem retry_only_transient_witness:
  "contains_any (to_lower ''MCP session lost'') (tool_set_markers @ transport_markers)"
proof -
  have "retryable (classify_failure (Some (plain_error ''MCP session lost'')))" by code_simp
  from retry_only_transient [OF this] show ?thesis by (auto simp: plain_error_def contains_any_def)
qed

end
