(* ===== verification/Turn.thy ===== *)
theory Turn
  imports StreamTask Parts Failure
begin

section \<open>A turn, end to end\<close>

text \<open>
  \<open>outboundMessage\<close>, \<open>sendViaA2A\<close>, \<open>SendCompletion\<close>, \<open>retryUnshown\<close>,
  \<open>forward\<close> and \<open>ResumeTurn\<close> of \<open>pkg/channels/facade.go\<close>. The answers one
  attempt gets from the controller, what other turns do meanwhile and how the channel listens are
  the record \<open>answers\<close>. The result of an attempt is the identity and session the turn
  streams under with the trace of its goroutine; the goroutine's writes of the in-flight record
  are applied by \<open>record_writes\<close>, each at its own time.
\<close>

record 's answers =
  aw_start :: "go_error + string"
  aw_bind_meanwhile :: "'s \<Rightarrow> 's"
  aw_mint :: share_answer
  aw_nonce :: "string option"
  aw_share_meanwhile :: "'s \<Rightarrow> 's"
  aw_paused :: "go_error + task"
  aw_events :: "event list"
  aw_stream_error :: "go_error option"
  aw_read :: "go_error + task"
  aw_listener :: listener
  aw_shutdown :: bool

subsection \<open>outboundMessage\<close>

definition wrap_error :: "string \<Rightarrow> go_error \<Rightarrow> go_error" where
  "wrap_error context_text e = e\<lparr>ge_text := context_text @ ge_text e\<rparr>"

definition outbound_message :: "lib \<Rightarrow> go_error + task \<Rightarrow> inbound \<Rightarrow> facade_error + message" where
  "outbound_message L paused msg =
     (let m = \<lparr>ms_role = RoleUser, ms_task_id = [], ms_parts = map Some (build_inbound_parts msg),
               ms_meta = [], ms_extensions = []\<rparr>
      in if m_task_id msg = [] then Inr m
         else
           (let m' = m\<lparr>ms_task_id := m_task_id msg\<rparr>
            in case m_decision msg of
                 None \<Rightarrow> Inr m'
               | Some d \<Rightarrow>
                   (case paused of
                      Inl e \<Rightarrow> Inl (AgentFailed (wrap_error
                        (''a2a: load the paused task '' @ m_task_id msg @ '': '') e))
                    | Inr tk \<Rightarrow>
                        if st_state (tk_status tk) \<noteq> TInputRequired \<and>
                           st_state (tk_status tk) \<noteq> TAuthRequired
                        then Inl NoPendingPrompt
                        else
                          (case parse_hitl_request (lib_url_parse L) (st_message (tk_status tk)) of
                             Inl err \<Rightarrow> Inl (BadPrompt err)
                           | Inr None \<Rightarrow> Inl NoPendingPrompt
                           | Inr (Some r) \<Rightarrow>
                               if hd_request_id d \<noteq> [] \<and> hd_request_id d \<noteq> hitl_id r
                               then Inl NoPendingPrompt
                               else Inr (attach_hitl m' (hitl_response r d))))))"

subsection \<open>sendViaA2A\<close>

record sent =
  sn_ctx :: call_ctx
  sn_session :: string
  sn_message :: message
  sn_trace :: "action list"

definition send_via_a2a ::
  "(string \<Rightarrow> string) \<Rightarrow> lib \<Rightarrow> 's facade \<Rightarrow> aead option \<Rightarrow> gotime \<Rightarrow> 's answers \<Rightarrow> inbound \<Rightarrow>
   's \<Rightarrow> (facade_error + sent) \<times> agent_call list \<times> 's" where
  "send_via_a2a sha L f sealer now A msg s =
     (let c = with_caller_auth no_ctx msg
      in case session_for sha f now (aw_start A) (aw_bind_meanwhile A) (with_owner_auth c msg) msg s of
           (Inl err, calls, s1) \<Rightarrow> (Inl err, calls, s1)
         | (Inr sid, calls, s1) \<Rightarrow>
             (case fc_routes f of
                None \<Rightarrow> (Inl NoThreadStore, calls, s1)
              | Some ops \<Rightarrow>
                  (case with_share f sealer (aw_nonce A) now (aw_mint A) (aw_share_meanwhile A) c msg
                          sid ops s1 of
                     (Inl err, calls', s2) \<Rightarrow> (Inl err, calls @ calls', s2)
                   | (Inr c', calls', s2) \<Rightarrow>
                       (case outbound_message L (aw_paused A) msg of
                          Inl err \<Rightarrow> (Inl err, calls @ calls', s2)
                        | Inr m \<Rightarrow>
                            (case stream_task L (aw_listener A) (aw_read A) (aw_shutdown A) []
                                    (aw_events A) (aw_stream_error A) of
                               Inl e \<Rightarrow> (Inl (AgentFailed e), calls @ calls', s2)
                             | Inr tr \<Rightarrow>
                                 (Inr \<lparr>sn_ctx = c', sn_session = sid, sn_message = m, sn_trace = tr\<rparr>,
                                  calls @ calls', s2))))))"

text \<open>What the goroutine writes, the action at position \<open>n\<close> at the time \<open>clock n\<close>.\<close>

fun record_writes ::
  "'s facade \<Rightarrow> (nat \<Rightarrow> gotime) \<Rightarrow> key \<Rightarrow> (string \<times> string) list option \<Rightarrow> nat \<Rightarrow> action list \<Rightarrow>
   's \<Rightarrow> 's" where
  "record_writes f clock k resume n [] s = s"
| "record_writes f clock k resume n (Remember t # as) s =
     record_writes f clock k resume (Suc n) as (remember_task f (clock n) k t resume s)"
| "record_writes f clock k resume n (Forget # as) s =
     record_writes f clock k resume (Suc n) as (forget_task f (clock n) k s)"
| "record_writes f clock k resume n (_ # as) s = record_writes f clock k resume (Suc n) as s"

subsection \<open>ResumeTurn\<close>

text \<open>\<open>not_found\<close>: the error of the subscription says the task or the session is gone.\<close>

definition resume_turn ::
  "lib \<Rightarrow> 's facade \<Rightarrow> aead option \<Rightarrow> gotime \<Rightarrow> 's answers \<Rightarrow> (go_error \<Rightarrow> bool) \<Rightarrow> inbound \<Rightarrow>
   string \<Rightarrow> 's \<Rightarrow> (facade_error + call_ctx \<times> action list) \<times> agent_call list \<times> 's" where
  "resume_turn L f sealer now A not_found msg task_id s =
     (case (fc_agent f, fc_routes f) of
        (True, Some ops) \<Rightarrow>
          (case rt_get ops now (msg_key msg) s of
             Inl err \<Rightarrow> (Inl (StoreFailed err), [], s)
           | Inr row \<Rightarrow>
               (let e = fst (shown row)
                in if row = None \<or> e_instance e = [] then (Inl NoSession, [], s)
                   else
                     (case with_share f sealer (aw_nonce A) now (aw_mint A) (aw_share_meanwhile A)
                             (with_caller_auth no_ctx msg) msg (e_instance e) ops s of
                        (Inl err, calls, s1) \<Rightarrow> (Inl err, calls, s1)
                      | (Inr c, calls, s1) \<Rightarrow>
                          (case stream_task L (aw_listener A) (aw_read A) (aw_shutdown A) task_id
                                  (aw_events A) (aw_stream_error A) of
                             Inl err \<Rightarrow>
                               (Inl (AgentFailed err), calls,
                                if not_found err then forget_task f now (msg_key msg) s1 else s1)
                           | Inr tr \<Rightarrow> (Inr (c, tr), calls, s1)))))
      | _ \<Rightarrow> (Inl NoAgent, [], s))"

subsection \<open>SendCompletion\<close>

text \<open>The text of a facade error, as far as a failure's class depends on it.\<close>

fun facade_go_error :: "facade_error \<Rightarrow> go_error" where
  "facade_go_error (AgentFailed e) = e"
| "facade_go_error (StoreFailed x) = plain_error (''channels: session binding: '' @ x)"
| "facade_go_error (ShareRefused sid reason) =
     plain_error (''a2a: share Session '' @ sid @ '' refused: '' @ reason)"
| "facade_go_error (NoWorkspaceGrant w) =
     plain_error (''channels: no workspace grant for the Session'' @ [CHR 0x27] @ ''s workspace: '' @ w)"
| "facade_go_error (BadPrompt x) = plain_error (''a2a: read the paused task'' @ [CHR 0x27] @ ''s prompt: '' @ x)"
| "facade_go_error _ = plain_error ''channels: the turn was not sent''"

text \<open>\<open>forward\<close>: the second attempt's deltas, while the channel takes them.\<close>

fun forward :: "listener \<Rightarrow> nat \<Rightarrow> outbound_delta list \<Rightarrow> outbound_delta list" where
  "forward l n [] = []"
| "forward l n (d # ds) = (if ls_sent l n then d # forward l (Suc n) ds else [])"

fun retry_unshown ::
  "listener \<Rightarrow> facade_error + outbound_delta list \<Rightarrow> bool \<Rightarrow> nat \<Rightarrow> outbound_delta list \<Rightarrow>
   bool \<times> outbound_delta list" where
  "retry_unshown l second sofar n [] = (False, [])"
| "retry_unshown l second sofar n (d # ds) =
     (if \<not> sofar \<and> \<not> ls_done l n \<and> is_task_failure (od_err d) \<and>
         retryable (classify_failure (od_err d))
      then (case second of
              Inr ds' \<Rightarrow> (True, forward l (Suc n) ds')
            | Inl _ \<Rightarrow> (True, if ls_sent l (Suc n) then [d] else []))
      else if ls_sent l (Suc n)
      then (let (r, ds') = retry_unshown l second (sofar \<or> delta_shows d) (n + 2) ds
            in (r, d # ds'))
      else (False, []))"

text \<open>
  \<open>cancelled\<close> is \<open>ctx.Err() \<noteq> nil\<close> after the first send was refused; \<open>l\<close> is how
  the channel listens to the returned stream, whose first attempt's deltas are received from a
  reader that always listens. The second attempt runs at \<open>later\<close>, on the store the first left.
\<close>

datatype completion =
    Refused facade_error
  | Streams bool "outbound_delta list"

definition send_completion ::
  "(string \<Rightarrow> string) \<Rightarrow> lib \<Rightarrow> 's facade \<Rightarrow> aead option \<Rightarrow> gotime \<Rightarrow> gotime \<Rightarrow> 's answers \<Rightarrow>
   's answers \<Rightarrow> bool \<Rightarrow> listener \<Rightarrow> inbound \<Rightarrow> 's \<Rightarrow> completion \<times> agent_call list" where
  "send_completion sha L f sealer now later A1 A2 cancelled l msg s =
     (if \<not> fc_agent f then (Refused NoAgent, [])
      else
        (case send_via_a2a sha L f sealer now A1 msg s of
           (Inl err, calls, s1) \<Rightarrow>
             if m_task_id msg \<noteq> [] then (Refused err, calls)
             else if cancelled \<or> \<not> retryable (classify_failure (Some (facade_go_error err)))
             then (Refused err, calls)
             else
               (case send_via_a2a sha L f sealer later A2 msg s1 of
                  (Inl err', calls', s2) \<Rightarrow> (Refused err', calls @ calls')
                | (Inr t, calls', s2) \<Rightarrow> (Streams True (emitted (sn_trace t)), calls @ calls'))
         | (Inr t, calls, s1) \<Rightarrow>
             if m_task_id msg \<noteq> [] then (Streams False (emitted (sn_trace t)), calls)
             else
               (let s2 = record_writes f (\<lambda>_. now) (msg_key msg) (m_resume msg) 0 (sn_trace t) s1;
                    second = send_via_a2a sha L f sealer later A2 msg s2;
                    (r, ds) = retry_unshown l (map_sum id (emitted \<circ> sn_trace) (fst second)) False 0
                                (emitted (sn_trace t))
                in (Streams r ds, if r then calls @ fst (snd second) else calls))))"


subsection \<open>Identities\<close>

lemma send_via_a2a_calls:
  assumes "send_via_a2a sha L f sealer now A msg s = (res, calls, s')" and "x \<in> set calls"
  shows "call_identity x = with_owner_auth (with_caller_auth no_ctx msg) msg"
proof -
  let ?c = "with_caller_auth no_ctx msg"
  obtain r calls1 s1 where sf: "session_for sha f now (aw_start A) (aw_bind_meanwhile A)
      (with_owner_auth ?c msg) msg s = (r, calls1, s1)" by (metis prod_cases3)
  have c1: "y \<in> set calls1 \<Longrightarrow> call_identity y = with_owner_auth ?c msg" for y
    by (rule session_for_identity [OF sf])
  show ?thesis
  proof (cases "\<exists>sid ops. r = Inr sid \<and> fc_routes f = Some ops")
    case False
    with assms sf c1 show ?thesis
      by (cases r; cases "fc_routes f") (auto simp: send_via_a2a_def Let_def)
  next
    case True
    then obtain sid ops where r: "r = Inr sid" "fc_routes f = Some ops" by blast
    obtain r2 calls2 s2 where ws: "with_share f sealer (aw_nonce A) now (aw_mint A)
        (aw_share_meanwhile A) ?c msg sid ops s1 = (r2, calls2, s2)" by (metis prod_cases3)
    from assms(1) sf r ws have "calls = calls1 \<or> calls = calls1 @ calls2"
      by (cases r2) (auto simp: send_via_a2a_def Let_def split: sum.splits)
    moreover have "y \<in> set calls2 \<Longrightarrow> call_identity y = with_owner_auth ?c msg" for y
    proof -
      assume y: "y \<in> set calls2"
      obtain a ans where "sealer = Some a" and sh: "share_for f a (aw_nonce A) now (aw_mint A)
          (aw_share_meanwhile A) ?c msg sid ops s1 = (ans, calls2, s2)"
      proof -
        from ws y have "sealer \<noteq> None" "m_collaborator msg" "sid \<noteq> []"
          by (auto simp: with_share_def split: option.splits if_splits)
        then obtain a where a: "sealer = Some a" by blast
        obtain ans c3 s3 where sh: "share_for f a (aw_nonce A) now (aw_mint A)
          (aw_share_meanwhile A) ?c msg sid ops s1 = (ans, c3, s3)" by (metis prod_cases3)
        with ws a \<open>m_collaborator msg\<close> \<open>sid \<noteq> []\<close> have "c3 = calls2" "s3 = s2"
          by (auto simp: with_share_def split: sum.splits)
        with a sh that show ?thesis by blast
      qed
      from share_for_identity [OF sh y] show ?thesis by simp
    qed
    ultimately show ?thesis using c1 assms(2) by auto
  qed
qed

lemma send_via_a2a_sent:
  assumes "send_via_a2a sha L f sealer now A msg s = (Inr t, calls, s')"
  shows "cx_bearer (sn_ctx t) = m_bearer msg \<and> cx_agent (sn_ctx t) = m_agent_ref msg \<and>
    outbound_message L (aw_paused A) msg = Inr (sn_message t) \<and>
    stream_task L (aw_listener A) (aw_read A) (aw_shutdown A) [] (aw_events A) (aw_stream_error A) =
      Inr (sn_trace t)"
proof -
  let ?c = "with_caller_auth no_ctx msg"
  have b: "cx_bearer ?c = m_bearer msg" "cx_agent ?c = m_agent_ref msg"
    by (auto simp: ctx_bearer no_ctx_def)
  obtain r calls1 s1 where sf: "session_for sha f now (aw_start A) (aw_bind_meanwhile A)
      (with_owner_auth ?c msg) msg s = (r, calls1, s1)" by (metis prod_cases3)
  from assms sf obtain sid ops where r: "r = Inr sid" "fc_routes f = Some ops"
    by (cases r; cases "fc_routes f") (auto simp: send_via_a2a_def Let_def)
  obtain r2 calls2 s2 where ws: "with_share f sealer (aw_nonce A) now (aw_mint A)
      (aw_share_meanwhile A) ?c msg sid ops s1 = (r2, calls2, s2)" by (metis prod_cases3)
  from assms sf r ws obtain c' where c': "r2 = Inr c'"
    by (cases r2) (auto simp: send_via_a2a_def Let_def)
  from assms sf r ws c' have "sn_ctx t = c' \<and> outbound_message L (aw_paused A) msg = Inr (sn_message t) \<and>
    stream_task L (aw_listener A) (aw_read A) (aw_shutdown A) [] (aw_events A) (aw_stream_error A) =
      Inr (sn_trace t)"
    by (auto simp: send_via_a2a_def Let_def split: sum.splits)
  with b with_share_bearer [OF ws [unfolded c']] show ?thesis by simp
qed

subsection \<open>Answering a prompt\<close>

lemma outbound_answer:
  assumes "outbound_message L paused msg = Inr m" and "m_task_id msg \<noteq> []"
    and "m_decision msg = Some d"
  shows "\<exists>tk r. paused = Inr tk \<and> st_state (tk_status tk) \<in> {TInputRequired, TAuthRequired} \<and>
    parse_hitl_request (lib_url_parse L) (st_message (tk_status tk)) = Inr (Some r) \<and>
    (hd_request_id d = [] \<or> hd_request_id d = hitl_id r) \<and>
    ms_task_id m = m_task_id msg \<and>
    hitl_payload (Some m) = Some (response_json (hitl_response r d))"
  using assms
  by (auto simp: outbound_message_def Let_def attach_hitl_payload split: sum.splits option.splits if_splits)
    (simp_all add: attach_hitl_def)

subsection \<open>A second attempt\<close>

lemma forward_listening: "(\<And>n. ls_sent l n) \<Longrightarrow> forward l n ds = ds"
  by (induction ds arbitrary: n) auto

text \<open>
  A channel that listens receives either the first attempt as it was, or what it delivered before
  it failed, none of which shows, and then the second attempt, or the first's failure when the
  second was refused.
\<close>

lemma retry_unshown_listening:
  assumes "retry_unshown l second sofar n ds = (r, out)"
    and "\<And>n. ls_sent l n" and "\<And>n. \<not> ls_done l n"
  shows "if r then \<not> sofar \<and> (\<exists>pre d post. ds = pre @ d # post \<and> (\<forall>x\<in>set pre. \<not> delta_shows x) \<and>
      is_task_failure (od_err d) \<and> retryable (classify_failure (od_err d)) \<and>
      out = pre @ (case second of Inr ds' \<Rightarrow> ds' | Inl _ \<Rightarrow> [d]))
    else out = ds"
  using assms(1)
proof (induction ds arbitrary: sofar n r out)
  case Nil
  then show ?case by simp
next
  case (Cons d ds)
  let ?again = "\<not> sofar \<and> is_task_failure (od_err d) \<and> retryable (classify_failure (od_err d))"
  show ?case
  proof (cases ?again)
    case True
    with Cons.prems assms(2,3) forward_listening [of l]
    have "r" "out = (case second of Inr ds' \<Rightarrow> ds' | Inl _ \<Rightarrow> [d])"
      by (auto split: sum.splits)
    with True show ?thesis by (auto intro!: exI [of _ "[]"])
  next
    case False
    obtain r' out' where rest: "retry_unshown l second (sofar \<or> delta_shows d) (n + 2) ds = (r', out')"
      by fastforce
    with False Cons.prems assms(2,3) have res: "r = r'" "out = d # out'"
      by (auto split: if_splits)
    note IH = Cons.IH [OF rest]
    show ?thesis
    proof (cases r')
      case True
      with IH obtain pre e post where "\<not> sofar" "\<not> delta_shows d" "ds = pre @ e # post"
        "\<forall>x\<in>set pre. \<not> delta_shows x" "is_task_failure (od_err e)"
        "retryable (classify_failure (od_err e))"
        "out' = pre @ (case second of Inr ds' \<Rightarrow> ds' | Inl _ \<Rightarrow> [e])" by auto
      with True res show ?thesis by (auto intro!: exI [of _ "d # pre"])
    next
      case r: False
      with IH res show ?thesis by simp
    qed
  qed
qed

text \<open>A resume is sent once, and a refusal is retried at most once.\<close>

definition starts :: "agent_call list \<Rightarrow> nat" where
  "starts calls = length (filter (\<lambda>x. case x of CallStart _ _ _ _ _ \<Rightarrow> True | _ \<Rightarrow> False) calls)"

lemma send_completion_resume:
  assumes "m_task_id msg \<noteq> []"
  shows "send_completion sha L f sealer now later A1 A2 cancelled l msg s =
    send_completion sha L f sealer now later A1 B cancelled l' msg s"
  using assms by (simp add: send_completion_def split: prod.split sum.split)

lemma send_completion_calls:
  assumes "send_completion sha L f sealer now later A1 A2 cancelled l msg s = (out, calls)"
    and "x \<in> set calls"
  shows "call_identity x = with_owner_auth (with_caller_auth no_ctx msg) msg"
proof -
  obtain r1 c1 s1 where a1: "send_via_a2a sha L f sealer now A1 msg s = (r1, c1, s1)"
    by (metis prod_cases3)
  have "x \<in> set c1 \<or> (\<exists>r2 c2 s2 s3. send_via_a2a sha L f sealer later A2 msg s2 = (r2, c2, s3) \<and> x \<in> set c2)"
  proof (cases r1)
    case (Inl err)
    obtain r2 c2 s2 where a2: "send_via_a2a sha L f sealer later A2 msg s1 = (r2, c2, s2)"
      by (metis prod_cases3)
    have "set calls \<subseteq> set c1 \<union> set c2"
      using assms(1) a1 a2 Inl
      by (cases r2) (auto simp: send_completion_def split: if_splits)
    with a2 assms(2) show ?thesis by blast
  next
    case (Inr t)
    let ?s = "record_writes f (\<lambda>_. now) (msg_key msg) (m_resume msg) 0 (sn_trace t) s1"
    obtain r2 c2 s2 where a2: "send_via_a2a sha L f sealer later A2 msg ?s = (r2, c2, s2)"
      by (metis prod_cases3)
    have "set calls \<subseteq> set c1 \<union> set c2"
      using assms(1) a1 a2 Inr
      by (auto simp: send_completion_def Let_def split: if_splits prod.splits)
    with a2 assms(2) show ?thesis by blast
  qed
  then show ?thesis
  proof
    assume "x \<in> set c1"
    with a1 show ?thesis by (rule send_via_a2a_calls)
  next
    assume "\<exists>r2 c2 s2 s3. send_via_a2a sha L f sealer later A2 msg s2 = (r2, c2, s3) \<and> x \<in> set c2"
    then obtain r2 c2 s2 s3 where "send_via_a2a sha L f sealer later A2 msg s2 = (r2, c2, s3)"
      "x \<in> set c2" by blast
    then show ?thesis by (rule send_via_a2a_calls)
  qed
qed

subsection \<open>The in-flight record in the store\<close>

lemma record_writes_skip:
  "record_writes f (\<lambda>_. now) k resume n as s = record_writes f (\<lambda>_. now) k resume m (writes as) s"
  by (induction f "\<lambda>_ :: nat. now" k resume n as s arbitrary: m rule: record_writes.induct)
    (simp_all add: store_act_def)

context thread_store begin

text \<open>The row a remembered task leaves, once the store took the write.\<close>

lemma remembered_live:
  assumes "inv s" and "fc_routes f = Some ops" and "live now s k = Some e"
    and "rt_update ops now k (remember_mutate tid resume) s = (seen, None, s')" and "now \<le> u"
    and "slack = 0 \<or> e_last_seen e \<le> now \<and> e_ttl e < 2 ^ 63 - 1" and "\<not> entry_expired e (u + slack)"
  shows "remember_task f now k tid resume s = s'" and "inv s'"
    and "live u s' k =
      Some (norm (e\<lparr>e_task_id := tid, e_resume := resume, e_delivered := zero_delivered\<rparr>))"
proof -
  show "remember_task f now k tid resume s = s'"
    by (simp add: remember_task_def update_binding_def assms(2,4))
  show "inv s'" by (rule upd_inv [OF assms(1,4)])
  have m: "case_prod (remember_mutate tid resume) (shown (live now s k)) =
      Some (e\<lparr>e_task_id := tid, e_resume := resume, e_delivered := zero_delivered\<rparr>)"
    by (simp add: assms(3) remember_mutate_def)
  show "live u s' k =
      Some (norm (e\<lparr>e_task_id := tid, e_resume := resume, e_delivered := zero_delivered\<rparr>))"
  proof (rule upd_write [OF assms(1,4) m assms(5)])
    from assms(6) show "slack = 0 \<or>
        e_last_seen (e\<lparr>e_task_id := tid, e_resume := resume, e_delivered := zero_delivered\<rparr>) \<le> now \<and>
        e_ttl (e\<lparr>e_task_id := tid, e_resume := resume, e_delivered := zero_delivered\<rparr>) < 2 ^ 63 - 1"
      by simp
    from assms(7) show "\<not> entry_expired
        (e\<lparr>e_task_id := tid, e_resume := resume, e_delivered := zero_delivered\<rparr>) (u + slack)"
      by (simp add: entry_expired_def cong: if_cong split del: if_split)
  qed
qed

text \<open>A listing of the turns in flight has every thread of the channel with a task to resume.\<close>

lemma listed_in_flight:
  assumes "inv s" and "fc_routes f = Some ops" and "fc_agent f" and "live u s k = Some e"
    and "e_task_id e \<noteq> []" and "e_instance e \<noteq> []" and "\<not> thread_closed (fc_ttl f) e u" and "plain_key k"
    and "in_flight_turns f u (k_channel k) s = Inr turns"
  shows "in_flight_of k e \<in> set turns"
proof -
  from assms(2,3,9) obtain rows where rows: "rt_list ops u s = Inr rows"
    and turns: "turns = map (\<lambda>(k, e). in_flight_of k e)
      (filter (\<lambda>(k', e). k_channel k' = k_channel k \<and> e_task_id e \<noteq> [] \<and> e_instance e \<noteq> [] \<and>
         \<not> thread_closed (fc_ttl f) e u) rows)"
    by (auto simp: in_flight_turns_def split: sum.splits)
  from list_live [OF assms(1) rows] assms(4) have "(listed_key k, e) \<in> set rows" by auto
  with listed_key_plain [OF assms(8)] have "(k, e) \<in> set rows" by simp
  with assms(5-7) show ?thesis by (force simp: turns)
qed

end

context reliable_store begin

lemma update_binding_row:
  assumes "inv s" and "fc_routes f = Some ops" and "live now s k = Some e" and "g e True = Some e'"
    and "e_last_seen e' = e_last_seen e" and "e_ttl e' = e_ttl e" and "now \<le> u"
  shows "inv (update_binding f now k g s)"
    and "live u (update_binding f now k g s) k =
      (if entry_expired e u then None else Some (norm e'))"
proof -
  obtain s' where u: "rt_update ops now k g s = (Some (shown (live now s k)), None, s')"
    using upd_eq [OF assms(1)] by blast
  have w: "update_binding f now k g s = s'" by (simp add: update_binding_def assms(2) u)
  from upd_inv [OF assms(1) u] w show "inv (update_binding f now k g s)" by simp
  have m: "case_prod g (shown (live now s k)) = Some e'" using assms(3,4) by simp
  have x: "entry_expired e' u = entry_expired e u" using assms(5,6) by (simp add: entry_expired_def)
  show "live u (update_binding f now k g s) k =
      (if entry_expired e u then None else Some (norm e'))"
    unfolding w using upd_write [OF assms(1) u m assms(7)] upd_gone [OF assms(1) u m assms(7)]
      exact x by auto
qed

lemma forgotten_row:
  assumes "inv s" and "fc_routes f = Some ops" and "live now s k = Some e"
  shows "\<exists>e'. live now (forget_task f now k s) k = Some e' \<and> e_task_id e' = [] \<and>
    e_instance e' = e_instance e \<and> e_agent_ref e' = e_agent_ref e"
proof (cases "forget_mutate e True")
  case None
  then have t: "e_task_id e = []" by (auto simp: forget_mutate_def split: if_splits)
  obtain s' where u: "rt_update ops now k forget_mutate s = (Some (shown (live now s k)), None, s')"
    using upd_eq [OF assms(1)] by blast
  have "live now s' k = live now s k"
    by (rule upd_skip [OF assms(1) u _ order_refl]) (simp add: assms(3) None)
  with t assms(2,3) u show ?thesis by (simp add: forget_task_def update_binding_def)
next
  case (Some e')
  then have e': "e' = drop_task e" by (auto simp: forget_mutate_def split: if_splits)
  from update_binding_row(2) [OF assms, where g = forget_mutate and e' = e' and u = now] Some live_fresh [OF assms(1,3)]
  show ?thesis by (simp add: forget_task_def e' norm_fields)
qed

end

subsection \<open>A turn the shutdown cut short\<close>

text \<open>The task the record of a fresh turn names, and what the goroutine's writes amount to.\<close>

lemma cut_short_writes:
  assumes "stream_task L o' read True [] evs err = Inr tr" and "cut_short L o' read [] evs err"
  obtains t where "t \<noteq> []" and "writes tr = [Remember t]"
    and "\<And>f now k resume s. record_writes f (\<lambda>_. now) k resume 0 tr s = remember_task f now k t resume s"
proof -
  from assms(1) obtain pre where pre: "pre = [] \<or> ([] :: string) = [] \<and> (\<exists>t. t \<noteq> [] \<and> pre = [Remember t])"
    "writes tr = pre @
      (if cut_short L o' read [] evs err
       then (if True then [] else [Forget, CancelTask (pm_task (end_pump L o' read [] evs err))])
       else if ([] :: string) \<noteq> [] \<or> pre \<noteq> [] then [Forget] else [])"
    "cut_short L o' read [] evs err \<longrightarrow> ([] :: string) \<noteq> [] \<or> pre \<noteq> []"
    by (rule stream_task_record)
  with assms(2) obtain t where t: "t \<noteq> []" "writes tr = [Remember t]" by auto
  have "record_writes f (\<lambda>_. now) k resume 0 tr s = remember_task f now k t resume s" for f now k resume s
    by (subst record_writes_skip [where m = 0]) (simp add: t)
  with t that show ?thesis by blast
qed

text \<open>What a turn that was not cut short leaves of its record.\<close>

lemma finished_writes:
  assumes "stream_task L o' read shutdown [] evs err = Inr tr"
    and "\<not> (shutdown \<and> cut_short L o' read [] evs err)"
  shows "Remember t \<in> set tr \<Longrightarrow> \<exists>post. writes tr = [Remember t, Forget] @ post \<and>
      (post = [] \<or> (\<exists>t'. post = [CancelTask t']))"
proof -
  assume r: "Remember t \<in> set tr"
  then have m: "Remember t \<in> set (writes tr)" by (simp add: store_act_def)
  from assms(1) obtain pre where pre: "pre = [] \<or> ([] :: string) = [] \<and> (\<exists>t. t \<noteq> [] \<and> pre = [Remember t])"
    "writes tr = pre @
      (if cut_short L o' read [] evs err
       then (if shutdown then [] else [Forget, CancelTask (pm_task (end_pump L o' read [] evs err))])
       else if ([] :: string) \<noteq> [] \<or> pre \<noteq> [] then [Forget] else [])"
    "cut_short L o' read [] evs err \<longrightarrow> ([] :: string) \<noteq> [] \<or> pre \<noteq> []"
    by (rule stream_task_record)
  with m assms(2) show ?thesis by (auto split: if_splits)
qed

context reliable_store begin

lemma remembered_row:
  assumes "inv s" and "fc_routes f = Some ops" and "live now s k = Some e"
  shows "inv (remember_task f now k t resume s) \<and>
    (\<exists>e'. live now (remember_task f now k t resume s) k = Some e' \<and>
       e_instance e' = e_instance e \<and> e_agent_ref e' = e_agent_ref e)"
proof -
  let ?e = "e\<lparr>e_task_id := t, e_resume := resume, e_delivered := zero_delivered\<rparr>"
  from update_binding_row [OF assms, of "remember_mutate t resume" ?e now] live_fresh [OF assms(1,3)]
  have "inv (remember_task f now k t resume s)"
    "live now (remember_task f now k t resume s) k = Some (norm ?e)"
    by (simp_all add: remember_task_def remember_mutate_def)
  then show ?thesis by (simp add: norm_fields)
qed

lemma answered_row:
  assumes "inv s" and "fc_routes f = Some ops" and "live now s k = Some e"
    and "stream_task L o' read shutdown [] evs err = Inr tr"
    and "\<not> (shutdown \<and> cut_short L o' read [] evs err)" and "Remember t \<in> set tr"
  shows "\<exists>e'. live now (record_writes f (\<lambda>_. now) k resume 0 tr s) k = Some e' \<and> e_task_id e' = [] \<and>
    e_instance e' = e_instance e \<and> e_agent_ref e' = e_agent_ref e"
proof -
  from finished_writes [OF assms(4,5,6)] obtain post where
    post: "writes tr = [Remember t, Forget] @ post" "post = [] \<or> (\<exists>t'. post = [CancelTask t'])" by blast
  have "record_writes f (\<lambda>_. now) k resume 0 tr s =
      forget_task f now k (remember_task f now k t resume s)"
    using post by (subst record_writes_skip [where m = 0]) auto
  moreover from remembered_row [OF assms(1-3), of t resume] obtain e1 where
    "inv (remember_task f now k t resume s)" "live now (remember_task f now k t resume s) k = Some e1"
    "e_instance e1 = e_instance e" "e_agent_ref e1 = e_agent_ref e" by blast
  ultimately show ?thesis using forgotten_row [of "remember_task f now k t resume s" f now k e1] assms(2)
    by auto
qed

end

end
