(* ===== verification/TurnTimer.thy ===== *)
theory TurnTimer
  imports Failure
begin

section \<open>The timeline of a turn\<close>

text \<open>
  \<open>pkg/channels/turn_timer.go\<close>: the phases, counters and the single turn_complete record of
  a turn. \<open>time.Since(t.start)\<close> is computed from the argument \<open>now\<close>; a span is given
  when it began and ended. The trace span and the logger are left out; what
  \<open>CompleteTurn\<close> writes and feeds the recorder is the record \<open>turn_record\<close>. Counters and
  sums are Go ints.
\<close>

record timer =
  tt_start :: gotime
  tt_ended :: bool
  tt_phases :: "(string \<times> duration) list"
  tt_task_id :: string
  tt_tool_calls :: int
  tt_chars :: int
  tt_retries :: int
  tt_usage :: turn_usage

definition new_timer :: "gotime \<Rightarrow> gotime \<Rightarrow> timer" where
  "new_timer start now =
     \<lparr>tt_start = (if start = 0 then now else start), tt_ended = False, tt_phases = [],
      tt_task_id = [], tt_tool_calls = 0, tt_chars = 0, tt_retries = 0,
      tt_usage = \<lparr>tu_input = 0, tu_output = 0, tu_total = 0\<rparr>\<rparr>"

definition tt_mark :: "string \<Rightarrow> gotime \<Rightarrow> timer \<Rightarrow> timer" where
  "tt_mark phase now t =
     (case map_of (tt_phases t) phase of
        None \<Rightarrow> t\<lparr>tt_phases := AList.update phase (time_sub now (tt_start t)) (tt_phases t)\<rparr>
      | Some _ \<Rightarrow> t)"

definition tt_span :: "string \<Rightarrow> gotime \<Rightarrow> gotime \<Rightarrow> timer \<Rightarrow> timer" where
  "tt_span phase began ended t =
     (let before = (case map_of (tt_phases t) phase of None \<Rightarrow> 0 | Some d \<Rightarrow> d)
      in t\<lparr>tt_phases := AList.update phase (wrap64 (before + time_sub ended began)) (tt_phases t)\<rparr>)"

definition tt_set_task_id :: "string \<Rightarrow> timer \<Rightarrow> timer" where
  "tt_set_task_id task_id t = (if task_id = [] then t else t\<lparr>tt_task_id := task_id\<rparr>)"

definition tt_add_tool_call :: "timer \<Rightarrow> timer" where
  "tt_add_tool_call t = t\<lparr>tt_tool_calls := wrap64 (tt_tool_calls t + 1)\<rparr>"

definition tt_add_chars :: "int \<Rightarrow> timer \<Rightarrow> timer" where
  "tt_add_chars n t = (if n \<le> 0 then t else t\<lparr>tt_chars := wrap64 (tt_chars t + n)\<rparr>)"

definition tt_add_usage :: "turn_usage \<Rightarrow> timer \<Rightarrow> timer" where
  "tt_add_usage u t =
     t\<lparr>tt_usage := \<lparr>tu_input = wrap64 (tu_input (tt_usage t) + tu_input u),
                   tu_output = wrap64 (tu_output (tt_usage t) + tu_output u),
                   tu_total = wrap64 (tu_total (tt_usage t) + tu_total u)\<rparr>\<rparr>"

definition tt_retry :: "timer \<Rightarrow> timer" where
  "tt_retry t =
     t\<lparr>tt_retries := wrap64 (tt_retries t + 1),
       tt_phases := AList.delete ''stream_end'' (AList.delete ''task_done'' (tt_phases t))\<rparr>"

definition tt_phase :: "string \<Rightarrow> timer \<Rightarrow> duration \<times> bool" where
  "tt_phase phase t =
     (case map_of (tt_phases t) phase of None \<Rightarrow> (0, False) | Some d \<Rightarrow> (d, True))"

record turn_record =
  tr_outcome :: string
  tr_class :: failure_class
  tr_record_task :: string
  tr_tool_calls :: int
  tr_chars :: int
  tr_retries :: int
  tr_usage :: turn_usage
  tr_phases :: "(string \<times> duration) list"
  tr_error :: "string option"

definition complete_turn ::
  "string \<Rightarrow> go_error option \<Rightarrow> gotime \<Rightarrow> timer \<Rightarrow> turn_record option \<times> timer" where
  "complete_turn outcome err now t =
     (if tt_ended t then (None, t)
      else
        (let t' = tt_mark ''total'' now (t\<lparr>tt_ended := True\<rparr>)
         in (Some \<lparr>tr_outcome = outcome, tr_class = turn_failure_class outcome err,
                   tr_record_task = tt_task_id t', tr_tool_calls = tt_tool_calls t',
                   tr_chars = tt_chars t', tr_retries = tt_retries t', tr_usage = tt_usage t',
                   tr_phases = tt_phases t', tr_error = map_option ge_text err\<rparr>, t')))"

definition abandon_turn :: "timer \<Rightarrow> timer" where
  "abandon_turn t = (if tt_ended t then t else t\<lparr>tt_ended := True\<rparr>)"

subsection \<open>Sequences of operations\<close>

datatype tt_op =
    Mark string gotime
  | Span string gotime gotime
  | SetTask string
  | ToolCallMade
  | CharsStreamed int
  | UsageReported turn_usage
  | RetrySent
  | Complete string "go_error option" gotime
  | Abandon

fun tt_step :: "tt_op \<Rightarrow> timer \<Rightarrow> turn_record option \<times> timer" where
  "tt_step (Mark p now) t = (None, tt_mark p now t)"
| "tt_step (Span p b e) t = (None, tt_span p b e t)"
| "tt_step (SetTask i) t = (None, tt_set_task_id i t)"
| "tt_step ToolCallMade t = (None, tt_add_tool_call t)"
| "tt_step (CharsStreamed n) t = (None, tt_add_chars n t)"
| "tt_step (UsageReported u) t = (None, tt_add_usage u t)"
| "tt_step RetrySent t = (None, tt_retry t)"
| "tt_step (Complete outcome err now) t = complete_turn outcome err now t"
| "tt_step Abandon t = (None, abandon_turn t)"

fun tt_run :: "tt_op list \<Rightarrow> timer \<Rightarrow> turn_record list \<times> timer" where
  "tt_run [] t = ([], t)"
| "tt_run (x # xs) t =
     (let (r, t1) = tt_step x t; (rs, t2) = tt_run xs t1
      in (case r of None \<Rightarrow> rs | Some y \<Rightarrow> y # rs, t2))"

definition tt_inv :: "timer \<Rightarrow> bool" where
  "tt_inv t \<longleftrightarrow> gomap (tt_phases t) \<and> (\<forall>p d. map_of (tt_phases t) p = Some d \<longrightarrow> in_int64 d) \<and>
     in_int64 (tt_tool_calls t) \<and> in_int64 (tt_chars t) \<and> in_int64 (tt_retries t)"

lemma tt_mark_inv: "tt_inv t \<Longrightarrow> tt_inv (tt_mark p now t)"
  by (auto simp: tt_inv_def tt_mark_def simp del: map_of_eq_Some_iff split: option.split)

lemma tt_step_inv: "tt_inv t \<Longrightarrow> tt_inv (snd (tt_step x t))"
proof (cases x)
  case (Complete outcome err now)
  assume "tt_inv t"
  then have "tt_inv (t\<lparr>tt_ended := True\<rparr>)" by (simp add: tt_inv_def)
  from tt_mark_inv [OF this, of "''total''" now] \<open>tt_inv t\<close> Complete show ?thesis
    by (simp add: complete_turn_def Let_def)
qed (auto simp: tt_inv_def tt_mark_inv tt_mark_def tt_span_def tt_set_task_id_def
    tt_add_tool_call_def tt_add_chars_def tt_add_usage_def tt_retry_def abandon_turn_def Let_def
    simp del: map_of_eq_Some_iff split: option.split)

lemma tt_run_inv: "tt_inv t \<Longrightarrow> tt_inv (snd (tt_run xs t))"
proof (induction xs arbitrary: t)
  case (Cons x xs)
  obtain r t1 where s: "tt_step x t = (r, t1)" by fastforce
  with tt_step_inv [OF Cons.prems, of x] Cons.IH [of t1] show ?case by (auto split: prod.splits)
qed simp

lemma new_timer_inv: "tt_inv (new_timer start now)"
  by (simp add: tt_inv_def new_timer_def in_int64_def)

text \<open>Once a turn is over it stays over; what comes after writes no record.\<close>

lemma tt_step_ended: "tt_ended t \<Longrightarrow> fst (tt_step x t) = None \<and> tt_ended (snd (tt_step x t))"
  by (cases x) (auto simp: tt_mark_def tt_span_def tt_set_task_id_def tt_add_tool_call_def
      tt_add_chars_def tt_add_usage_def tt_retry_def complete_turn_def abandon_turn_def Let_def
      split: option.split)

lemma tt_run_ended: "tt_ended t \<Longrightarrow> fst (tt_run xs t) = []"
proof (induction xs arbitrary: t)
  case (Cons x xs)
  obtain r t1 where s: "tt_step x t = (r, t1)" by fastforce
  with tt_step_ended [OF Cons.prems, of x] Cons.IH [of t1] show ?case by (auto split: prod.splits)
qed simp

lemma tt_step_record: "fst (tt_step x t) \<noteq> None \<Longrightarrow> tt_ended (snd (tt_step x t))"
  by (cases x) (auto simp: complete_turn_def tt_mark_def Let_def split: option.split)

lemma tt_run_one_record: "length (fst (tt_run xs t)) \<le> 1"
proof (induction xs arbitrary: t)
  case (Cons x xs)
  obtain r t1 where s: "tt_step x t = (r, t1)" by fastforce
  show ?case
  proof (cases r)
    case None
    with s Cons.IH [of t1] show ?thesis by (simp split: prod.split)
  next
    case (Some y)
    with s tt_step_record [of x t] have "tt_ended t1" by simp
    with s Some tt_run_ended [of t1 xs] show ?thesis by (auto split: prod.split)
  qed
qed simp

text \<open>A marked phase keeps its first value; only a retry forgets one, and a span adds to it.\<close>

lemma tt_step_phase:
  assumes "map_of (tt_phases t) p = Some d"
    and "x = RetrySent \<longrightarrow> p \<noteq> ''task_done'' \<and> p \<noteq> ''stream_end''" and "\<forall>b e. x \<noteq> Span p b e"
  shows "map_of (tt_phases (snd (tt_step x t))) p = Some d"
  using assms
  by (cases x) (auto simp: tt_mark_def tt_span_def tt_set_task_id_def tt_add_tool_call_def
      tt_add_chars_def tt_add_usage_def tt_retry_def complete_turn_def abandon_turn_def Let_def
      split: option.splits)

lemma tt_run_phase:
  assumes "map_of (tt_phases t) p = Some d" and "p \<noteq> ''task_done''" and "p \<noteq> ''stream_end''"
    and "\<forall>b e. Span p b e \<notin> set xs"
  shows "map_of (tt_phases (snd (tt_run xs t))) p = Some d"
  using assms
proof (induction xs arbitrary: t)
  case (Cons x xs)
  from Cons.prems have "map_of (tt_phases (snd (tt_step x t))) p = Some d"
    by (intro tt_step_phase) auto
  with Cons.IH [of "snd (tt_step x t)"] Cons.prems show ?case by (auto split: prod.splits)
qed simp

text \<open>The phases of the failed attempt are forgotten.\<close>

lemma tt_retry_forgets:
  "fst (tt_phase ''task_done'' (tt_retry t)) = 0 \<and> \<not> snd (tt_phase ''task_done'' (tt_retry t)) \<and>
   \<not> snd (tt_phase ''stream_end'' (tt_retry t)) \<and>
   (p \<noteq> ''task_done'' \<longrightarrow> p \<noteq> ''stream_end'' \<longrightarrow> tt_phase p (tt_retry t) = tt_phase p t)"
  by (simp add: tt_phase_def tt_retry_def)

subsection \<open>Properties\<close>

text \<open>A turn is recorded at most once, whatever order its marks, retries, completions and
  abandonments come in and however often each is repeated, and every duration and counter of the
  record stays in an int64.\<close>

theorem turn_recorded_at_most_once:
  "length (fst (tt_run xs (new_timer start now))) \<le> 1 \<and> tt_inv (snd (tt_run xs (new_timer start now)))"
  using tt_run_one_record [of xs "new_timer start now"] by (simp add: tt_run_inv new_timer_inv)

end
