(* ===== verification/SlackText.thy ===== *)
theory SlackText
  imports Parts "HOL-Library.Monad_Syntax"
begin

section \<open>Text for Slack\<close>

text \<open>
  \<open>pkg/channels/slack/mrkdwn.go\<close> and the rune helpers of \<open>stream.go\<close>: escaping for
  mrkdwn, cutting to a number of runes, cutting a long text at lines and a piece of prose at white
  space. A text is a list of bytes and may hold invalid UTF-8.

  \<open>splitAtLines\<close> does not end on a limit of zero, so it is a partial function; the lemmas show
  that it returns for every other limit.
\<close>

subsection \<open>Runes of a byte string\<close>

text \<open>\<open>utf8.RuneStart\<close>: every byte that is not a continuation byte.\<close>

definition rune_start :: "char \<Rightarrow> bool" where
  "rune_start c \<longleftrightarrow> \<not> is_cont (of_char c)"

definition count_runes :: "string \<Rightarrow> nat" where
  "count_runes s = length (runes_of s)"

text \<open>\<open>utf8.DecodeLastRuneInString\<close>: the last rune and its width, (U+FFFD, 1) when the bytes
  before the end are no rune.\<close>

definition last_rune_start :: "string \<Rightarrow> nat" where
  "last_rune_start s =
     length s - 2 - length (takeWhile (\<lambda>c. \<not> rune_start c) (take 3 (drop 1 (rev s))))"

definition decode_last_rune :: "string \<Rightarrow> rune \<times> nat" where
  "decode_last_rune s =
     (if s = [] then (rune_error, 0)
      else if of_char (last s) < (0x80 :: nat) then (of_char (last s), 1)
      else let start = last_rune_start s;
               (r, size) = decode_rune (map of_char (drop start s))
           in if start + size = length s then (r, size) else (rune_error, 1))"

lemma decode_last_rune_width: "s \<noteq> [] \<Longrightarrow> 0 < snd (decode_last_rune s)"
  by (auto simp: decode_last_rune_def Let_def split_beta last_rune_start_def
      intro!: decode_rune_width)

lemma decode_last_rune_le: "snd (decode_last_rune s) \<le> length s"
  by (cases s) (auto simp: decode_last_rune_def Let_def split_beta)

text \<open>\<open>strings.LastIndexFunc\<close> and \<open>strings.LastIndexByte\<close>.\<close>

function last_index_func :: "(rune \<Rightarrow> bool) \<Rightarrow> string \<Rightarrow> nat option" where
  "last_index_func f s =
     (if s = [] then None
      else let (r, size) = decode_last_rune s; i = length s - size
           in if f r then Some i else last_index_func f (take i s))"
  by pat_completeness auto
termination
proof (relation "measure (\<lambda>(f, s). length s)")
  fix f s x r size i
  assume "s \<noteq> []" and "x = decode_last_rune s" and "(r, size) = x" and "i = length s - size"
  then have "0 < size" using decode_last_rune_width [of s] by (metis snd_conv)
  with \<open>s \<noteq> []\<close> \<open>i = length s - size\<close>
  show "((f, take i s), f, s) \<in> measure (\<lambda>(f, s). length s)" by simp
qed simp

declare last_index_func.simps [simp del]

definition last_index_char :: "char \<Rightarrow> string \<Rightarrow> nat option" where
  "last_index_char c s =
     (if c \<in> set s then Some (length s - 1 - length (takeWhile (\<lambda>d. d \<noteq> c) (rev s))) else None)"

lemma last_index_func_lt: "last_index_func f s = Some i \<Longrightarrow> i < length s"
proof (induction f s rule: last_index_func.induct)
  case (1 f s)
  obtain r size where d: "decode_last_rune s = (r, size)" by fastforce
  show ?case
  proof (cases "s = []")
    case True
    with "1.prems" show ?thesis by (simp add: last_index_func.simps)
  next
    case False
    then have "0 < size" using decode_last_rune_width [of s] d by simp
    with False d "1.prems" "1.IH" [OF False, of "(r, size)" r size "length s - size"]
    show ?thesis by (subst (asm) last_index_func.simps) (auto simp: Let_def split: if_splits)
  qed
qed

lemma last_index_char_lt: "last_index_char c s = Some i \<Longrightarrow> i < length s"
  by (cases s) (auto simp: last_index_char_def split: if_splits)

text \<open>\<open>strings.TrimSpace\<close>, byte for byte: what lies between the first and the last rune that
  is not white space.\<close>

function trim_left_space :: "string \<Rightarrow> string" where
  "trim_left_space s =
     (if s = [] then []
      else let (r, size) = decode_rune (map of_char s)
           in if is_space r then trim_left_space (drop size s) else s)"
  by pat_completeness auto
termination
proof (relation "measure length")
  fix s :: string and x r size
  assume "s \<noteq> []" and "x = decode_rune (map of_char s)" and "(r, size) = x"
  then have "0 < size" using decode_rune_width [of "map of_char s"] by (metis map_is_Nil_conv snd_conv)
  with \<open>s \<noteq> []\<close> show "(drop size s, s) \<in> measure length" by simp
qed simp

declare trim_left_space.simps [simp del]

definition trim_right_space :: "string \<Rightarrow> string" where
  "trim_right_space s =
     (case last_index_func (\<lambda>r. \<not> is_space r) s of
        Some i \<Rightarrow> take (i + snd (decode_rune (map of_char (drop i s)))) s
      | None \<Rightarrow> [])"

definition trim_space_bytes :: "string \<Rightarrow> string" where
  "trim_space_bytes s = trim_right_space (trim_left_space s)"

subsection \<open>Escaping\<close>

definition escape_mrkdwn :: "string \<Rightarrow> string" where
  "escape_mrkdwn s =
     replace_all ''>'' ''&gt;'' (replace_all ''<'' ''&lt;'' (replace_all ''&'' ''&amp;'' s))"

text \<open>The runes of \<open>s\<close> one by one, each as the UTF-8 of \<open>string(r)\<close>.\<close>

fun capped_from :: "int \<Rightarrow> rune list \<Rightarrow> string" where
  "capped_from left [] = []"
| "capped_from left (r # rs) =
     (let e = escape_mrkdwn (of_runes [r])
      in if int (count_runes e) > left then []
         else e @ capped_from (left - int (count_runes e)) rs)"

definition ellipsis :: string where
  "ellipsis = of_runes [0x2026]"

definition escape_mrkdwn_capped :: "string \<Rightarrow> int \<Rightarrow> string" where
  "escape_mrkdwn_capped s mx =
     (if int (count_runes (escape_mrkdwn s)) \<le> mx then escape_mrkdwn s
      else capped_from (mx - 1) (runes_of s) @ ellipsis)"

definition code_span_safe :: "string \<Rightarrow> string" where
  "code_span_safe s = replace_all [newline] '' '' (replace_all ''`'' [CHR 0x27] s)"

definition truncate_runes :: "string \<Rightarrow> nat \<Rightarrow> string" where
  "truncate_runes s mx =
     (if count_runes s \<le> mx then s else of_runes (take (mx - 1) (runes_of s)) @ ellipsis)"

definition truncate_button_label :: "string \<Rightarrow> string" where
  "truncate_button_label s = truncate_runes s 75"

subsection \<open>Cutting\<close>

text \<open>Back from byte \<open>i\<close> to the start of a rune, at most to the start of the text.\<close>

fun back_to_start :: "string \<Rightarrow> nat \<Rightarrow> nat" where
  "back_to_start s 0 = 0"
| "back_to_start s (Suc i) = (if rune_start (s ! Suc i) then Suc i else back_to_start s i)"

definition line_cut :: "string \<Rightarrow> nat \<Rightarrow> nat" where
  "line_cut s m =
     (let hard = (let cut = back_to_start s m in if cut = 0 then m else cut)
      in case last_index_char newline (take m s) of
           Some i \<Rightarrow> if 0 < i then i + 1 else hard
         | None \<Rightarrow> hard)"

partial_function (option) split_at_lines :: "string \<Rightarrow> nat \<Rightarrow> string list option" where
  [code]: "split_at_lines s m =
     (if s = [] then Some []
      else if length s \<le> m then Some [s]
      else do {
        cs \<leftarrow> split_at_lines (drop (line_cut s m) s) m;
        Some (take (line_cut s m) s # cs)
      })"

definition cut_piece :: "string \<Rightarrow> nat \<Rightarrow> string \<times> string" where
  "cut_piece s budget =
     (if length s \<le> budget then (s, [])
      else case last_index_func is_space (take budget s) of
        Some i \<Rightarrow> (let size = snd (decode_rune (map of_char (drop i s)))
                  in (take (i + size) s, drop (i + size) s))
      | None \<Rightarrow> (let cut = back_to_start s budget in (take cut s, drop cut s)))"

subsection \<open>The cuts lie inside the text\<close>

lemma back_to_start_le: "back_to_start s i \<le> i"
  by (induction s i rule: back_to_start.induct) auto

lemma line_cut_pos: "0 < m \<Longrightarrow> 0 < line_cut s m"
  by (auto simp: line_cut_def Let_def split: option.splits)

lemma line_cut_le: "0 < m \<Longrightarrow> line_cut s m \<le> m"
  using back_to_start_le [of s m]
  by (auto simp: line_cut_def Let_def split: option.splits dest: last_index_char_lt)

lemma split_at_lines_returns:
  assumes "0 < m"
  obtains cs where "split_at_lines s m = Some cs" and "concat cs = s"
    and "\<And>c. c \<in> set cs \<Longrightarrow> c \<noteq> [] \<and> length c \<le> m"
proof -
  have "\<exists>cs. split_at_lines s m = Some cs \<and> concat cs = s \<and> (\<forall>c \<in> set cs. c \<noteq> [] \<and> length c \<le> m)"
  proof (induction s rule: length_induct)
    case (1 s)
    consider "s = []" | "s \<noteq> []" "length s \<le> m" | "m < length s" by fastforce
    then show ?case
    proof cases
      case 3
      let ?k = "line_cut s m"
      from 3 assms have k: "0 < ?k" "?k \<le> m" by (simp_all add: line_cut_pos line_cut_le)
      with 3 have "length (drop ?k s) < length s" by auto
      with 1 obtain cs where "split_at_lines (drop ?k s) m = Some cs"
        "concat cs = drop ?k s" "\<forall>c \<in> set cs. c \<noteq> [] \<and> length c \<le> m" by blast
      with 3 k show ?thesis by (subst split_at_lines.simps) auto
    qed (subst split_at_lines.simps, simp)+
  qed
  with that show thesis by blast
qed

lemma split_at_lines_ends_only:
  assumes "split_at_lines s m = Some cs"
  shows "m = 0 \<longrightarrow> s = []"
proof (rule split_at_lines.raw_induct [where P = "\<lambda>s m cs. m = 0 \<longrightarrow> s = []", OF _ assms])
  fix f :: "string \<Rightarrow> nat \<Rightarrow> string list option" and t k ds
  assume IH: "\<And>t k ds. f t k = Some ds \<Longrightarrow> k = 0 \<longrightarrow> t = []"
    and step: "(if t = [] then Some [] else if length t \<le> k then Some [t]
      else f (drop (line_cut t k) t) k \<bind> (\<lambda>cs. Some (take (line_cut t k) t # cs))) = Some ds"
  show "k = 0 \<longrightarrow> t = []"
  proof
    assume "k = 0"
    then have "line_cut t k = 0" by (simp add: line_cut_def last_index_char_def)
    with \<open>k = 0\<close> step show "t = []" by (auto split: if_splits bind_splits dest: IH)
  qed
qed

lemma split_at_lines_zero: "s \<noteq> [] \<Longrightarrow> split_at_lines s 0 = None"
  using split_at_lines_ends_only [of s 0] by (metis not_Some_eq)

lemma cut_piece_append: "fst (cut_piece s b) @ snd (cut_piece s b) = s"
  by (simp add: cut_piece_def Let_def split: option.splits)

subsection \<open>A piece of prose\<close>

lemma decode_rune_extends:
  "decode_rune s = (r, n) \<Longrightarrow> r \<noteq> rune_error \<Longrightarrow> decode_rune (s @ t) = (r, n)"
  by (induction s rule: decode_rune.induct)
    (auto simp: rune_error_def split: if_splits list.splits)

lemma decode_last_rune_starts:
  assumes "decode_last_rune s = (r, n)" and "s \<noteq> []" and "r \<noteq> rune_error"
  shows "decode_rune (map of_char (drop (length s - n) s)) = (r, n)"
proof (cases "of_char (last s) < (0x80 :: nat)")
  case True
  with assms have "n = 1" "r = of_char (last s)" by (auto simp: decode_last_rune_def)
  moreover from assms have "drop (length s - 1) s = [last s]"
    by (metis append_butlast_last_id append_eq_conv_conj length_butlast)
  ultimately show ?thesis using True by simp
next
  case False
  with assms show ?thesis
    by (auto simp: decode_last_rune_def Let_def split_beta prod_eq_iff split: if_splits)
      (metis diff_add_inverse2)+
qed

lemma last_index_func_decodes:
  assumes "last_index_func f s = Some i" and "\<not> f rune_error"
  obtains r n where "decode_rune (map of_char (drop i s)) = (r, n)" and "f r" and "i + n \<le> length s"
proof -
  have "\<exists>r n. decode_rune (map of_char (drop i s)) = (r, n) \<and> f r \<and> i + n \<le> length s"
    using assms
  proof (induction f s rule: last_index_func.induct)
    case (1 f s)
    obtain r size where d: "decode_last_rune s = (r, size)" by fastforce
    from 1 have ne: "s \<noteq> []" by (auto simp: last_index_func.simps)
    from d have le: "size \<le> length s" using decode_last_rune_le [of s] by simp
    let ?k = "length s - size"
    show ?case
    proof (cases "f r")
      case True
      with "1.prems" ne d have "i = ?k" by (subst (asm) last_index_func.simps) (simp add: Let_def)
      moreover from True "1.prems" have "r \<noteq> rune_error" by auto
      ultimately show ?thesis using decode_last_rune_starts [OF d ne] True le by auto
    next
      case False
      with "1.prems" ne d have "last_index_func f (take ?k s) = Some i"
        by (subst (asm) last_index_func.simps) (simp add: Let_def)
      from "1.IH" [OF ne d [symmetric] refl refl False this "1.prems"(2)] obtain r' n where
        dec: "decode_rune (map of_char (drop i (take ?k s))) = (r', n)" "f r'" "i + n \<le> length (take ?k s)"
        by blast
      then have "r' \<noteq> rune_error" using "1.prems" by auto
      with dec(1) have "decode_rune (map of_char (drop i (take ?k s)) @ map of_char (drop ?k s)) = (r', n)"
        by (rule decode_rune_extends)
      moreover have "i \<le> ?k"
        using last_index_func_lt [OF \<open>last_index_func f (take ?k s) = Some i\<close>] by simp
      then have "drop i (take ?k s) @ drop ?k s = drop i s"
        by (metis append_take_drop_id drop_append length_take min.absorb2 diff_is_0_eq diff_le_self drop0)
      ultimately show ?thesis using dec(2,3) by (metis map_append length_take min.bounded_iff)
    qed
  qed
  with that show thesis by blast
qed

lemma is_space_error [simp]: "\<not> is_space rune_error"
  by (simp add: is_space_def rune_error_def)

lemma decode_rune_narrow: "snd (decode_rune (map of_char s)) \<le> length s"
proof -
  have "snd (decode_rune bs) \<le> length bs" for bs
    by (induction bs rule: decode_rune.induct) (auto split: list.splits)
  from this [of "map of_char s"] show ?thesis by simp
qed

lemma decode_rune_prefix:
  "decode_rune (map of_char s) = (r, n) \<Longrightarrow> r \<noteq> rune_error \<Longrightarrow> decode_rune (map of_char (take n s)) = (r, n)"
proof -
  have "decode_rune (take n bs) = (r, n)" if "decode_rune bs = (r, n)" "r \<noteq> rune_error" for bs
    using that by (induction bs rule: decode_rune.induct)
      (auto simp: rune_error_def split: if_splits list.splits)
  then show "decode_rune (map of_char s) = (r, n) \<Longrightarrow> r \<noteq> rune_error \<Longrightarrow> ?thesis"
    by (metis take_map)
qed

lemma last_index_in_prefix:
  assumes "last_index_func f (take b s) = Some i" and "\<not> f rune_error"
  obtains r n where "decode_rune (map of_char (drop i s)) = (r, n)" and "f r" and "i + n \<le> b"
    and "i + n \<le> length s"
proof -
  from assms obtain r n where d: "decode_rune (map of_char (drop i (take b s))) = (r, n)"
    "f r" "i + n \<le> length (take b s)"
    by (rule last_index_func_decodes)
  from d(2) assms(2) have "r \<noteq> rune_error" by auto
  from decode_rune_extends [OF d(1) this, of "map of_char (drop b s)"]
  have "decode_rune (map of_char (drop i s)) = (r, n)"
    using d(3) last_index_func_lt [OF assms(1)]
    by (metis append_take_drop_id drop_append length_take min.bounded_iff min.absorb2 diff_is_0_eq
        drop0 less_imp_le_nat map_append nat_le_linear take_all)
  with d that show thesis by simp
qed

lemma cut_piece_le: "length (fst (cut_piece s b)) \<le> b"
proof (cases "last_index_func is_space (take b s)")
  case None
  then show ?thesis using back_to_start_le [of s b] by (simp add: cut_piece_def Let_def)
next
  case (Some i)
  then obtain r n where "decode_rune (map of_char (drop i s)) = (r, n)" "i + n \<le> b"
    by (rule last_index_in_prefix) simp
  with Some show ?thesis by (auto simp: cut_piece_def Let_def)
qed

end
