(* ===== verification/Utf8.thy ===== *)
theory Utf8
  imports SlackText
begin

section \<open>Text that is UTF-8\<close>

text \<open>
  The agent's text reaches the gateway as JSON, whose decoder leaves no invalid UTF-8: it is the
  encoding of a list of runes. The lemmas show that the cuts of \<open>SlackText\<close> fall between runes
  and are never empty on such a text.
\<close>

subsection \<open>Counting the runes of encoded text\<close>

lemma encode_rune_bytes: "b \<in> set (encode_rune r) \<Longrightarrow> b < 256"
  by (auto simp: encode_rune_def split: if_splits)

lemma encode_rune_decodes: "\<exists>r'. decode_rune (encode_rune r @ s) = (r', length (encode_rune r))"
proof -
  consider "r < 0x80" | "0x80 \<le> r" "r < 0x800" | "0xD800 \<le> r \<and> r \<le> 0xDFFF \<or> 0x10FFFF < r"
    | "0x800 \<le> r" "r < 0x10000" "\<not> (0xD800 \<le> r \<and> r \<le> 0xDFFF)" | "0x10000 \<le> r" "r \<le> 0x10FFFF"
    by linarith
  then show ?thesis
  proof cases
    case 2
    then have "2 \<le> r div 64" "r div 64 < 32" by (simp_all add: less_mult_imp_div_less div_le_mono [of 128 r 64, simplified])
    with 2 show ?thesis by (simp add: encode_rune_def is_cont_def)
  next
    case 4
    let ?a = "r div 4096" and ?b = "r div 64 mod 64"
    have b: "r div 64 = ?a * 64 + ?b" using div_mult2_eq [of r 64 64] by simp
    from 4 have "?a < 16" "32 \<le> r div 64" by (simp_all add: less_mult_imp_div_less div_le_mono [of 2048 r 64, simplified])
    moreover from 4 have "r div 64 \<le> 863 \<or> 896 \<le> r div 64" by linarith
    ultimately have "?a = 0 \<Longrightarrow> 32 \<le> ?b" "?a = 13 \<Longrightarrow> ?b \<le> 31" using b by (auto; linarith)+
    with 4 \<open>?a < 16\<close> show ?thesis by (auto simp: encode_rune_def is_cont_def)
  next
    case 5
    let ?a = "r div 262144" and ?b = "r div 4096 mod 64"
    have b: "r div 4096 = ?a * 64 + ?b" using div_mult2_eq [of r 4096 64] by simp
    from 5 have "?a \<le> 4" "16 \<le> r div 4096" "r div 4096 \<le> 271" by (linarith | simp)+
    with b have "?a = 0 \<Longrightarrow> 16 \<le> ?b" "?a = 4 \<Longrightarrow> ?b \<le> 15" by linarith+
    with 5 \<open>?a \<le> 4\<close> show ?thesis by (auto simp: encode_rune_def is_cont_def)
  qed (auto simp: encode_rune_def is_cont_def)
qed

lemma decode_bytes_encoded: "length (decode_bytes (encode_rune r @ s)) = Suc (length (decode_bytes s))"
proof -
  obtain r' where "decode_rune (encode_rune r @ s) = (r', length (encode_rune r))"
    using encode_rune_decodes by blast
  moreover have "encode_rune r \<noteq> []" by (simp add: encode_rune_def)
  ultimately show ?thesis by (subst decode_bytes.simps) simp
qed

lemma of_char_bytes: "\<forall>b \<in> set bs. b < 256 \<Longrightarrow> map of_char (map char_of bs :: char list) = (bs :: nat list)"
  by (induction bs) (simp_all add: of_char_of_small)

lemma count_runes_of_runes: "count_runes (of_runes rs @ s) = length rs + count_runes s"
proof (induction rs)
  case (Cons r rs)
  have "map of_char (of_runes (r # rs) @ s) = encode_rune r @ map of_char (of_runes rs @ s)"
    using of_char_bytes [of "encode_rune r"] by (auto simp: of_runes_def dest: encode_rune_bytes)
  then have "count_runes (of_runes (r # rs) @ s) = Suc (count_runes (of_runes rs @ s))"
    by (simp only: count_runes_def runes_of_def decode_bytes_encoded)
  with Cons show ?case by simp
qed (simp add: of_runes_def)

lemma count_runes_Nil [simp]: "count_runes [] = 0"
  by (simp add: count_runes_def runes_of_def decode_bytes.simps)

definition utf8 :: "string \<Rightarrow> bool" where
  "utf8 s \<longleftrightarrow> (\<exists>rs. s = of_runes rs)"

subsection \<open>Cuts are not empty\<close>

text \<open>
  UTF-8 has no four continuation bytes in a row. On a text with that property a cut is never empty,
  so cutting piece after piece comes to its end.
\<close>

definition well_encoded :: "string \<Rightarrow> bool" where
  "well_encoded s \<longleftrightarrow> (\<forall>i. i + 3 < length s \<longrightarrow> (\<exists>j < 4. rune_start (s ! (i + j))))"

lemma well_encoded_drop: "well_encoded s \<Longrightarrow> well_encoded (drop k s)"
  unfolding well_encoded_def
proof (intro allI impI)
  fix i
  assume "\<forall>i. i + 3 < length s \<longrightarrow> (\<exists>j<4. rune_start (s ! (i + j)))" and i: "i + 3 < length (drop k s)"
  then obtain j where "j < 4" "rune_start (s ! (k + i + j))" by force
  with i show "\<exists>j<4. rune_start (drop k s ! (i + j))" by (intro exI [of _ j]) (simp add: add.assoc)
qed

lemma back_to_start_pos: "rune_start (s ! j) \<Longrightarrow> 0 < j \<Longrightarrow> j \<le> i \<Longrightarrow> 0 < back_to_start s i"
  by (induction s i rule: back_to_start.induct) (auto simp: le_Suc_eq)

lemma cut_piece_nonempty:
  assumes "well_encoded s" and "s \<noteq> []" and "4 \<le> b"
  shows "fst (cut_piece s b) \<noteq> []"
proof (cases "length s \<le> b")
  case True
  with assms show ?thesis by (simp add: cut_piece_def)
next
  case long: False
  show ?thesis
  proof (cases "last_index_func is_space (take b s)")
    case None
    from assms(3) long have "1 + 3 < length s" by simp
    with assms(1) obtain j where "j < 4" "rune_start (s ! (1 + j))"
      unfolding well_encoded_def by blast
    with assms(3) have "0 < back_to_start s b" by (intro back_to_start_pos [of s "1 + j"]) auto
    with None long assms show ?thesis by (auto simp: cut_piece_def Let_def)
  next
    case (Some i)
    then have "i < b" "i < length s" using last_index_func_lt [OF Some] by auto
    then have "0 < snd (decode_rune (map of_char (drop i s)))" by (intro decode_rune_width) simp
    with Some long \<open>i < length s\<close> show ?thesis by (auto simp: cut_piece_def Let_def)
  qed
qed

lemma well_encoded_Nil [simp]: "well_encoded []"
  by (simp add: well_encoded_def)

lemma cut_piece_well_encoded: "well_encoded s \<Longrightarrow> well_encoded (snd (cut_piece s b))"
  by (auto simp: cut_piece_def Let_def well_encoded_drop split: option.splits)

subsection \<open>Cuts fall between runes\<close>

lemma of_runes_append: "of_runes (rs @ rs') = of_runes rs @ of_runes rs'"
  by (simp add: of_runes_def)

lemma of_runes_Cons: "of_runes (r # rs) = of_runes [r] @ of_runes rs"
  by (simp add: of_runes_def)

lemma of_runes_Nil [simp]: "of_runes [] = []"
  by (simp add: of_runes_def)

lemma utf8_Nil [simp, intro]: "utf8 []"
  unfolding utf8_def by (metis of_runes_Nil)

lemma utf8_of_runes [simp, intro]: "utf8 (of_runes rs)"
  by (auto simp: utf8_def)

lemma utf8_append [intro]: "utf8 s \<Longrightarrow> utf8 t \<Longrightarrow> utf8 (s @ t)"
  unfolding utf8_def by (metis of_runes_append)

lemma encoded_rune:
  "of_runes [r] \<noteq> [] \<and> length (of_runes [r]) \<le> 4 \<and> rune_start (hd (of_runes [r])) \<and>
   (\<forall>c \<in> set (tl (of_runes [r])). \<not> rune_start c)"
proof -
  have small: "0x80 + x mod 64 < 256" "0x80 + x mod 64 \<le> 0xBF" for x :: nat
    by (rule less_le_trans [of _ "0x80 + 64"]; simp) (use mod_less_divisor [of 64 x] in linarith)
  consider "r < 0x80" | "0x80 \<le> r" "r < 0x800" | "0xD800 \<le> r \<and> r \<le> 0xDFFF \<or> 0x10FFFF < r"
    | "0x800 \<le> r" "r < 0x10000" "\<not> (0xD800 \<le> r \<and> r \<le> 0xDFFF)" | "0x10000 \<le> r" "r \<le> 0x10FFFF"
    by linarith
  then show ?thesis
  proof cases
    case 2
    then have "r div 64 < 32" by (simp add: less_mult_imp_div_less)
    with 2 small show ?thesis
      by (simp add: of_runes_def encode_rune_def rune_start_def is_cont_def of_char_of_small)
  next
    case 4
    then have "r div 4096 < 16" by (simp add: less_mult_imp_div_less)
    with 4 small show ?thesis
      by (auto simp: of_runes_def encode_rune_def rune_start_def is_cont_def of_char_of_small)
  next
    case 5
    then have "r div 262144 < 5" by (simp add: less_mult_imp_div_less)
    with 5 small show ?thesis
      by (auto simp: of_runes_def encode_rune_def rune_start_def is_cont_def of_char_of_small)
  qed (auto simp: of_runes_def encode_rune_def rune_start_def is_cont_def of_char_of_small)
qed

text \<open>A place where a rune starts, or the end, splits the list of runes.\<close>

definition boundary :: "string \<Rightarrow> nat \<Rightarrow> bool" where
  "boundary s k \<longleftrightarrow> k \<le> length s \<and> (k < length s \<longrightarrow> rune_start (s ! k))"

lemma boundary_splits:
  "boundary (of_runes rs) k \<Longrightarrow> \<exists>i. take k (of_runes rs) = of_runes (take i rs) \<and> drop k (of_runes rs) = of_runes (drop i rs)"
proof (induction rs arbitrary: k)
  case (Cons r rs)
  let ?e = "of_runes [r]"
  have split: "of_runes (r # rs) = ?e @ of_runes rs" by (rule of_runes_Cons)
  have e: "?e \<noteq> []" "\<forall>c \<in> set (tl ?e). \<not> rune_start c" using encoded_rune by auto
  consider "k = 0" | "0 < k" "k < length ?e" | "length ?e \<le> k" by linarith
  then show ?case
  proof cases
    case 1
    then show ?thesis by (intro exI [of _ 0]) simp
  next
    case 2
    then have "of_runes (r # rs) ! k = tl ?e ! (k - 1)" unfolding split
      by (simp add: nth_append nth_tl)
    moreover from 2 have "tl ?e ! (k - 1) \<in> set (tl ?e)" by simp
    ultimately have False using Cons.prems 2 e unfolding boundary_def split by auto
    then show ?thesis ..
  next
    case 3
    with Cons.prems have "boundary (of_runes rs) (k - length ?e)"
      unfolding boundary_def split by (auto simp: nth_append)
    from Cons.IH [OF this] obtain i where
      "take (k - length ?e) (of_runes rs) = of_runes (take i rs)"
      "drop (k - length ?e) (of_runes rs) = of_runes (drop i rs)" by blast
    with 3 show ?thesis unfolding split
      by (intro exI [of _ "Suc i"]) (simp, metis of_runes_Cons)
  qed
qed (simp add: boundary_def)

lemma utf8_take: "utf8 s \<Longrightarrow> boundary s k \<Longrightarrow> utf8 (take k s)"
  and utf8_drop: "utf8 s \<Longrightarrow> boundary s k \<Longrightarrow> utf8 (drop k s)"
  unfolding utf8_def by (metis boundary_splits)+

lemma utf8_well_encoded: "utf8 s \<Longrightarrow> well_encoded s"
proof -
  have step: "well_encoded (s @ t)"
    if "well_encoded t" "t \<noteq> [] \<Longrightarrow> rune_start (hd t)" "length s \<le> 4" "s \<noteq> []" "rune_start (hd s)"
    for s t
    unfolding well_encoded_def
  proof (intro allI impI)
    fix i assume i: "i + 3 < length (s @ t)"
    have tail: "well_encoded t" by (rule that(1))
    consider "i = 0" | "0 < i" "i < length s" "t \<noteq> []" | "0 < i" "i < length s" "t = []" | "length s \<le> i"
      by linarith
    then show "\<exists>j<4. rune_start ((s @ t) ! (i + j))"
    proof cases
      case 1
      with that(4,5) show ?thesis by (intro exI [of _ 0]) (auto simp: hd_conv_nth nth_append)
    next
      case 2
      with that(2,3) show ?thesis
        by (intro exI [of _ "length s - i"]) (auto simp: hd_conv_nth nth_append)
    next
      case 3
      with i that(3) show ?thesis by simp
    next
      case 4
      with i have "i - length s + 3 < length t" by simp
      then obtain j where "j < 4" "rune_start (t ! (i - length s + j))"
        using tail unfolding well_encoded_def by blast
      with 4 show ?thesis by (intro exI [of _ j]) (simp add: nth_append)
    qed
  qed
  have "well_encoded (of_runes rs) \<and> (of_runes rs \<noteq> [] \<longrightarrow> rune_start (hd (of_runes rs)))" for rs
  proof (induction rs)
    case (Cons r rs)
    with step [of "of_runes rs" "of_runes [r]"] encoded_rune [of r]
    show ?case by (simp add: of_runes_Cons [of r rs])
  qed simp
  then show "utf8 s \<Longrightarrow> well_encoded s" by (auto simp: utf8_def)
qed

lemma back_to_start_boundary: "back_to_start s i = k \<Longrightarrow> 0 < k \<Longrightarrow> i < length s \<Longrightarrow> boundary s k"
  by (induction s i rule: back_to_start.induct) (auto simp: boundary_def split: if_splits)

lemma utf8_start: "utf8 s \<Longrightarrow> s \<noteq> [] \<Longrightarrow> rune_start (hd s)"
proof -
  assume "utf8 s" "s \<noteq> []"
  then obtain r rs where "s = of_runes (r # rs)" unfolding utf8_def by (metis neq_Nil_conv of_runes_Nil)
  then show ?thesis using encoded_rune [of r] by (simp add: of_runes_Cons [of r rs])
qed

text \<open>Where a rune other than U+FFFD is decoded, one starts.\<close>

lemma decoded_start:
  assumes "decode_rune (map of_char s) = (r, n)" and "r \<noteq> rune_error"
  shows "s \<noteq> [] \<and> rune_start (hd s)"
proof (cases s)
  case Nil
  with assms show ?thesis by simp
next
  case (Cons c s')
  with assms have "\<not> is_cont (of_char c)" by (auto simp: is_cont_def split: if_splits)
  with Cons show ?thesis by (simp add: rune_start_def)
qed

lemma decoded_boundary:
  assumes "utf8 s" and "i < length s" and "decode_rune (map of_char (drop i s)) = (r, n)" and "r \<noteq> rune_error"
  shows "boundary s i \<and> boundary s (i + n)"
proof -
  from decoded_start [OF assms(3,4)] assms(2) have start: "boundary s i"
    by (simp add: boundary_def hd_drop_conv_nth)
  from utf8_drop [OF assms(1) start] obtain rs where rs: "drop i s = of_runes rs" by (auto simp: utf8_def)
  with assms(2) obtain q qs where q: "rs = q # qs" by (cases rs) auto
  have e: "map of_char (drop i s) = encode_rune q @ map of_char (of_runes qs)"
    using of_char_bytes [of "encode_rune q"] unfolding rs q of_runes_Cons [of q qs]
    by (auto simp: of_runes_def dest: encode_rune_bytes)
  then have n: "n = length (encode_rune q)"
    using encode_rune_decodes [of q "map of_char (of_runes qs)"] assms(3) by auto
  then have d: "drop (i + n) s = of_runes qs" using rs q
    by (metis append_eq_conv_conj add.commute drop_drop of_runes_Cons of_runes_def length_map
        concat.simps list.simps(8,9) append_Nil2)
  have "i + n \<le> length s" using e n
    by (metis assms(2) add_diff_inverse_nat add_le_cancel_left le_add1 length_append length_drop
        length_map less_imp_le_nat linorder_not_less)
  with utf8_start [of "of_runes qs"] d show ?thesis
    using start by (auto simp: boundary_def) (metis Cons_nth_drop_Suc list.discI list.sel(1) utf8_of_runes)
qed

lemma last_space_boundary:
  assumes "utf8 s" and "last_index_func is_space (take b s) = Some i"
  shows "boundary s (i + snd (decode_rune (map of_char (drop i s))))"
proof -
  from assms(2) obtain r n where d: "decode_rune (map of_char (drop i s)) = (r, n)" "is_space r"
    by (rule last_index_in_prefix) simp
  from d(2) have "r \<noteq> rune_error" by auto
  from decoded_boundary [OF assms(1) _ d(1) this] last_index_func_lt [OF assms(2)] d(1)
  show ?thesis by simp
qed

lemma back_boundary: "b < length s \<Longrightarrow> boundary s (back_to_start s b) \<or> back_to_start s b = 0"
  using back_to_start_boundary [of s b] by auto

lemma cut_piece_utf8: "utf8 s \<Longrightarrow> utf8 (fst (cut_piece s b)) \<and> utf8 (snd (cut_piece s b))"
proof (cases "length s \<le> b")
  case False
  assume u: "utf8 s"
  show ?thesis
  proof (cases "last_index_func is_space (take b s)")
    case None
    then show ?thesis using back_boundary [of b s] False u
      by (auto simp: cut_piece_def Let_def utf8_take utf8_drop)
  next
    case (Some i)
    with last_space_boundary [OF u Some] False u show ?thesis
      by (simp add: cut_piece_def Let_def utf8_take utf8_drop)
  qed
qed (simp add: cut_piece_def)

lemma cut_piece_progress: "utf8 s \<Longrightarrow> s \<noteq> [] \<Longrightarrow> 4 \<le> b \<Longrightarrow> fst (cut_piece s b) \<noteq> []"
  by (intro cut_piece_nonempty utf8_well_encoded)

subsection \<open>The last rune, trimming and lines\<close>

lemma decode_last_encoded:
  assumes "s = t @ of_runes [r]"
  shows "snd (decode_last_rune s) = length (of_runes [r])"
proof -
  let ?e = "of_runes [r]"
  obtain c cs where e: "?e = c # cs" using encoded_rune [of r] by (metis neq_Nil_conv)
  have start: "rune_start c" "\<forall>d \<in> set cs. \<not> rune_start d" "length cs \<le> 3"
    using encoded_rune [of r] e by auto
  show ?thesis
  proof (cases "of_char (last s) < (0x80 :: nat)")
    case True
    have "cs = []"
    proof (rule ccontr)
      assume "cs \<noteq> []"
      then have "last s \<in> set cs" using assms e by simp
      with start(2) True show False by (auto simp: rune_start_def is_cont_def)
    qed
    with True assms e show ?thesis by (simp add: decode_last_rune_def)
  next
    case False
    have "cs \<noteq> []"
    proof
      assume "cs = []"
      then have "length (encode_rune r) = 1" using e by (metis One_nat_def length_Cons length_map list.size(3)
            of_runes_def list.simps(8,9) concat.simps append_Nil2)
      then have "r < 0x80" by (auto simp: encode_rune_def split: if_splits)
      then have "last s = char_of r" using assms by (simp add: of_runes_def encode_rune_def)
      with \<open>r < 0x80\<close> False show False by (simp add: of_char_of_small)
    qed
    then obtain ds d where cs: "cs = ds @ [d]" by (metis rev_exhaust)
    have s: "s = t @ c # ds @ [d]" using assms e cs by simp
    obtain k where "3 - length ds = Suc k" using start(3) cs by (cases "3 - length ds") auto
    then have "take 3 (rev ds @ c # rev t) = rev ds @ c # take k (rev t)" using start(3) cs by simp
    then have "takeWhile (\<lambda>c. \<not> rune_start c) (take 3 (rev ds @ c # rev t)) = rev ds"
      using start cs by (simp add: takeWhile_append)
    then have k: "last_rune_start s = length t" using s start(3) cs
      by (simp add: last_rune_start_def)
    have "map of_char ?e = encode_rune r"
      using of_char_bytes [of "encode_rune r"] by (auto simp: of_runes_def dest: encode_rune_bytes)
    then obtain r' where "decode_rune (map of_char (drop (last_rune_start s) s)) = (r', length ?e)"
      using encode_rune_decodes [of r "[]"] assms k by (metis append_Nil2 append_eq_conv_conj length_map)
    with False assms k e show ?thesis by (simp add: decode_last_rune_def Let_def)
  qed
qed

lemma last_index_func_splits:
  "last_index_func f (of_runes rs) = Some i \<Longrightarrow>
   \<exists>pre q post. rs = pre @ q # post \<and> i = length (of_runes pre)"
proof (induction rs arbitrary: i rule: rev_induct)
  case Nil
  then show ?case by (simp add: last_index_func.simps)
next
  case (snoc q rs)
  let ?s = "of_runes (rs @ [q])"
  have s: "?s = of_runes rs @ of_runes [q]" by (rule of_runes_append)
  have ne: "?s \<noteq> []" using encoded_rune [of q] s by simp
  obtain r n where d: "decode_last_rune ?s = (r, n)" by fastforce
  from decode_last_encoded [OF s] d have n: "n = length (of_runes [q])" by simp
  have eq: "last_index_func f ?s =
      (if f r then Some (length ?s - n) else last_index_func f (take (length ?s - n) ?s))"
    using ne d by (subst last_index_func.simps) (simp add: Let_def)
  have k: "length ?s - n = length (of_runes rs)" using n s by simp
  then have t: "take (length ?s - n) ?s = of_runes rs" using s by simp
  show ?case
  proof (cases "f r")
    case True
    with snoc.prems eq k have "i = length (of_runes rs)" by simp
    then show ?thesis by blast
  next
    case False
    with snoc.prems eq t have "last_index_func f (of_runes rs) = Some i" by simp
    from snoc.IH [OF this] obtain pre p post where "rs = pre @ p # post" "i = length (of_runes pre)" by blast
    then show ?thesis by (intro exI [of _ pre] exI [of _ p] exI [of _ "post @ [q]"]) simp
  qed
qed

lemma decode_encoded_width:
  "snd (decode_rune (map of_char (of_runes (q # post)))) = length (of_runes [q])"
proof -
  have e: "map of_char (of_runes [q]) = encode_rune q"
    using of_char_bytes [of "encode_rune q"] by (auto simp: of_runes_def dest: encode_rune_bytes)
  then have "length (of_runes [q]) = length (encode_rune q)" by (metis length_map)
  with e encode_rune_decodes [of q "map of_char (of_runes post)"] show ?thesis
    by (auto simp: of_runes_Cons [of q post])
qed

lemma last_index_func_utf8:
  assumes "utf8 s" and "last_index_func f s = Some i"
  shows "utf8 (take (i + snd (decode_rune (map of_char (drop i s)))) s)"
proof -
  from assms obtain rs where rs: "s = of_runes rs" by (auto simp: utf8_def)
  from last_index_func_splits [OF assms(2) [unfolded rs]] obtain pre q post
    where "rs = pre @ q # post" "i = length (of_runes pre)" by blast
  with rs decode_encoded_width [of q post] have "take (i + snd (decode_rune (map of_char (drop i s)))) s
      = of_runes (pre @ [q])"
    by (simp add: of_runes_append of_runes_Cons [of q post])
  then show ?thesis by simp
qed

lemma trim_left_utf8: "utf8 s \<Longrightarrow> utf8 (trim_left_space s)"
proof (induction s rule: trim_left_space.induct)
  case (1 s)
  obtain r n where d: "decode_rune (map of_char s) = (r, n)" by fastforce
  show ?case
  proof (cases "s \<noteq> [] \<and> is_space r")
    case False
    with d "1.prems" show ?thesis by (subst trim_left_space.simps) auto
  next
    case True
    then have "r \<noteq> rune_error" by auto
    with decoded_boundary [OF "1.prems", of 0 r n] d True have "boundary s n" by simp
    from "1.IH" [OF _ d [symmetric] refl _ utf8_drop [OF "1.prems" this]] True
    have "utf8 (trim_left_space (drop n s))" by simp
    with d True show ?thesis by (subst trim_left_space.simps) simp
  qed
qed

lemma trim_space_utf8: "utf8 s \<Longrightarrow> utf8 (trim_space_bytes s)"
  using last_index_func_utf8 [OF trim_left_utf8]
  by (auto simp: trim_space_bytes_def trim_right_space_def split: option.splits)

text \<open>A line ends between runes, and so does a cut at \<open>m \<ge> 4\<close> bytes.\<close>

lemma ascii_boundary:
  assumes "utf8 s" and "i < length s" and "of_char (s ! i) < (0x80 :: nat)"
  shows "boundary s (Suc i)"
proof -
  have "decode_rune (map of_char (drop i s)) = (of_char (s ! i), 1)"
    using assms(2,3) by (simp add: Cons_nth_drop_Suc [symmetric])
  with decoded_boundary [OF assms(1,2) this] assms(3) show ?thesis by (simp add: rune_error_def)
qed

lemma back_to_start_utf8:
  assumes "utf8 s" and "4 \<le> b" and "b < length s"
  shows "0 < back_to_start s b \<and> boundary s (back_to_start s b)"
proof -
  have "1 + 3 < length s" using assms by simp
  with utf8_well_encoded [OF assms(1)] obtain j where "j < 4" "rune_start (s ! (1 + j))"
    unfolding well_encoded_def by blast
  with assms(2) have "0 < back_to_start s b" by (intro back_to_start_pos [of s "1 + j"]) auto
  with back_boundary [OF assms(3)] show ?thesis by auto
qed

lemma last_index_char_nth: "last_index_char c s = Some i \<Longrightarrow> s ! i = c"
proof -
  assume a: "last_index_char c s = Some i"
  then have c: "c \<in> set s" by (auto simp: last_index_char_def split: if_splits)
  then obtain ys zs where r: "rev s = ys @ c # zs" "c \<notin> set ys" by (metis set_rev split_list_first)
  then have "takeWhile (\<lambda>d. d \<noteq> c) (rev s) = ys" by (auto simp: takeWhile_append)
  with a c have i: "i = length s - 1 - length ys" by (simp add: last_index_char_def)
  have "s = rev zs @ c # rev ys" using r(1) by (metis rev_rev_ident rev_append rev.simps(2) append.assoc append_Cons append_Nil)
  with i show ?thesis by (simp add: nth_append)
qed

lemma line_cut_boundary:
  assumes "utf8 s" and "4 \<le> m" and "m < length s"
  shows "boundary s (line_cut s m)"
proof (cases "last_index_char newline (take m s)")
  case None
  with back_to_start_utf8 [OF assms] show ?thesis by (simp add: line_cut_def Let_def)
next
  case (Some i)
  from last_index_char_lt [OF Some] have i: "i < m" "i < length s" using assms(3) by auto
  from last_index_char_nth [OF Some] i have "s ! i = newline" by simp
  with ascii_boundary [OF assms(1) i(2)] have "boundary s (Suc i)" by simp
  with Some back_to_start_utf8 [OF assms] show ?thesis by (simp add: line_cut_def Let_def)
qed

lemma split_at_lines_utf8:
  "utf8 s \<Longrightarrow> 4 \<le> m \<Longrightarrow> split_at_lines s m = Some cs \<Longrightarrow> c \<in> set cs \<Longrightarrow> utf8 c"
proof (induction s arbitrary: cs rule: length_induct)
  case (1 s)
  show ?case
  proof (cases "m < length s")
    case False
    with "1.prems" split_at_lines.simps [of s m] show ?thesis by (auto split: if_splits)
  next
    case True
    let ?k = "line_cut s m"
    have b: "boundary s ?k" by (rule line_cut_boundary [OF "1.prems"(1,2) True])
    from True "1.prems"(2) have "s \<noteq> []" "0 < ?k" by (auto simp: line_cut_pos)
    with True "1.prems"(3) obtain ds where ds: "split_at_lines (drop ?k s) m = Some ds" "cs = take ?k s # ds"
      using split_at_lines.simps [of s m] by (auto split: bind_splits)
    from \<open>s \<noteq> []\<close> \<open>0 < ?k\<close> have "length (drop ?k s) < length s" by simp
    with "1.IH" "1.prems"(2) ds(1) utf8_drop [OF "1.prems"(1) b] have "c \<in> set ds \<Longrightarrow> utf8 c" by blast
    with "1.prems"(4) ds(2) utf8_take [OF "1.prems"(1) b] show ?thesis by auto
  qed
qed

end
