(* ===== verification/Mrkdwn.thy ===== *)
theory Mrkdwn
  imports Utf8
begin

section \<open>Splitting Markdown and escaping mrkdwn\<close>

text \<open>
  \<open>splitMarkdown\<close> of \<open>pkg/channels/slack/mrkdwn.go\<close> as a fold over the text's lines: its
  local variables are the record \<open>md_state\<close>, its closures \<open>closeFence\<close> and \<open>emit\<close> are
  functions, its loop body is \<open>md_line\<close>. The lemmas show that no chunk exceeds the limit, that
  the split returns, and that a text without a fence comes back whole; the last section holds
  what escaping guarantees.
\<close>

record md_state =
  md_chunks :: "string list"
  md_buf :: string
  md_in_fence :: bool
  md_fence_open :: string
  md_buf_open :: bool

text \<open>\<open>strings.Lines\<close>: each line with its newline; the last one may lack it.\<close>

fun go_lines :: "string \<Rightarrow> string list" where
  "go_lines [] = []"
| "go_lines (c # s) =
     (if c = newline then [c] # go_lines s
      else case go_lines s of [] \<Rightarrow> [[c]] | l # ls \<Rightarrow> (c # l) # ls)"

definition fence :: string where
  "fence = ''```''"

definition close_fence :: "string \<Rightarrow> string" where
  "close_fence s = (if has_suffix s [newline] then s else s @ [newline]) @ fence"

definition is_fence_line :: "string \<Rightarrow> bool" where
  "is_fence_line line \<longleftrightarrow> has_prefix (dropWhile (\<lambda>c. c = CHR '' '' \<or> c = CHR 0x09) line) fence"

definition md_emit :: "md_state \<Rightarrow> md_state" where
  "md_emit st =
     (if md_buf st = [] then st
      else let s = md_buf st; st' = st\<lparr>md_buf := [], md_buf_open := False\<rparr>
           in if md_in_fence st \<and> s = md_fence_open st then st'
              else st'\<lparr>md_chunks := md_chunks st @
                [if md_in_fence st \<and> md_buf_open st then close_fence s else s]\<rparr>)"

definition md_toggle :: "string \<Rightarrow> md_state \<Rightarrow> md_state" where
  "md_toggle line st =
     (if md_in_fence st then st\<lparr>md_in_fence := False, md_fence_open := []\<rparr>
      else st\<lparr>md_in_fence := True, md_fence_open := line\<rparr>)"

definition reopen_viable :: "nat \<Rightarrow> md_state \<Rightarrow> bool" where
  "reopen_viable m st \<longleftrightarrow> \<not> md_in_fence st \<or> length (md_fence_open st) + 4 < m"

definition md_budget :: "nat \<Rightarrow> md_state \<Rightarrow> nat" where
  "md_budget m st =
     (if md_in_fence st \<and> reopen_viable m st then m - length (md_fence_open st) - 4 else m)"

definition md_hard :: "nat \<Rightarrow> string \<Rightarrow> md_state \<Rightarrow> md_state option" where
  "md_hard m line st =
     (let viable = reopen_viable m st; st1 = md_emit st in do {
        pieces \<leftarrow> split_at_lines line (md_budget m st);
        let st2 = st1\<lparr>md_chunks := md_chunks st1 @
          map (\<lambda>piece. if md_in_fence st \<and> viable then close_fence (md_fence_open st @ piece) else piece)
            pieces\<rparr>;
        Some (if is_fence_line line then md_toggle line st2 else st2)
      })"

definition md_overhead :: "nat \<Rightarrow> string \<Rightarrow> md_state \<Rightarrow> nat" where
  "md_overhead m line st =
     (if md_in_fence st \<and> md_buf_open st then 4
      else if md_in_fence st \<and> md_buf st = [] \<and> reopen_viable m st then length (md_fence_open st) + 4
      else if \<not> md_in_fence st \<and> is_fence_line line then 4
      else 0)"

text \<open>The line goes onto the buffer, behind the reopened fence when the buffer is fresh.\<close>

definition md_push :: "nat \<Rightarrow> string \<Rightarrow> md_state \<Rightarrow> md_state" where
  "md_push m line st =
     (let st1 = (if md_in_fence st \<and> md_buf st = [] \<and> reopen_viable m st
                 then st\<lparr>md_buf := md_fence_open st, md_buf_open := True\<rparr> else st);
          st2 = (if is_fence_line line
                 then (md_toggle line st1)\<lparr>md_buf_open := \<not> md_in_fence st\<rparr> else st1)
      in st2\<lparr>md_buf := md_buf st2 @ line\<rparr>)"

definition md_append :: "nat \<Rightarrow> string \<Rightarrow> md_state \<Rightarrow> md_state" where
  "md_append m line st =
     md_push m line
       (if md_buf st \<noteq> [] \<and> length (md_buf st) + length line + md_overhead m line st > m
        then md_emit st else st)"

definition md_line :: "nat \<Rightarrow> string \<Rightarrow> md_state \<Rightarrow> md_state option" where
  "md_line m line st =
     (if length line > md_budget m st then md_hard m line st else Some (md_append m line st))"

fun md_lines :: "nat \<Rightarrow> string list \<Rightarrow> md_state \<Rightarrow> md_state option" where
  "md_lines m [] st = Some st"
| "md_lines m (l # ls) st = do { st' \<leftarrow> md_line m l st; md_lines m ls st' }"

definition md_start :: md_state where
  "md_start = \<lparr>md_chunks = [], md_buf = [], md_in_fence = False, md_fence_open = [], md_buf_open = False\<rparr>"

definition split_markdown :: "string \<Rightarrow> nat \<Rightarrow> string list option" where
  "split_markdown s m = do {
     st \<leftarrow> md_lines m (go_lines s) md_start;
     let chunks = md_chunks (md_emit st);
     Some (if chunks = [] then [[]] else chunks)
   }"

subsection \<open>No chunk exceeds the limit\<close>

text \<open>
  An open fence leaves room for its closing line, unless the buffer is the opening line alone,
  which is dropped and never closed.
\<close>

definition md_ok :: "nat \<Rightarrow> md_state \<Rightarrow> bool" where
  "md_ok m st \<longleftrightarrow>
     (\<forall>c \<in> set (md_chunks st). length c \<le> m) \<and> length (md_buf st) \<le> m \<and>
     (md_buf_open st \<longrightarrow> md_in_fence st \<and>
       (md_buf st = md_fence_open st \<or> length (md_buf st) + 4 \<le> m)) \<and>
     (md_buf st = [] \<longrightarrow> \<not> md_buf_open st) \<and> (md_in_fence st \<longrightarrow> md_fence_open st \<noteq> [])"

lemma close_fence_le: "length (close_fence s) \<le> length s + 4"
  by (simp add: close_fence_def fence_def)

lemma md_emit_ok: "md_ok m st \<Longrightarrow> md_ok m (md_emit st)"
  using close_fence_le [of "md_buf st"] by (auto simp: md_ok_def md_emit_def Let_def)

lemma md_emit_buf [simp]: "md_buf (md_emit st) = []"
  by (simp add: md_emit_def Let_def)

lemma md_emit_fence [simp]:
  "md_in_fence (md_emit st) = md_in_fence st" "md_fence_open (md_emit st) = md_fence_open st"
  by (simp_all add: md_emit_def Let_def)

lemma is_fence_line_nonempty: "is_fence_line line \<Longrightarrow> line \<noteq> []"
  by (auto simp: is_fence_line_def has_prefix_def fence_def)

lemma go_lines_concat: "concat (go_lines s) = s"
  by (induction s) (auto split: list.splits)

lemma go_lines_nonempty: "l \<in> set (go_lines s) \<Longrightarrow> l \<noteq> []"
  by (induction s arbitrary: l) (auto split: list.splits if_splits)

lemma md_emit_closed: "md_ok m st \<Longrightarrow> \<not> md_buf_open (md_emit st)"
  by (simp add: md_ok_def md_emit_def Let_def)

lemma md_hard_ok:
  assumes "md_ok m st" and "0 < m" and "line \<noteq> []"
  shows "\<exists>st'. md_hard m line st = Some st' \<and> md_ok m st'"
proof -
  let ?b = "md_budget m st"
  have "0 < ?b" using assms(2) by (auto simp: md_budget_def reopen_viable_def)
  then obtain ps where ps: "split_at_lines line ?b = Some ps" "\<And>c. c \<in> set ps \<Longrightarrow> length c \<le> ?b"
    by (rule split_at_lines_returns) blast
  have "length (close_fence (md_fence_open st @ p)) \<le> m"
    if "p \<in> set ps" and "md_in_fence st" and "reopen_viable m st" for p
    using ps(2) [OF that(1)] that(2,3) close_fence_le [of "md_fence_open st @ p"]
    by (simp add: md_budget_def reopen_viable_def)
  moreover have "length p \<le> m" if "p \<in> set ps" for p
    using ps(2) [OF that] by (simp add: md_budget_def split: if_splits)
  ultimately show ?thesis
    using md_emit_ok [OF assms(1)] md_emit_closed [OF assms(1)] assms(3) ps(1)
    by (auto simp: md_hard_def Let_def md_ok_def md_toggle_def)
qed

lemma md_push_fresh:
  assumes "md_ok m st" and "md_buf st = []" and "length line \<le> md_budget m st" and "line \<noteq> []"
  shows "md_ok m (md_push m line st)"
  using assms
  by (cases "md_in_fence st"; cases "reopen_viable m st"; cases "is_fence_line line")
    (auto simp: md_ok_def md_push_def md_toggle_def md_budget_def reopen_viable_def Let_def)

lemma md_push_more:
  assumes "md_ok m st" and "md_buf st \<noteq> []" and "line \<noteq> []"
    and "length (md_buf st) + length line + md_overhead m line st \<le> m"
  shows "md_ok m (md_push m line st)"
  using assms
  by (cases "md_in_fence st"; cases "md_buf_open st"; cases "is_fence_line line")
    (auto simp: md_ok_def md_push_def md_toggle_def md_overhead_def Let_def)

lemma md_append_ok:
  assumes "md_ok m st" and "length line \<le> md_budget m st" and "line \<noteq> []"
  shows "md_ok m (md_append m line st)"
proof -
  have "md_budget m (md_emit st) = md_budget m st" by (simp add: md_budget_def reopen_viable_def)
  with assms show ?thesis
    using md_push_fresh [OF md_emit_ok [OF assms(1)]] md_push_fresh [OF assms(1)] md_push_more [OF assms(1)]
    by (cases "md_buf st = []") (auto simp: md_append_def not_less)
qed

lemma md_lines_ok:
  assumes "0 < m"
  shows "md_ok m st \<Longrightarrow> \<forall>l \<in> set ls. l \<noteq> [] \<Longrightarrow> \<exists>st'. md_lines m ls st = Some st' \<and> md_ok m st'"
proof (induction ls arbitrary: st)
  case (Cons l ls)
  from Cons.prems have "md_ok m st" "l \<noteq> []" by simp_all
  then have "\<exists>st'. md_line m l st = Some st' \<and> md_ok m st'"
    using md_hard_ok [OF _ assms, of st l] md_append_ok [of m st l]
    by (cases "md_budget m st < length l") (simp_all add: md_line_def not_less)
  then obtain st' where st': "md_line m l st = Some st'" "md_ok m st'" by blast
  from Cons.prems(2) have "\<forall>l \<in> set ls. l \<noteq> []" by simp
  from Cons.IH [OF st'(2) this] st'(1) show ?case by simp
qed simp

lemma md_start_ok: "md_ok m md_start"
  by (simp add: md_ok_def md_start_def)

theorem split_markdown_bounded:
  assumes "0 < m"
  shows "\<exists>cs. split_markdown s m = Some cs \<and> cs \<noteq> [] \<and> (\<forall>c \<in> set cs. length c \<le> m)"
proof -
  have "\<forall>l \<in> set (go_lines s). l \<noteq> []" using go_lines_nonempty by blast
  from md_lines_ok [OF assms md_start_ok this] obtain st
    where st: "md_lines m (go_lines s) md_start = Some st" "md_ok m st" by blast
  from md_emit_ok [OF st(2)] have "\<forall>c \<in> set (md_chunks (md_emit st)). length c \<le> m"
    by (simp add: md_ok_def)
  with st(1) show ?thesis by (auto simp: split_markdown_def Let_def)
qed

subsection \<open>A text without a fence comes back whole\<close>

definition fence_free :: "string \<Rightarrow> bool" where
  "fence_free s \<longleftrightarrow> (\<forall>l \<in> set (go_lines s). \<not> is_fence_line l)"

lemma md_line_plain:
  assumes "0 < m" and "\<not> is_fence_line l" and "l \<noteq> []"
    and "\<not> md_in_fence st" and "\<not> md_buf_open st"
  obtains st' where "md_line m l st = Some st'" and "\<not> md_in_fence st'" and "\<not> md_buf_open st'"
    and "concat (md_chunks st') @ md_buf st' = concat (md_chunks st) @ md_buf st @ l"
proof (cases "length l > md_budget m st")
  case True
  obtain ps where "split_at_lines l m = Some ps" "concat ps = l"
    using split_at_lines_returns [OF assms(1)] by metis
  with True assms that show thesis
    by (auto simp: md_line_def md_hard_def md_budget_def md_emit_def Let_def)
next
  case False
  with assms that show thesis
    by (auto simp: md_line_def md_append_def md_push_def md_emit_def Let_def)
qed

lemma md_lines_plain:
  assumes "0 < m"
  shows "\<forall>l \<in> set ls. l \<noteq> [] \<and> \<not> is_fence_line l \<Longrightarrow> \<not> md_in_fence st \<Longrightarrow> \<not> md_buf_open st \<Longrightarrow>
    \<exists>st'. md_lines m ls st = Some st' \<and> \<not> md_in_fence st' \<and>
      concat (md_chunks st') @ md_buf st' = concat (md_chunks st) @ md_buf st @ concat ls"
proof (induction ls arbitrary: st)
  case (Cons l ls)
  from Cons.prems obtain st' where "md_line m l st = Some st'" "\<not> md_in_fence st'" "\<not> md_buf_open st'"
    "concat (md_chunks st') @ md_buf st' = concat (md_chunks st) @ md_buf st @ l"
    using md_line_plain [OF assms, of l st] by (metis list.set_intros(1))
  with Cons.IH [of st'] Cons.prems show ?case by (metis append.assoc bind.bind_lunit concat.simps(2)
      list.set_intros(2) md_lines.simps(2))
qed simp

lemma split_markdown_plain:
  assumes "0 < m" and "fence_free s"
  shows "\<exists>cs. split_markdown s m = Some cs \<and> concat cs = s"
proof -
  obtain st where st: "md_lines m (go_lines s) md_start = Some st" "\<not> md_in_fence st"
    "concat (md_chunks st) @ md_buf st = s"
    using md_lines_plain [OF assms(1), of "go_lines s" md_start] assms(2) go_lines_nonempty
    by (auto simp: fence_free_def md_start_def go_lines_concat)
  then have "concat (md_chunks (md_emit st)) = s" by (auto simp: md_emit_def Let_def)
  with st show ?thesis by (auto simp: split_markdown_def Let_def)
qed

subsection \<open>Escaped text\<close>

definition mrkdwn_char :: "char \<Rightarrow> string" where
  "mrkdwn_char c =
     (if c = CHR ''&'' then ''&amp;'' else if c = CHR ''<'' then ''&lt;''
      else if c = CHR ''>'' then ''&gt;'' else [c])"

lemma escape_by_char: "escape_mrkdwn s = concat (map mrkdwn_char s)"
  by (induction s) (auto simp: escape_mrkdwn_def replace_all_char mrkdwn_char_def)

lemma escape_no_control: "CHR ''<'' \<notin> set (escape_mrkdwn s) \<and> CHR ''>'' \<notin> set (escape_mrkdwn s)"
  by (auto simp: escape_by_char mrkdwn_char_def split: if_splits)

lemma mrkdwn_char_prefix_free:
  "mrkdwn_char c @ t = mrkdwn_char d @ u \<Longrightarrow> c = d \<and> t = u"
  by (auto simp: mrkdwn_char_def split: if_splits)

lemma escape_injective: "escape_mrkdwn s = escape_mrkdwn t \<Longrightarrow> s = t"
proof (induction s arbitrary: t)
  case Nil
  then show ?case by (cases t) (auto simp: escape_by_char mrkdwn_char_def split: if_splits)
next
  case (Cons c s)
  then obtain d t' where t: "t = d # t'"
    by (cases t) (auto simp: escape_by_char mrkdwn_char_def split: if_splits)
  with Cons.prems have "mrkdwn_char c @ escape_mrkdwn s = mrkdwn_char d @ escape_mrkdwn t'"
    by (simp add: escape_by_char)
  from mrkdwn_char_prefix_free [OF this] Cons.IH t show ?case by blast
qed

lemma code_span_one_line: "CHR ''`'' \<notin> set (code_span_safe s) \<and> newline \<notin> set (code_span_safe s)"
  by (auto simp: code_span_safe_def replace_all_char split: if_splits)

subsection \<open>Text cut to a number of runes\<close>

lemma of_runes_ascii: "\<forall>c \<in> set s. of_char c < (0x80 :: nat) \<Longrightarrow> of_runes (map of_char s) = s"
  by (induction s) (auto simp: of_runes_def encode_rune_def)

lemma escape_is_runes: "\<exists>rs. escape_mrkdwn (of_runes [r]) = of_runes rs"
proof (cases "r < 0x80")
  case True
  then have c: "of_runes [r] = [char_of r]" by (simp add: of_runes_def encode_rune_def)
  have "escape_mrkdwn [char_of r] = of_runes (map of_char (mrkdwn_char (char_of r)))"
    using True
    by (simp add: escape_by_char, intro of_runes_ascii [symmetric])
      (auto simp: mrkdwn_char_def of_char_of_small)
  with c show ?thesis by auto
next
  case False
  then have "b \<in> set (encode_rune r) \<Longrightarrow> 0x80 \<le> b" for b
    by (auto simp: encode_rune_def split: if_splits)
  have "mrkdwn_char (char_of b) = [char_of b]" if "b \<in> set (encode_rune r)" for b
  proof -
    have b: "of_char (char_of b :: char) = b" using encode_rune_bytes [OF that] by (rule of_char_of_small)
    have "(of_char (char_of b :: char) :: nat) \<notin> {38, 60, 62}"
      using \<open>\<And>b. b \<in> set (encode_rune r) \<Longrightarrow> 0x80 \<le> b\<close> [OF that] unfolding b by auto
    then show ?thesis by (auto simp only: mrkdwn_char_def split: if_splits) simp_all
  qed
  then have "escape_mrkdwn (of_runes [r]) = of_runes [r]"
    by (simp add: escape_by_char of_runes_def comp_def cong: map_cong)
  then show ?thesis by auto
qed

lemma capped_from_runes:
  "0 \<le> left \<Longrightarrow> \<exists>rs. capped_from left rs' = of_runes rs \<and> int (length rs) \<le> left"
proof (induction left rs' rule: capped_from.induct)
  case (1 left)
  then show ?case by (intro exI [of _ "[]"]) (simp add: of_runes_def)
next
  case (2 left r rs')
  obtain e where e: "escape_mrkdwn (of_runes [r]) = of_runes e" using escape_is_runes by blast
  have n: "count_runes (of_runes e) = length e" using count_runes_of_runes [of e "[]"] by simp
  show ?case
  proof (cases "int (length e) > left")
    case True
    with e n 2 show ?thesis by (intro exI [of _ "[]"]) (simp add: of_runes_def)
  next
    case False
    with "2.IH" [OF refl] e n obtain rs where "capped_from (left - int (length e)) rs' = of_runes rs"
      "int (length rs) \<le> left - int (length e)" by auto
    with False e n show ?thesis by (intro exI [of _ "e @ rs"]) (auto simp: of_runes_def Let_def)
  qed
qed

theorem escape_capped_fits:
  "0 < mx \<Longrightarrow> int (count_runes (escape_mrkdwn_capped s mx)) \<le> mx"
proof -
  assume "0 < mx"
  then obtain rs where "capped_from (mx - 1) (runes_of s) = of_runes rs" "int (length rs) \<le> mx - 1"
    using capped_from_runes [of "mx - 1" "runes_of s"] by auto
  then show ?thesis
    using count_runes_of_runes [of "rs" ellipsis] count_runes_of_runes [of "[0x2026]" "[]"]
    by (auto simp: escape_mrkdwn_capped_def ellipsis_def)
qed

lemma truncate_runes_fits: "0 < mx \<Longrightarrow> count_runes (truncate_runes s mx) \<le> mx"
  using count_runes_of_runes [of "take (mx - 1) (runes_of s)" ellipsis]
    count_runes_of_runes [of "[0x2026]" "[]"]
  by (auto simp: truncate_runes_def ellipsis_def)

subsection \<open>The chunks are UTF-8\<close>

text \<open>
  Inside a fence the budget is what the fence's opening line leaves, so a cut between runes needs
  that line to leave at least four bytes.
\<close>

definition short_fences :: "nat \<Rightarrow> string \<Rightarrow> bool" where
  "short_fences m s \<longleftrightarrow> (\<forall>l \<in> set (go_lines s). is_fence_line l \<longrightarrow> length l + 8 \<le> m)"

definition md_utf8 :: "nat \<Rightarrow> md_state \<Rightarrow> bool" where
  "md_utf8 m st \<longleftrightarrow>
     (\<forall>c \<in> set (md_chunks st). utf8 c) \<and> utf8 (md_buf st) \<and> utf8 (md_fence_open st) \<and>
     (md_in_fence st \<longrightarrow> length (md_fence_open st) + 8 \<le> m)"

lemma utf8_ascii: "\<forall>c \<in> set s. of_char c < (0x80 :: nat) \<Longrightarrow> utf8 s"
  using of_runes_ascii [of s] by (metis utf8_of_runes)

lemma close_fence_utf8: "utf8 s \<Longrightarrow> utf8 (close_fence s)"
proof -
  assume "utf8 s"
  have "utf8 fence" "utf8 [newline]" by (rule utf8_ascii; simp add: fence_def)+
  then have "utf8 (s @ [newline] @ fence)" "utf8 (s @ fence)" using \<open>utf8 s\<close> by blast+
  then show ?thesis by (simp add: close_fence_def)
qed

lemma md_emit_utf8: "md_utf8 m st \<Longrightarrow> md_utf8 m (md_emit st)"
  by (auto simp: md_utf8_def md_emit_def Let_def close_fence_utf8)

lemma md_line_utf8:
  assumes "md_utf8 m st" and "utf8 l" and "is_fence_line l \<Longrightarrow> length l + 8 \<le> m" and "8 \<le> m"
    and "md_line m l st = Some st'"
  shows "md_utf8 m st'"
proof (cases "length l > md_budget m st")
  case False
  with assms(5) have st': "st' = md_append m l st" by (simp add: md_line_def)
  have "md_utf8 m (md_push m l s)" if "md_utf8 m s" for s
    using that assms(2,3) by (auto simp: md_utf8_def md_push_def md_toggle_def Let_def)
  with md_emit_utf8 [OF assms(1)] assms(1) st' show ?thesis by (simp add: md_append_def)
next
  case True
  with assms(5) obtain ps where ps: "split_at_lines l (md_budget m st) = Some ps"
    "st' = (let st1 = md_emit st; st2 = st1\<lparr>md_chunks := md_chunks st1 @
          map (\<lambda>piece. if md_in_fence st \<and> reopen_viable m st then close_fence (md_fence_open st @ piece) else piece)
            ps\<rparr> in if is_fence_line l then md_toggle l st2 else st2)"
    by (auto simp: md_line_def md_hard_def Let_def split: bind_splits)
  have "4 \<le> md_budget m st" using assms(1,4) by (auto simp: md_budget_def md_utf8_def)
  from split_at_lines_utf8 [OF assms(2) this ps(1)] have pieces: "\<forall>p \<in> set ps. utf8 p" by blast
  with md_emit_utf8 [OF assms(1)] assms(1,3) have
    "md_utf8 m ((md_emit st)\<lparr>md_chunks := md_chunks (md_emit st) @
        map (\<lambda>piece. if md_in_fence st \<and> reopen_viable m st then close_fence (md_fence_open st @ piece) else piece)
          ps\<rparr>)"
    by (auto simp: md_utf8_def close_fence_utf8 utf8_append)
  with ps(2) assms(2,3) show ?thesis by (auto simp: Let_def md_utf8_def md_toggle_def)
qed

lemma md_lines_utf8:
  "md_utf8 m st \<Longrightarrow> \<forall>l \<in> set ls. utf8 l \<and> (is_fence_line l \<longrightarrow> length l + 8 \<le> m) \<Longrightarrow> 8 \<le> m \<Longrightarrow>
   md_lines m ls st = Some st' \<Longrightarrow> md_utf8 m st'"
proof (induction ls arbitrary: st)
  case (Cons l ls)
  from Cons.prems(4) obtain st1 where st1: "md_line m l st = Some st1" "md_lines m ls st1 = Some st'"
    by (auto split: bind_splits)
  have "md_utf8 m st1" by (rule md_line_utf8 [OF Cons.prems(1) _ _ Cons.prems(3) st1(1)]) (use Cons.prems in auto)
  with Cons.IH st1(2) Cons.prems(2,3) show ?case by simp
qed simp

lemma go_lines_splits:
  "go_lines s =
     (if s = [] then []
      else if newline \<in> set s
      then (takeWhile (\<lambda>c. c \<noteq> newline) s @ [newline]) # go_lines (tl (dropWhile (\<lambda>c. c \<noteq> newline) s))
      else [s])"
proof (induction s)
  case (Cons c s)
  then show ?case by (cases "s = []") auto
qed simp

lemma go_lines_utf8: "utf8 s \<Longrightarrow> l \<in> set (go_lines s) \<Longrightarrow> utf8 l"
proof (induction s rule: length_induct)
  case (1 s)
  show ?case
  proof (cases "newline \<in> set s")
    case False
    with "1.prems" go_lines_splits [of s] show ?thesis by (auto split: if_splits)
  next
    case True
    then obtain ys zs where s: "s = ys @ newline # zs" "newline \<notin> set ys" by (metis split_list_first)
    then have "takeWhile (\<lambda>c. c \<noteq> newline) s = ys" "dropWhile (\<lambda>c. c \<noteq> newline) s = newline # zs"
      by (auto simp: takeWhile_append dropWhile_append)
    with True s go_lines_splits [of s] have g: "go_lines s = (ys @ [newline]) # go_lines zs" by simp
    have "boundary s (Suc (length ys))"
      by (rule ascii_boundary [OF "1.prems"(1)]) (simp_all add: s(1) nth_append)
    from utf8_take [OF "1.prems"(1) this] utf8_drop [OF "1.prems"(1) this]
    have "utf8 (ys @ [newline])" "utf8 zs" by (simp_all add: s(1))
    moreover have "length zs < length s" by (simp add: s(1))
    ultimately have "l \<in> set (go_lines zs) \<Longrightarrow> utf8 l" using "1.IH" by blast
    with "1.prems"(2) g \<open>utf8 (ys @ [newline])\<close> show ?thesis by auto
  qed
qed

lemma split_markdown_utf8:
  assumes "utf8 s" and "short_fences m s" and "8 \<le> m" and "split_markdown s m = Some cs" and "c \<in> set cs"
  shows "utf8 c"
proof -
  from assms(4) obtain st where st: "md_lines m (go_lines s) md_start = Some st"
    "cs = (if md_chunks (md_emit st) = [] then [[]] else md_chunks (md_emit st))"
    by (auto simp: split_markdown_def Let_def split: bind_splits)
  have "md_utf8 m md_start" by (simp add: md_utf8_def md_start_def)
  from md_lines_utf8 [OF this _ assms(3) st(1)] assms(1,2) go_lines_utf8 have "md_utf8 m st"
    by (auto simp: short_fences_def)
  with md_emit_utf8 [OF this] st(2) assms(5) show ?thesis by (auto simp: md_utf8_def split: if_splits)
qed

end
