(* ===== verification/StreamWriter.thy ===== *)
theory StreamWriter
  imports Mrkdwn Channel
begin

section \<open>The streamed reply\<close>

text \<open>
  \<open>pkg/channels/slack/stream.go\<close>, the \<open>batchedWriter\<close> of one turn, and its part in
  \<open>continuation.go\<close>. The agent's prose is queued as pieces of answer and of narration; a flush
  cuts what is queued into batches that fit the open message and hands them to Slack with
  \<open>chat.startStream\<close>, \<open>chat.appendStream\<close> or the closing \<open>chat.stopStream\<close>. Slack is a
  parameter: a function from the calls made so far, with their answers, and the call at hand to the
  answer. The writer keeps that history in \<open>wr_calls\<close>; the other fields are the struct's. Fields
  that only name things for the log are left out, and \<open>wr_records\<close> is what \<open>onDelivered\<close>
  was given.

  \<open>sendQueuedOnce\<close> and \<open>sendQueued\<close> loop until Slack has taken everything, so they are
  partial functions; \<open>StreamLoop\<close> shows that they return.
\<close>

subsection \<open>Slack's answers\<close>

datatype session_status = Processing | Active | Suspended | Closed

datatype api_error = ApiError string | CallFailed string | BadReply string

datatype slack_error = Refused api_error | StreamLost | StreamOverflow api_error

datatype slack_call =
    StartStream (call_channel: string) (call_thread: string) (call_chunks: "string list")
      (call_user: string) (call_team: string)
  | AppendStream (call_channel: string) (call_ts: string) (call_chunks: "string list")
  | StopStream (call_channel: string) (call_ts: string) (call_chunks: "string list")
      (call_blocks: "string option") (call_status: session_status)
  | SetStatus (call_channel: string) (call_thread: string) (call_status: session_status)
      (call_title: string) (call_initiator: string)

type_synonym slack_answer = "api_error + string"
type_synonym slack = "(slack_call \<times> slack_answer) list \<Rightarrow> slack_call \<Rightarrow> slack_answer"

definition has_code :: "api_error \<Rightarrow> string list \<Rightarrow> bool" where
  "has_code e codes \<longleftrightarrow> (case e of ApiError code \<Rightarrow> code \<noteq> [] \<and> code \<in> set codes | _ \<Rightarrow> False)"

definition stopped_by_user :: "api_error \<Rightarrow> bool" where
  "stopped_by_user e \<longleftrightarrow> has_code e [''stopped_by_user'']"

definition stream_gone :: "api_error \<Rightarrow> bool" where
  "stream_gone e \<longleftrightarrow> has_code e [''message_not_in_streaming_state'', ''message_not_owned_by_app'']"

definition msg_too_long :: "api_error \<Rightarrow> bool" where
  "msg_too_long e \<longleftrightarrow> has_code e [''msg_too_long'']"

definition is_overflow :: "slack_error \<Rightarrow> bool" where
  "is_overflow e \<longleftrightarrow> (case e of StreamOverflow _ \<Rightarrow> True | _ \<Rightarrow> False)"

subsection \<open>The writer\<close>

record queued_chunk =
  q_text :: string
  q_answer :: bool

record batch =
  bt_items :: "queued_chunk list"
  bt_answer_raw :: int
  bt_cost :: int

record writer =
  wr_channel :: string
  wr_thread :: string
  wr_slack_user :: string
  wr_team :: string
  wr_title :: string
  wr_initiator :: string
  wr_status_only :: bool
  wr_status_off :: bool
  wr_usage :: turn_usage
  wr_narrations :: nat
  wr_tool_turn :: nat
  wr_queue :: "queued_chunk list"
  wr_flush_failures :: nat
  wr_flush_retry_at :: gotime
  wr_appended_len :: int
  wr_prompt :: bool
  wr_approved :: "hitl_tool list"
  wr_stream_ts :: string
  wr_streamed :: int
  wr_messages :: "string list"
  wr_size_budget :: int
  wr_adopted :: bool
  wr_opened :: bool
  wr_recovered :: bool
  wr_stopped :: bool
  wr_failed :: bool
  wr_failed_calls :: nat
  wr_carried :: delivered
  wr_skip_text :: int
  wr_trim_lead :: bool
  wr_lead_trimmed :: int
  wr_sink :: bool
  wr_ran :: bool
  wr_calls :: "(slack_call \<times> slack_answer) list"
  wr_events :: "string list"
  wr_records :: "delivered list"

text \<open>A writer as it is made for a thread, every other field at its zero value.\<close>

definition new_batched_writer :: "string \<Rightarrow> string \<Rightarrow> writer" where
  "new_batched_writer channel thread_ts =
     \<lparr>wr_channel = channel, wr_thread = thread_ts, wr_slack_user = [], wr_team = [], wr_title = [],
      wr_initiator = [], wr_status_only = False, wr_status_off = False,
      wr_usage = \<lparr>tu_input = 0, tu_output = 0, tu_total = 0\<rparr>, wr_narrations = 0, wr_tool_turn = 0,
      wr_queue = [], wr_flush_failures = 0, wr_flush_retry_at = 0, wr_appended_len = 0,
      wr_prompt = False, wr_approved = [], wr_stream_ts = [], wr_streamed = 0, wr_messages = [],
      wr_size_budget = 0, wr_adopted = False, wr_opened = False, wr_recovered = False,
      wr_stopped = False, wr_failed = False, wr_failed_calls = 0, wr_carried = zero_delivered,
      wr_skip_text = 0, wr_trim_lead = False, wr_lead_trimmed = 0, wr_sink = False, wr_ran = False,
      wr_calls = [], wr_events = [], wr_records = []\<rparr>"

definition slack_do :: "slack \<Rightarrow> slack_call \<Rightarrow> writer \<Rightarrow> slack_answer \<times> writer" where
  "slack_do sl c w = (let a = sl (wr_calls w) c in (a, w\<lparr>wr_calls := wr_calls w @ [(c, a)]\<rparr>))"

definition slack_markdown_block_max :: int where
  "slack_markdown_block_max = 12000"

definition empty_batch :: batch where
  "empty_batch = \<lparr>bt_items = [], bt_answer_raw = 0, bt_cost = 0\<rparr>"

definition add_text :: "string \<Rightarrow> bool \<Rightarrow> batch \<Rightarrow> batch" where
  "add_text piece answer b =
     \<lparr>bt_items = bt_items b @ [\<lparr>q_text = piece, q_answer = answer\<rparr>],
      bt_answer_raw = bt_answer_raw b + (if answer then int (length piece) else 0),
      bt_cost = bt_cost b + int (length piece)\<rparr>"

definition wr_budget :: "writer \<Rightarrow> int" where
  "wr_budget w = (if wr_size_budget w > 0 then wr_size_budget w else slack_markdown_block_max)"

definition room :: "writer \<Rightarrow> batch \<Rightarrow> int" where
  "room w b = wr_budget w - wr_streamed w - bt_cost b"

subsection \<open>Bookkeeping\<close>

definition note_appended :: "int \<Rightarrow> writer \<Rightarrow> writer" where
  "note_appended n w = w\<lparr>wr_appended_len := wr_appended_len w + n\<rparr>"

definition note_delivered :: "writer \<Rightarrow> writer" where
  "note_delivered w =
     (if wr_sink w
      then w\<lparr>wr_records := wr_records w @
        [\<lparr>dl_text_len = dl_text_len (wr_carried w) + wr_lead_trimmed w + wr_appended_len w,
          dl_stream_ts = wr_stream_ts w, dl_stream_len = wr_streamed w\<rparr>]\<rparr>
      else w)"

definition note_stream :: "string \<Rightarrow> writer \<Rightarrow> writer" where
  "note_stream ev w = w\<lparr>wr_events := wr_events w @ [ev]\<rparr>"

definition drop_stream :: "writer \<Rightarrow> writer" where
  "drop_stream w = w\<lparr>wr_stream_ts := [], wr_streamed := 0, wr_adopted := False\<rparr>"

definition reset_stream :: "writer \<Rightarrow> writer" where
  "reset_stream w =
     (drop_stream w)\<lparr>wr_recovered := False, wr_stopped := False, wr_failed := False, wr_failed_calls := 0\<rparr>"

definition land_batch :: "batch \<Rightarrow> writer \<Rightarrow> writer" where
  "land_batch b w = w\<lparr>wr_streamed := wr_streamed w + bt_cost b\<rparr>"

definition held_content :: "writer \<Rightarrow> bool" where
  "held_content w \<longleftrightarrow> wr_streamed w > 0 \<or> wr_adopted w"

subsection \<open>The queue\<close>

definition queue_answer :: "string \<Rightarrow> writer \<Rightarrow> writer" where
  "queue_answer s w =
     (let q = wr_queue w
      in if q \<noteq> [] \<and> q_answer (last q)
         then w\<lparr>wr_queue := butlast q @ [(last q)\<lparr>q_text := q_text (last q) @ s\<rparr>]\<rparr>
         else w\<lparr>wr_queue := q @ [\<lparr>q_text = s, q_answer = True\<rparr>]\<rparr>)"

definition queue_narration :: "string \<Rightarrow> writer \<Rightarrow> writer" where
  "queue_narration md w = w\<lparr>wr_queue := wr_queue w @ [\<lparr>q_text = md, q_answer = False\<rparr>]\<rparr>"

definition take_queued :: "bool \<Rightarrow> writer \<Rightarrow> queued_chunk list \<times> writer" where
  "take_queued final w =
     (let q = wr_queue w; lst = last q
      in if q = [] then ([], w)
         else if final \<or> \<not> q_answer lst then (q, w\<lparr>wr_queue := []\<rparr>)
         else case last_index_func is_space (q_text lst) of
           None \<Rightarrow> (butlast q, w\<lparr>wr_queue := [lst]\<rparr>)
         | Some i \<Rightarrow>
             (let k = i + snd (decode_rune (map of_char (drop i (q_text lst))));
                  rest = drop k (q_text lst)
              in (butlast q @ [\<lparr>q_text = take k (q_text lst), q_answer = True\<rparr>],
                  w\<lparr>wr_queue := (if rest \<noteq> [] then [\<lparr>q_text = rest, q_answer = True\<rparr>] else [])\<rparr>)))"

definition put_back_queued :: "queued_chunk list \<Rightarrow> writer \<Rightarrow> writer" where
  "put_back_queued items w = (if items = [] then w else w\<lparr>wr_queue := items @ wr_queue w\<rparr>)"

definition blank_text :: "string \<Rightarrow> bool" where
  "blank_text s \<longleftrightarrow> trim_space_bytes s = []"

definition has_queued_content :: "writer \<Rightarrow> bool" where
  "has_queued_content w \<longleftrightarrow> (\<exists>it \<in> set (wr_queue w). \<not> blank_text (q_text it))"

definition wrote_content :: "writer \<Rightarrow> bool" where
  "wrote_content w \<longleftrightarrow> wr_appended_len w > 0 \<or> wr_opened w"

definition exit_session_status :: "writer \<Rightarrow> session_status" where
  "exit_session_status w = (if wr_prompt w then Suspended else Active)"

subsection \<open>Opening, appending, closing\<close>

definition stream_recipient :: "writer \<Rightarrow> string \<times> string" where
  "stream_recipient w =
     (if has_prefix (wr_channel w) ''D'' \<or> wr_slack_user w = [] \<or> wr_team w = [] then ([], [])
      else (wr_slack_user w, wr_team w))"

definition failed_calls_note :: "nat \<Rightarrow> string" where
  "failed_calls_note n =
     of_runes [0x26A0, 0xFE0F] @
     (if n = 1 then '' 1 tool call failed'' else '' '' @ decimal n @ '' tool calls failed'')"

definition failed_calls_blocks :: "writer \<Rightarrow> string option" where
  "failed_calls_blocks w =
     (if wr_failed_calls w = 0 then None else Some (failed_calls_note (wr_failed_calls w)))"

definition chunk_bodies :: "queued_chunk list \<Rightarrow> string list \<times> bool" where
  "chunk_bodies items =
     (let chunks = filter (\<lambda>s. s \<noteq> []) (map q_text items)
      in (chunks, \<exists>s \<in> set chunks. \<not> blank_text s))"

definition end_stream_quietly :: "writer \<Rightarrow> writer" where
  "end_stream_quietly w =
     note_stream ''stopped_by_user'' (snd (take_queued True ((drop_stream w)\<lparr>wr_stopped := True\<rparr>)))"

text \<open>The functions below return the error, if any, the batch and the writer.\<close>

type_synonym step_result = "slack_error option \<times> batch \<times> writer"

definition open_stream :: "slack \<Rightarrow> batch \<Rightarrow> string list \<Rightarrow> writer \<Rightarrow> step_result" where
  "open_stream sl b chunks w =
     (let (user, team) = stream_recipient w;
          (a, w1) = slack_do sl (StartStream (wr_channel w) (wr_thread w) chunks user team) w
      in case a of
           Inl e \<Rightarrow> (Some (Refused e), b, w1)
         | Inr ts \<Rightarrow>
             (let w2 = land_batch b (w1\<lparr>wr_stream_ts := ts, wr_adopted := False\<rparr>);
                  w3 = w2\<lparr>wr_messages := wr_messages w2 @ [ts], wr_opened := True\<rparr>
              in (None, empty_batch,
                  note_delivered (note_appended (bt_answer_raw b) (note_stream ''started'' w3)))))"

definition stop_stream ::
  "slack \<Rightarrow> string list \<Rightarrow> string option \<Rightarrow> int \<Rightarrow> session_status \<Rightarrow> writer \<Rightarrow> api_error option \<times> writer"
where
  "stop_stream sl chunks blocks raw_len status w =
     (let (a, w1) = slack_do sl (StopStream (wr_channel w) (wr_stream_ts w) chunks blocks status) w
      in case a of
           Inl e \<Rightarrow> if stopped_by_user e then (None, end_stream_quietly w1) else (Some e, w1)
         | Inr _ \<Rightarrow>
             (None, note_delivered (note_appended raw_len (note_stream ''stopped'' (drop_stream w1)))))"

definition recover_stream :: "slack \<Rightarrow> batch \<Rightarrow> string list \<Rightarrow> writer \<Rightarrow> step_result" where
  "recover_stream sl b chunks w =
     (let w1 = drop_stream w
      in if wr_recovered w1 then (Some StreamLost, b, w1\<lparr>wr_failed := True\<rparr>)
         else open_stream sl b chunks (note_stream ''recovered'' (w1\<lparr>wr_recovered := True\<rparr>)))"

definition roll_over_stream :: "slack \<Rightarrow> writer \<Rightarrow> api_error option \<times> writer" where
  "roll_over_stream sl w =
     (if wr_stream_ts w = [] then (None, w)
      else let (err, w1) = stop_stream sl [] None 0 Processing w
           in case err of
                None \<Rightarrow> (None, w1)
              | Some e \<Rightarrow> if stream_gone e then (None, drop_stream w1) else (Some e, w1))"

definition overflow_stream :: "slack \<Rightarrow> api_error \<Rightarrow> writer \<Rightarrow> slack_error \<times> writer" where
  "overflow_stream sl cause w =
     (let w1 = w\<lparr>wr_size_budget :=
            max (min (wr_streamed w) (wr_budget w)) (slack_markdown_block_max div 4)\<rparr>;
          (err, w2) = roll_over_stream sl w1
      in case err of Some e \<Rightarrow> (Refused e, w2) | None \<Rightarrow> (StreamOverflow cause, w2))"

definition deliver_batch :: "slack \<Rightarrow> batch \<Rightarrow> writer \<Rightarrow> step_result" where
  "deliver_batch sl b w =
     (if bt_items b = [] then (None, b, w)
      else let (chunks, visible) = chunk_bodies (bt_items b)
           in if chunks = [] \<or> (wr_stream_ts w = [] \<and> \<not> visible)
              then (None, empty_batch, note_delivered (note_appended (bt_answer_raw b) w))
              else if wr_stream_ts w = [] then open_stream sl b chunks w
              else let (a, w1) = slack_do sl (AppendStream (wr_channel w) (wr_stream_ts w) chunks) w
                   in case a of
                        Inr _ \<Rightarrow>
                          (None, empty_batch,
                           note_delivered (note_appended (bt_answer_raw b)
                             (land_batch b (w1\<lparr>wr_adopted := False\<rparr>))))
                      | Inl e \<Rightarrow>
                          if stopped_by_user e then (None, empty_batch, end_stream_quietly w1)
                          else if stream_gone e then recover_stream sl b chunks w1
                          else if msg_too_long e \<and> held_content w1 then
                            (let (e', w2) = overflow_stream sl e w1 in (Some e', b, w2))
                          else (Some (Refused e), b, w1))"

definition make_room :: "slack \<Rightarrow> batch \<Rightarrow> writer \<Rightarrow> step_result" where
  "make_room sl b w =
     (if bt_items b = [] then (let (err, w1) = roll_over_stream sl w in (map_option Refused err, b, w1))
      else deliver_batch sl b w)"

text \<open>What \<open>closeBatch\<close> could not deliver, its error and the writer.\<close>

type_synonym send_result = "queued_chunk list \<times> slack_error option \<times> writer"

definition close_open :: "slack \<Rightarrow> batch \<Rightarrow> writer \<Rightarrow> send_result" where
  "close_open sl b w =
     (let chunks = fst (chunk_bodies (bt_items b));
          (err, w1) = stop_stream sl chunks (failed_calls_blocks w) (bt_answer_raw b)
            (exit_session_status w) w
      in case err of
           None \<Rightarrow> ([], None, w1)
         | Some e \<Rightarrow>
             if stream_gone e then
               (let w2 = note_delivered (drop_stream w1)
                in if bt_items b = [] then ([], None, w2) else (bt_items b, Some (Refused e), w2))
             else if msg_too_long e \<and> held_content w1 then
               (let (e', w2) = overflow_stream sl e w1 in (bt_items b, Some e', w2))
             else (bt_items b, Some (Refused e), w1))"

definition close_batch :: "slack \<Rightarrow> batch \<Rightarrow> writer \<Rightarrow> send_result" where
  "close_batch sl b w =
     (if wr_stream_ts w = [] \<or> wr_adopted w then
        (let (err, b1, w1) = deliver_batch sl b w
         in case err of
              Some e \<Rightarrow> (bt_items b1, Some e, w1)
            | None \<Rightarrow> if wr_stream_ts w1 = [] then ([], None, w1) else close_open sl b1 w1)
      else close_open sl b w)"

subsection \<open>Sending what is queued\<close>

text \<open>
  How the loop of \<open>sendQueuedOnce\<close> ends: everything is in the batch, a step failed and the
  pieces are left, or the reply was stopped. \<open>items\<close> starts with the untaken rest of the piece
  being cut.
\<close>

datatype filled = Filled batch | LeftOver "queued_chunk list" slack_error | Dropped

partial_function (option) fill_batch ::
  "slack \<Rightarrow> queued_chunk list \<Rightarrow> batch \<Rightarrow> writer \<Rightarrow> (filled \<times> writer) option"
where
  [code]: "fill_batch sl items b w =
     (case items of
        [] \<Rightarrow> Some (Filled b, w)
      | c # rest \<Rightarrow>
          if q_text c = [] then fill_batch sl rest b w
          else let (piece, raw) = cut_piece (q_text c) (nat (wr_budget w))
               in if int (length piece) > room w b then
                    (case make_room sl b w of
                       (Some e, b1, w1) \<Rightarrow> Some (LeftOver (bt_items b1 @ items) e, w1)
                     | (None, b1, w1) \<Rightarrow>
                         if wr_stopped w1 then Some (Dropped, w1) else fill_batch sl items b1 w1)
                  else fill_batch sl (c\<lparr>q_text := raw\<rparr> # rest) (add_text piece (q_answer c) b) w)"

definition send_queued_once ::
  "slack \<Rightarrow> queued_chunk list \<Rightarrow> bool \<Rightarrow> writer \<Rightarrow> send_result option"
where
  "send_queued_once sl items closing w = do {
     (r, w1) \<leftarrow> fill_batch sl items empty_batch w;
     Some (case r of
       Dropped \<Rightarrow> ([], None, w1)
     | LeftOver rest e \<Rightarrow> (rest, Some e, w1)
     | Filled b \<Rightarrow>
         if closing then close_batch sl b w1
         else case deliver_batch sl b w1 of
                (Some e, b1, w2) \<Rightarrow> (bt_items b1, Some e, w2)
              | (None, _, w2) \<Rightarrow> ([], None, w2))
   }"

partial_function (option) send_queued ::
  "slack \<Rightarrow> queued_chunk list \<Rightarrow> bool \<Rightarrow> writer \<Rightarrow> send_result option"
where
  [code]: "send_queued sl items closing w = do {
     (unsent, err, w1) \<leftarrow> send_queued_once sl items closing w;
     if \<not> (case err of Some e \<Rightarrow> is_overflow e | None \<Rightarrow> False) then Some (unsent, err, w1)
     else if wr_stopped w1 then Some ([], None, w1)
     else send_queued sl unsent closing w1
   }"

subsection \<open>Flushes\<close>

type_synonym flush_result = "(slack_error option \<times> writer) option"

definition close_stream :: "slack \<Rightarrow> writer \<Rightarrow> flush_result" where
  "close_stream sl w =
     (if wr_stopped w then Some (None, snd (take_queued True w))
      else if wr_failed w then Some (Some StreamLost, snd (take_queued True w))
      else let (items, w1) = take_queued True w
           in if items = [] \<and> wr_stream_ts w1 = [] then Some (None, w1)
              else do {
                (unsent, err, w2) \<leftarrow> send_queued sl items True w1;
                Some (err, if err = None then w2 else put_back_queued unsent w2)
              })"

definition flush_queued :: "slack \<Rightarrow> writer \<Rightarrow> flush_result" where
  "flush_queued sl w =
     (if wr_stopped w then Some (None, snd (take_queued True w))
      else if wr_failed w then Some (Some StreamLost, snd (take_queued True w))
      else let (items, w1) = take_queued False w
           in if items = [] then Some (None, w1)
              else do {
                (unsent, err, w2) \<leftarrow> send_queued sl items False w1;
                Some (err, if err = None then w2 else put_back_queued unsent w2)
              })"

definition max_flush_failures :: nat where
  "max_flush_failures = 3"

definition flush_retry_backoff :: duration where
  "flush_retry_backoff = 5 * 10 ^ 9"

definition note_flush_failure :: "gotime \<Rightarrow> writer \<Rightarrow> writer" where
  "note_flush_failure t w =
     (let w1 = w\<lparr>wr_flush_failures := wr_flush_failures w + 1\<rparr>
      in if wr_flush_failures w1 < max_flush_failures then w1
         else w1\<lparr>wr_flush_retry_at := t + flush_retry_backoff\<rparr>)"

definition tick_flush :: "slack \<Rightarrow> gotime \<Rightarrow> writer \<Rightarrow> writer option" where
  "tick_flush sl t w =
     (if t < wr_flush_retry_at w then Some w
      else do {
        (err, w1) \<leftarrow> flush_queued sl w;
        Some (if err \<noteq> None then note_flush_failure t w1 else w1\<lparr>wr_flush_failures := 0\<rparr>)
      })"

text \<open>
  \<open>finalFlush\<close>: \<open>again n\<close> says that the context outlived the \<open>n\<close>-th failure and the pause
  after it.
\<close>

fun final_flush_from :: "nat \<Rightarrow> (nat \<Rightarrow> bool) \<Rightarrow> slack \<Rightarrow> nat \<Rightarrow> writer \<Rightarrow> flush_result" where
  "final_flush_from left again sl attempt w = do {
     (err, w1) \<leftarrow> close_stream sl w;
     case err of
       None \<Rightarrow> Some (None, w1)
     | Some e \<Rightarrow>
         (case left of
            0 \<Rightarrow> Some (Some e, w1)
          | Suc k \<Rightarrow>
              if e = StreamLost \<or> \<not> again attempt then Some (Some e, w1)
              else final_flush_from k again sl (attempt + 1) w1)
   }"

definition final_flush :: "(nat \<Rightarrow> bool) \<Rightarrow> slack \<Rightarrow> writer \<Rightarrow> flush_result" where
  "final_flush again sl w = final_flush_from (max_flush_failures - 1) again sl 1 w"

definition end_stream :: "slack \<Rightarrow> writer \<Rightarrow> writer option" where
  "end_stream sl w =
     (if wr_stream_ts w = [] \<and> \<not> has_queued_content w then Some w
      else do { (_, w1) \<leftarrow> close_stream sl w; Some w1 })"

end
