(* ===== verification/StreamLoop.thy ===== *)
theory StreamLoop
  imports StreamWriter
begin

section \<open>What reaches Slack\<close>

text \<open>
  The contract of the streamed reply: Slack has taken, in order and once, what was queued, up to
  white space no message was opened for; what it has not taken is still queued, unless the person
  stopped the reply. The delivered answer bytes are counted exactly, and the loops come to an end.
\<close>

subsection \<open>The contract\<close>

definition call_text :: "slack_call \<Rightarrow> string" where
  "call_text c = (case c of SetStatus _ _ _ _ _ \<Rightarrow> [] | _ \<Rightarrow> concat (call_chunks c))"

definition taken_text :: "slack_call \<times> slack_answer \<Rightarrow> string" where
  "taken_text ca = (case snd ca of Inr _ \<Rightarrow> call_text (fst ca) | Inl _ \<Rightarrow> [])"

definition accepted :: "writer \<Rightarrow> string" where
  "accepted w = concat (map taken_text (wr_calls w))"

text \<open>Prose as bytes marked with whether they are answer.\<close>

definition mark :: "queued_chunk \<Rightarrow> (char \<times> bool) list" where
  "mark c = map (\<lambda>ch. (ch, q_answer c)) (q_text c)"

definition marks :: "queued_chunk list \<Rightarrow> (char \<times> bool) list" where
  "marks items = concat (map mark items)"

text \<open>\<open>sent\<close> is \<open>whole\<close> but for blank stretches.\<close>

inductive delivers :: "string \<Rightarrow> string \<Rightarrow> bool" where
  nothing: "delivers [] []"
| sent: "delivers s t \<Longrightarrow> delivers (s @ x) (t @ x)"
| blank: "delivers s t \<Longrightarrow> blank_text x \<Longrightarrow> delivers s (t @ x)"

definition landed :: "writer \<Rightarrow> (char \<times> bool) list \<Rightarrow> bool" where
  "landed w dn \<longleftrightarrow>
     delivers (accepted w) (map fst dn) \<and> wr_appended_len w = int (length (filter snd dn))"

definition holds :: "(char \<times> bool) list \<Rightarrow> (char \<times> bool) list \<Rightarrow> writer \<Rightarrow> bool" where
  "holds all hand w \<longleftrightarrow> (\<exists>dn. landed w dn \<and> all = dn @ hand @ marks (wr_queue w))"

definition reply_cut :: "(char \<times> bool) list \<Rightarrow> writer \<Rightarrow> bool" where
  "reply_cut all w \<longleftrightarrow> wr_queue w = [] \<and> wr_stream_ts w = [] \<and> (\<exists>dn. landed w dn \<and> prefix dn all)"

definition batch_ok :: "batch \<Rightarrow> bool" where
  "batch_ok b \<longleftrightarrow>
     bt_cost b = int (length (marks (bt_items b))) \<and>
     bt_answer_raw b = int (length (filter snd (marks (bt_items b))))"

lemma marks_simps [simp]:
  "marks [] = []" "marks (c # cs) = mark c @ marks cs" "marks (cs @ ds) = marks cs @ marks ds"
  by (simp_all add: marks_def)

lemma empty_batch_simps [simp]:
  "bt_items empty_batch = []" "bt_cost empty_batch = 0" "bt_answer_raw empty_batch = 0"
  by (simp_all add: empty_batch_def)

lemma batch_ok_empty [simp]: "batch_ok empty_batch"
  by (simp add: batch_ok_def)

lemma batch_ok_add: "batch_ok b \<Longrightarrow> batch_ok (add_text piece answer b)"
  by (simp add: batch_ok_def add_text_def mark_def)

lemma marks_text: "map fst (marks items) = concat (map q_text items)"
  by (induction items) (simp_all add: mark_def comp_def)

lemma chunk_text: "concat (fst (chunk_bodies items)) = concat (map q_text items)"
  by (induction items) (simp_all add: chunk_bodies_def Let_def)

lemma delivers_blanks:
  "delivers s t \<Longrightarrow> (\<forall>it \<in> set items. q_text it = [] \<or> blank_text (q_text it)) \<Longrightarrow>
   delivers s (t @ concat (map q_text items))"
proof (induction items arbitrary: t)
  case (Cons it items)
  then have "delivers s (t @ q_text it)" by (auto intro: delivers.blank)
  from Cons.IH [OF this] Cons.prems(2) show ?case by simp
qed simp

subsection \<open>What each step leaves alone\<close>

named_theorems writer_simps \<open>unfolding rules of the writer's bookkeeping\<close>

lemmas [writer_simps] = slack_do_def Let_def

lemma accepted_upd [simp]:
  "accepted (w\<lparr>wr_calls := wr_calls w @ [ca]\<rparr>) = accepted w @ taken_text ca"
  by (simp add: accepted_def)

lemma accepted_cong: "wr_calls w = wr_calls w' \<Longrightarrow> accepted w = accepted w'"
  by (simp add: accepted_def)

lemma landed_cong:
  "wr_calls w = wr_calls w' \<Longrightarrow> wr_appended_len w = wr_appended_len w' \<Longrightarrow> landed w = landed w'"
  by (simp add: landed_def accepted_def fun_eq_iff)

lemma landed_error:
  "landed w dn \<Longrightarrow> wr_calls w' = wr_calls w @ [(c, Inl e)] \<Longrightarrow> wr_appended_len w' = wr_appended_len w \<Longrightarrow>
   landed w' dn"
  by (simp add: landed_def accepted_def taken_text_def)

lemma landed_batch:
  assumes "landed w dn" and "batch_ok b" and "wr_calls w' = wr_calls w @ [(c, Inr ts)]"
    and "call_text c = concat (map q_text (bt_items b))"
    and "wr_appended_len w' = wr_appended_len w + bt_answer_raw b"
  shows "landed w' (dn @ marks (bt_items b))"
  using assms delivers.sent [of "accepted w" "map fst dn" "concat (map q_text (bt_items b))"]
  by (simp add: landed_def accepted_def taken_text_def batch_ok_def marks_text)

lemma landed_blank:
  assumes "landed w dn" and "batch_ok b" and "wr_calls w' = wr_calls w"
    and "\<forall>it \<in> set (bt_items b). q_text it = [] \<or> blank_text (q_text it)"
    and "wr_appended_len w' = wr_appended_len w + bt_answer_raw b"
  shows "landed w' (dn @ marks (bt_items b))"
  using assms delivers_blanks [of "accepted w" "map fst dn" "bt_items b"]
  by (simp add: landed_def accepted_def batch_ok_def marks_text)

subsection \<open>Every step keeps the contract\<close>

definition step_ok :: "(char \<times> bool) list \<Rightarrow> (char \<times> bool) list \<Rightarrow> step_result \<Rightarrow> bool" where
  "step_ok all rest r \<longleftrightarrow>
     (case r of (err, b, w) \<Rightarrow>
        batch_ok b \<and>
        (if wr_stopped w then reply_cut all w \<and> (\<forall>e. err = Some e \<longrightarrow> is_overflow e)
         else holds all (marks (bt_items b) @ rest) w \<and> (err = None \<longrightarrow> bt_items b = [])))"

lemma holds_error:
  "holds all hand w \<Longrightarrow> wr_calls w' = wr_calls w @ [(c, Inl e)] \<Longrightarrow>
   wr_appended_len w' = wr_appended_len w \<Longrightarrow> wr_queue w' = wr_queue w \<Longrightarrow> holds all hand w'"
  unfolding holds_def by (metis landed_error)

lemma holds_same:
  "holds all hand w \<Longrightarrow> wr_calls w' = wr_calls w \<Longrightarrow>
   wr_appended_len w' = wr_appended_len w \<Longrightarrow> wr_queue w' = wr_queue w \<Longrightarrow> holds all hand w'"
  unfolding holds_def by (metis landed_cong)

lemma holds_batch:
  assumes "holds all (marks (bt_items b) @ rest) w" and "batch_ok b"
    and "wr_calls w' = wr_calls w @ [(c, Inr ts)]" and "call_text c = concat (map q_text (bt_items b))"
    and "wr_appended_len w' = wr_appended_len w + bt_answer_raw b" and "wr_queue w' = wr_queue w"
  shows "holds all rest w'"
  using assms unfolding holds_def by (metis append.assoc landed_batch)

lemma holds_blank:
  assumes "holds all (marks (bt_items b) @ rest) w" and "batch_ok b" and "wr_calls w' = wr_calls w"
    and "\<forall>it \<in> set (bt_items b). q_text it = [] \<or> blank_text (q_text it)"
    and "wr_appended_len w' = wr_appended_len w + bt_answer_raw b" and "wr_queue w' = wr_queue w"
  shows "holds all rest w'"
  using assms unfolding holds_def by (metis append.assoc landed_blank)

lemma reply_cut_stop:
  "holds all hand w \<Longrightarrow> wr_calls w' = wr_calls w @ [(c, Inl e)] \<Longrightarrow>
   wr_appended_len w' = wr_appended_len w \<Longrightarrow> wr_queue w' = [] \<Longrightarrow> wr_stream_ts w' = [] \<Longrightarrow>
   reply_cut all w'"
  unfolding holds_def reply_cut_def by (metis landed_error prefixI)

lemma holds_call_nothing:
  assumes "holds all hand w" and "wr_calls w' = wr_calls w @ [(c, Inr ts)]" and "call_text c = []"
    and "wr_appended_len w' = wr_appended_len w" and "wr_queue w' = wr_queue w"
  shows "holds all hand w'"
  using holds_batch [of all empty_batch hand w w' c ts] assms by simp

lemma call_text_simps [simp]:
  "call_text (StartStream ch th cs u t) = concat cs" "call_text (AppendStream ch ts cs) = concat cs"
  "call_text (StopStream ch ts cs bl st) = concat cs" "call_text (SetStatus ch th st ti i) = []"
  by (simp_all add: call_text_def)

text \<open>The fields the bookkeeping leaves alone.\<close>

lemma note_delivered_simps [simp]:
  "wr_calls (note_delivered w) = wr_calls w" "wr_queue (note_delivered w) = wr_queue w"
  "wr_appended_len (note_delivered w) = wr_appended_len w" "wr_stopped (note_delivered w) = wr_stopped w"
  "wr_stream_ts (note_delivered w) = wr_stream_ts w" "wr_streamed (note_delivered w) = wr_streamed w"
  "wr_size_budget (note_delivered w) = wr_size_budget w" "wr_adopted (note_delivered w) = wr_adopted w"
  "wr_failed (note_delivered w) = wr_failed w" "wr_recovered (note_delivered w) = wr_recovered w"
  "wr_carried (note_delivered w) = wr_carried w" "wr_lead_trimmed (note_delivered w) = wr_lead_trimmed w"
  "wr_prompt (note_delivered w) = wr_prompt w" "wr_failed_calls (note_delivered w) = wr_failed_calls w"
  "wr_channel (note_delivered w) = wr_channel w" "wr_thread (note_delivered w) = wr_thread w"
  "wr_sink (note_delivered w) = wr_sink w"
  "wr_skip_text (note_delivered w) = wr_skip_text w" "wr_trim_lead (note_delivered w) = wr_trim_lead w"
  by (simp_all add: note_delivered_def)

lemma note_appended_simps [simp]:
  "wr_calls (note_appended n w) = wr_calls w" "wr_queue (note_appended n w) = wr_queue w"
  "wr_appended_len (note_appended n w) = wr_appended_len w + n" "wr_stopped (note_appended n w) = wr_stopped w"
  "wr_stream_ts (note_appended n w) = wr_stream_ts w" "wr_streamed (note_appended n w) = wr_streamed w"
  "wr_size_budget (note_appended n w) = wr_size_budget w" "wr_adopted (note_appended n w) = wr_adopted w"
  "wr_failed (note_appended n w) = wr_failed w" "wr_recovered (note_appended n w) = wr_recovered w"
  "wr_carried (note_appended n w) = wr_carried w" "wr_lead_trimmed (note_appended n w) = wr_lead_trimmed w"
  "wr_prompt (note_appended n w) = wr_prompt w" "wr_failed_calls (note_appended n w) = wr_failed_calls w"
  "wr_channel (note_appended n w) = wr_channel w" "wr_thread (note_appended n w) = wr_thread w"
  "wr_sink (note_appended n w) = wr_sink w"
  "wr_skip_text (note_appended n w) = wr_skip_text w" "wr_trim_lead (note_appended n w) = wr_trim_lead w"
  by (simp_all add: note_appended_def)

lemma note_stream_simps [simp]:
  "wr_calls (note_stream ev w) = wr_calls w" "wr_queue (note_stream ev w) = wr_queue w"
  "wr_appended_len (note_stream ev w) = wr_appended_len w" "wr_stopped (note_stream ev w) = wr_stopped w"
  "wr_stream_ts (note_stream ev w) = wr_stream_ts w" "wr_streamed (note_stream ev w) = wr_streamed w"
  "wr_size_budget (note_stream ev w) = wr_size_budget w" "wr_adopted (note_stream ev w) = wr_adopted w"
  "wr_failed (note_stream ev w) = wr_failed w" "wr_recovered (note_stream ev w) = wr_recovered w"
  "wr_carried (note_stream ev w) = wr_carried w" "wr_lead_trimmed (note_stream ev w) = wr_lead_trimmed w"
  "wr_prompt (note_stream ev w) = wr_prompt w" "wr_failed_calls (note_stream ev w) = wr_failed_calls w"
  "wr_channel (note_stream ev w) = wr_channel w" "wr_thread (note_stream ev w) = wr_thread w"
  "wr_sink (note_stream ev w) = wr_sink w"
  "wr_skip_text (note_stream ev w) = wr_skip_text w" "wr_trim_lead (note_stream ev w) = wr_trim_lead w"
  by (simp_all add: note_stream_def)

lemma land_batch_simps [simp]:
  "wr_calls (land_batch b w) = wr_calls w" "wr_queue (land_batch b w) = wr_queue w"
  "wr_appended_len (land_batch b w) = wr_appended_len w" "wr_stopped (land_batch b w) = wr_stopped w"
  "wr_stream_ts (land_batch b w) = wr_stream_ts w" "wr_streamed (land_batch b w) = wr_streamed w + bt_cost b"
  "wr_size_budget (land_batch b w) = wr_size_budget w" "wr_adopted (land_batch b w) = wr_adopted w"
  "wr_failed (land_batch b w) = wr_failed w" "wr_recovered (land_batch b w) = wr_recovered w"
  "wr_carried (land_batch b w) = wr_carried w" "wr_lead_trimmed (land_batch b w) = wr_lead_trimmed w"
  "wr_prompt (land_batch b w) = wr_prompt w" "wr_failed_calls (land_batch b w) = wr_failed_calls w"
  "wr_channel (land_batch b w) = wr_channel w" "wr_thread (land_batch b w) = wr_thread w"
  "wr_sink (land_batch b w) = wr_sink w"
  "wr_skip_text (land_batch b w) = wr_skip_text w" "wr_trim_lead (land_batch b w) = wr_trim_lead w"
  by (simp_all add: land_batch_def)

lemma drop_stream_simps [simp]:
  "wr_calls (drop_stream w) = wr_calls w" "wr_queue (drop_stream w) = wr_queue w"
  "wr_appended_len (drop_stream w) = wr_appended_len w" "wr_stopped (drop_stream w) = wr_stopped w"
  "wr_stream_ts (drop_stream w) = []" "wr_streamed (drop_stream w) = 0"
  "wr_size_budget (drop_stream w) = wr_size_budget w" "wr_adopted (drop_stream w) = False"
  "wr_failed (drop_stream w) = wr_failed w" "wr_recovered (drop_stream w) = wr_recovered w"
  "wr_carried (drop_stream w) = wr_carried w" "wr_lead_trimmed (drop_stream w) = wr_lead_trimmed w"
  "wr_prompt (drop_stream w) = wr_prompt w" "wr_failed_calls (drop_stream w) = wr_failed_calls w"
  "wr_channel (drop_stream w) = wr_channel w" "wr_thread (drop_stream w) = wr_thread w"
  "wr_sink (drop_stream w) = wr_sink w"
  "wr_skip_text (drop_stream w) = wr_skip_text w" "wr_trim_lead (drop_stream w) = wr_trim_lead w"
  by (simp_all add: drop_stream_def)

lemma end_stream_quietly_simps [simp]:
  "wr_calls (end_stream_quietly w) = wr_calls w" "wr_queue (end_stream_quietly w) = []"
  "wr_appended_len (end_stream_quietly w) = wr_appended_len w" "wr_stopped (end_stream_quietly w)"
  "wr_stream_ts (end_stream_quietly w) = []" "wr_streamed (end_stream_quietly w) = 0"
  "wr_size_budget (end_stream_quietly w) = wr_size_budget w" "\<not> wr_adopted (end_stream_quietly w)"
  "wr_skip_text (end_stream_quietly w) = wr_skip_text w" "wr_trim_lead (end_stream_quietly w) = wr_trim_lead w"
  "wr_lead_trimmed (end_stream_quietly w) = wr_lead_trimmed w"
  by (simp_all add: end_stream_quietly_def take_queued_def Let_def)

lemma open_stream_ok:
  assumes "\<not> wr_stopped w" and "batch_ok b" and "holds all (marks (bt_items b) @ rest) w"
    and "chunks = fst (chunk_bodies (bt_items b))"
  shows "step_ok all rest (open_stream sl b chunks w)"
proof -
  obtain u t where rec: "stream_recipient w = (u, t)" by fastforce
  let ?c = "StartStream (wr_channel w) (wr_thread w) chunks u t"
  show ?thesis
  proof (cases "sl (wr_calls w) ?c")
    case (Inl e)
    with assms rec holds_error [OF assms(3)] show ?thesis
      by (simp add: open_stream_def step_ok_def slack_do_def Let_def)
  next
    case (Inr ts)
    with assms rec holds_batch [OF assms(3,2), of _ ?c ts] show ?thesis
      by (simp add: open_stream_def step_ok_def chunk_text writer_simps Let_def)
  qed
qed

lemma recover_stream_ok:
  assumes "\<not> wr_stopped w" and "batch_ok b" and "holds all (marks (bt_items b) @ rest) w"
    and "chunks = fst (chunk_bodies (bt_items b))"
  shows "step_ok all rest (recover_stream sl b chunks w)"
proof (cases "wr_recovered w")
  case True
  with assms holds_same [OF assms(3)] show ?thesis
    by (simp add: recover_stream_def step_ok_def writer_simps)
next
  case False
  then show ?thesis using assms holds_same [OF assms(3)]
    by (simp add: recover_stream_def Let_def drop_stream_def note_stream_def) (rule open_stream_ok; simp)
qed

text \<open>A stop that carries nothing: to roll over, or to make room after an overflow.\<close>

lemma roll_over_ok:
  assumes "\<not> wr_stopped w" and "holds all hand w" and "roll_over_stream sl w = (err, w')"
  shows "if wr_stopped w' then reply_cut all w' \<and> err = None else holds all hand w'"
proof (cases "wr_stream_ts w = []")
  case True
  with assms show ?thesis by (simp add: roll_over_stream_def)
next
  case False
  let ?c = "StopStream (wr_channel w) (wr_stream_ts w) [] None Processing"
  show ?thesis
  proof (cases "sl (wr_calls w) ?c")
    case (Inl e)
    with assms False holds_error [OF assms(2), of _ ?c e] reply_cut_stop [OF assms(2), of _ ?c e]
    show ?thesis
      by (auto simp: roll_over_stream_def stop_stream_def writer_simps Let_def split: if_splits)
  next
    case (Inr ts)
    with assms False holds_call_nothing [OF assms(2), of _ ?c ts]
    show ?thesis
      by (auto simp: roll_over_stream_def stop_stream_def writer_simps Let_def)
  qed
qed

lemma overflow_ok:
  assumes "\<not> wr_stopped w" and "holds all hand w" and "overflow_stream sl cause w = (e, w')"
  shows "if wr_stopped w' then reply_cut all w' \<and> is_overflow e else holds all hand w'"
proof -
  let ?w1 = "w\<lparr>wr_size_budget := max (min (wr_streamed w) (wr_budget w)) (slack_markdown_block_max div 4)\<rparr>"
  obtain err w2 where r: "roll_over_stream sl ?w1 = (err, w2)" by fastforce
  have "holds all hand ?w1" by (rule holds_same [OF assms(2)]) simp_all
  from roll_over_ok [OF _ this r] assms(1,3) r show ?thesis
    by (auto simp: overflow_stream_def Let_def is_overflow_def split: option.splits if_splits)
qed

lemma deliver_batch_ok:
  assumes "\<not> wr_stopped w" and "batch_ok b" and "holds all (marks (bt_items b) @ rest) w"
  shows "step_ok all rest (deliver_batch sl b w)"
proof (cases "bt_items b = []")
  case True
  with assms show ?thesis by (simp add: deliver_batch_def step_ok_def)
next
  case ne: False
  obtain chunks visible where cb: "chunk_bodies (bt_items b) = (chunks, visible)" by fastforce
  show ?thesis
  proof (cases "chunks = [] \<or> (wr_stream_ts w = [] \<and> \<not> visible)")
    case True
    then have "\<forall>it \<in> set (bt_items b). q_text it = [] \<or> blank_text (q_text it)"
      using cb by (auto simp: chunk_bodies_def Let_def filter_empty_conv)
    from holds_blank [OF assms(3,2) _ this] True ne cb assms show ?thesis
      by (simp add: deliver_batch_def step_ok_def note_appended_def)
  next
    case some: False
    show ?thesis
    proof (cases "wr_stream_ts w = []")
      case True
      with open_stream_ok [OF assms, of chunks sl] some ne cb show ?thesis
        by (simp add: deliver_batch_def)
    next
      case False
      let ?c = "AppendStream (wr_channel w) (wr_stream_ts w) chunks"
      show ?thesis
      proof (cases "sl (wr_calls w) ?c")
        case (Inr ts)
        with holds_batch [OF assms(3,2), of _ ?c ts] cb some ne False assms show ?thesis
          using chunk_text [of "bt_items b"]
          by (simp add: deliver_batch_def step_ok_def writer_simps Let_def)
      next
        case (Inl e)
        let ?w1 = "w\<lparr>wr_calls := wr_calls w @ [(?c, Inl e)]\<rparr>"
        have h1: "holds all (marks (bt_items b) @ rest) ?w1"
          by (rule holds_error [OF assms(3)]) simp_all
        have eq: "deliver_batch sl b w =
          (if stopped_by_user e then (None, empty_batch, end_stream_quietly ?w1)
           else if stream_gone e then recover_stream sl b chunks ?w1
           else if msg_too_long e \<and> held_content ?w1 then
             (let (e', w2) = overflow_stream sl e ?w1 in (Some e', b, w2))
           else (Some (Refused e), b, ?w1))"
          using Inl cb some ne False by (simp add: deliver_batch_def slack_do_def Let_def)
        obtain e' w2 where o: "overflow_stream sl e ?w1 = (e', w2)" by fastforce
        have stop: "step_ok all rest (None, empty_batch, end_stream_quietly ?w1)"
          using reply_cut_stop [OF assms(3), of "end_stream_quietly ?w1" ?c e] by (simp add: step_ok_def)
        have recov: "step_ok all rest (recover_stream sl b chunks ?w1)"
          by (rule recover_stream_ok) (use assms h1 cb in simp_all)
        have over: "step_ok all rest (Some e', b, w2)"
          using overflow_ok [OF _ h1 o] assms(1,2) by (auto simp: step_ok_def)
        have fail: "step_ok all rest (Some (Refused e), b, ?w1)" using h1 assms(1,2) by (simp add: step_ok_def)
        from stop recov over fail show ?thesis unfolding eq o by simp
      qed
    qed
  qed
qed

lemma make_room_ok:
  assumes "\<not> wr_stopped w" and "batch_ok b" and "holds all (marks (bt_items b) @ rest) w"
  shows "step_ok all rest (make_room sl b w)"
proof (cases "bt_items b = []")
  case True
  obtain err w1 where r: "roll_over_stream sl w = (err, w1)" by fastforce
  from roll_over_ok [OF assms(1) _ r, of all rest] True assms r show ?thesis
    by (auto simp: make_room_def step_ok_def)
next
  case False
  with deliver_batch_ok [OF assms] show ?thesis by (simp add: make_room_def)
qed

text \<open>The same for what returns pieces instead of a batch.\<close>

definition send_ok :: "(char \<times> bool) list \<Rightarrow> send_result \<Rightarrow> bool" where
  "send_ok all r \<longleftrightarrow>
     (case r of (unsent, err, w) \<Rightarrow>
        if wr_stopped w then reply_cut all w \<and> (\<forall>e. err = Some e \<longrightarrow> is_overflow e)
        else holds all (marks unsent) w \<and> (err = None \<longrightarrow> unsent = []))"

lemma close_open_ok:
  assumes "\<not> wr_stopped w" and "batch_ok b" and "holds all (marks (bt_items b)) w"
  shows "send_ok all (close_open sl b w)"
proof -
  let ?chunks = "fst (chunk_bodies (bt_items b))"
  let ?c = "StopStream (wr_channel w) (wr_stream_ts w) ?chunks (failed_calls_blocks w) (exit_session_status w)"
  show ?thesis
  proof (cases "sl (wr_calls w) ?c")
    case (Inr ts)
    with holds_batch [of all b "[]" w _ ?c ts] assms show ?thesis
      by (simp add: close_open_def stop_stream_def send_ok_def writer_simps chunk_text Let_def)
  next
    case (Inl e)
    let ?w1 = "w\<lparr>wr_calls := wr_calls w @ [(?c, Inl e)]\<rparr>"
    have h1: "holds all (marks (bt_items b)) ?w1" by (rule holds_error [OF assms(3)]) simp_all
    have h2: "holds all (marks (bt_items b)) (note_delivered (drop_stream ?w1))"
      by (rule holds_same [OF h1]) (simp_all add: drop_stream_def)
    obtain e' w2 where o: "overflow_stream sl e ?w1 = (e', w2)" by fastforce
    from Inl o reply_cut_stop [OF assms(3), of "end_stream_quietly ?w1" ?c e]
      overflow_ok [OF _ h1 o] h1 h2 assms(1)
    show ?thesis
      by (auto simp: close_open_def stop_stream_def send_ok_def slack_do_def Let_def drop_stream_def)
  qed
qed

lemma close_batch_ok:
  assumes "\<not> wr_stopped w" and "batch_ok b" and "holds all (marks (bt_items b)) w"
  shows "send_ok all (close_batch sl b w)"
proof (cases "wr_stream_ts w = [] \<or> wr_adopted w")
  case False
  with close_open_ok [OF assms] show ?thesis by (simp add: close_batch_def)
next
  case True
  obtain err b1 w1 where d: "deliver_batch sl b w = (err, b1, w1)" by (metis prod_cases3)
  from deliver_batch_ok [of w b all "[]" sl] assms d have ok: "step_ok all [] (err, b1, w1)" by simp
  show ?thesis
  proof (cases "wr_stopped w1")
    case stop: True
    with ok True d show ?thesis
      by (cases err) (auto simp: close_batch_def step_ok_def send_ok_def reply_cut_def)
  next
    case False
    with ok True d close_open_ok [of w1 b1 all sl] show ?thesis
      by (cases err) (auto simp: close_batch_def step_ok_def send_ok_def)
  qed
qed

subsection \<open>The message's size\<close>

text \<open>\<open>startStream\<close> answers with the message it opened.\<close>

definition names_message :: "slack \<Rightarrow> bool" where
  "names_message sl \<longleftrightarrow> (\<forall>h ch th cs u t. sl h (StartStream ch th cs u t) \<noteq> Inr [])"

type_synonym frame = "queued_chunk list \<times> int \<times> bool \<times> int"

definition shaped :: "frame \<Rightarrow> writer \<Rightarrow> bool" where
  "shaped q w \<longleftrightarrow>
     (wr_queue w = fst q \<or> wr_queue w = []) \<and>
     (wr_skip_text w, wr_trim_lead w, wr_lead_trimmed w) = snd q \<and> 0 \<le> wr_streamed w \<and> (wr_stream_ts w = [] \<longrightarrow> wr_streamed w = 0 \<and> \<not> wr_adopted w) \<and>
     (wr_size_budget w = 0 \<or> 3000 \<le> wr_size_budget w \<and> wr_size_budget w \<le> slack_markdown_block_max)"

definition step_shape :: "frame \<Rightarrow> batch \<Rightarrow> writer \<Rightarrow> step_result \<Rightarrow> bool" where
  "step_shape q b w r \<longleftrightarrow>
     (case r of (err, b', w') \<Rightarrow>
        shaped q w' \<and> (b' = b \<or> b' = empty_batch) \<and>
        (held_content w' \<longrightarrow> held_content w \<or> b' = empty_batch \<and> bt_cost b > 0) \<and>
        (\<forall>e. err = Some e \<longrightarrow> is_overflow e \<longrightarrow> held_content w \<and> (\<not> wr_stopped w' \<longrightarrow> \<not> held_content w')))"

lemma budget_bounds: "shaped q w \<Longrightarrow> 3000 \<le> wr_budget w \<and> wr_budget w \<le> slack_markdown_block_max"
  by (auto simp: shaped_def wr_budget_def slack_markdown_block_max_def)

lemma code_not_overflow [simp]: "is_overflow (StreamOverflow e)" "\<not> is_overflow StreamLost" "\<not> is_overflow (Refused a)"
  by (simp_all add: is_overflow_def)

lemma open_stream_shape:
  assumes "shaped q w" and "names_message sl" and "0 \<le> bt_cost b" and "wr_stream_ts w = []"
  shows "step_shape q b w (open_stream sl b chunks w)"
proof -
  obtain u t where rec: "stream_recipient w = (u, t)" by fastforce
  let ?c = "StartStream (wr_channel w) (wr_thread w) chunks u t"
  show ?thesis
  proof (cases "sl (wr_calls w) ?c")
    case (Inl e)
    with Inl assms rec show ?thesis
      by (auto simp: open_stream_def step_shape_def slack_do_def shaped_def held_content_def Let_def)
  next
    case (Inr ts)
    with assms have "ts \<noteq> []" by (metis names_message_def)
    with Inr assms rec show ?thesis
      by (auto simp: open_stream_def step_shape_def writer_simps shaped_def held_content_def Let_def)
  qed
qed

lemma shaped_dropped: "shaped q w \<Longrightarrow> shaped q (drop_stream w)"
  by (simp add: shaped_def drop_stream_def)

lemma shaped_quiet: "shaped q w \<Longrightarrow> shaped q (end_stream_quietly w)"
  by (simp add: shaped_def)

lemma shaped_cong:
  "shaped q w \<Longrightarrow> wr_stream_ts w' = wr_stream_ts w \<Longrightarrow> wr_streamed w' = wr_streamed w \<Longrightarrow>
   wr_adopted w' = wr_adopted w \<Longrightarrow> wr_size_budget w' = wr_size_budget w \<Longrightarrow> wr_queue w' = wr_queue w \<Longrightarrow>
   wr_skip_text w' = wr_skip_text w \<Longrightarrow> wr_trim_lead w' = wr_trim_lead w \<Longrightarrow>
   wr_lead_trimmed w' = wr_lead_trimmed w \<Longrightarrow> shaped q w'"
  by (simp add: shaped_def)

lemma roll_over_shape:
  assumes "shaped q w" and "roll_over_stream sl w = (err, w')"
  shows "shaped q w' \<and> (held_content w' \<longrightarrow> held_content w) \<and>
    (err = None \<longrightarrow> \<not> held_content w' \<and> wr_stream_ts w' = [])"
proof (cases "wr_stream_ts w = []")
  case True
  with assms show ?thesis by (auto simp: roll_over_stream_def shaped_def held_content_def)
next
  case False
  let ?c = "StopStream (wr_channel w) (wr_stream_ts w) [] None Processing"
  show ?thesis
  proof (cases "sl (wr_calls w) ?c")
    case (Inl e)
    with Inl assms False show ?thesis
      by (auto simp: roll_over_stream_def stop_stream_def writer_simps Let_def shaped_def
          held_content_def split: if_splits)
  next
    case (Inr ts)
    with assms False show ?thesis
      by (auto simp: roll_over_stream_def stop_stream_def writer_simps Let_def shaped_def held_content_def)
  qed
qed

lemma overflow_shape:
  assumes "shaped q w" and "overflow_stream sl cause w = (e, w')"
  shows "shaped q w' \<and> (held_content w' \<longrightarrow> held_content w) \<and> (is_overflow e \<longrightarrow> \<not> held_content w')"
proof -
  let ?w1 = "w\<lparr>wr_size_budget := max (min (wr_streamed w) (wr_budget w)) (slack_markdown_block_max div 4)\<rparr>"
  obtain err w2 where r: "roll_over_stream sl ?w1 = (err, w2)" by fastforce
  have "shaped q ?w1" using assms(1) budget_bounds [OF assms(1)]
    by (auto simp: shaped_def slack_markdown_block_max_def)
  from roll_over_shape [OF this r] assms(2) r show ?thesis
    by (auto simp: overflow_stream_def Let_def held_content_def split: option.splits)
qed

lemma recover_stream_shape:
  assumes "shaped q w" and "names_message sl" and "0 \<le> bt_cost b"
  shows "step_shape q b w (recover_stream sl b chunks w)"
proof (cases "wr_recovered w")
  case True
  with assms show ?thesis
    by (auto simp: recover_stream_def step_shape_def shaped_def held_content_def)
next
  case False
  let ?w1 = "note_stream ''recovered'' ((drop_stream w)\<lparr>wr_recovered := True\<rparr>)"
  have "shaped q ?w1" "\<not> held_content ?w1" "wr_stream_ts ?w1 = []" "wr_stopped ?w1 = wr_stopped w"
    using assms(1) by (simp_all add: shaped_def held_content_def)
  with open_stream_shape [of q ?w1 sl b chunks] assms False show ?thesis
    by (auto simp: recover_stream_def step_shape_def)
qed

lemma deliver_batch_shape:
  assumes "shaped q w" and "names_message sl" and "0 \<le> bt_cost b"
  shows "step_shape q b w (deliver_batch sl b w)"
proof (cases "bt_items b = []")
  case True
  with assms show ?thesis by (simp add: deliver_batch_def step_shape_def)
next
  case ne: False
  obtain chunks visible where cb: "chunk_bodies (bt_items b) = (chunks, visible)" by fastforce
  show ?thesis
  proof (cases "chunks = [] \<or> (wr_stream_ts w = [] \<and> \<not> visible)")
    case True
    with ne cb assms(1) show ?thesis
      by (simp add: deliver_batch_def step_shape_def shaped_def held_content_def)
  next
    case some: False
    show ?thesis
    proof (cases "wr_stream_ts w = []")
      case True
      with open_stream_shape [OF assms True, of chunks] some ne cb show ?thesis
        by (simp add: deliver_batch_def)
    next
      case False
      let ?c = "AppendStream (wr_channel w) (wr_stream_ts w) chunks"
      show ?thesis
      proof (cases "sl (wr_calls w) ?c")
        case (Inr ts)
        with cb some ne False assms show ?thesis
          by (auto simp: deliver_batch_def step_shape_def writer_simps shaped_def held_content_def)
      next
        case (Inl e)
        let ?w1 = "w\<lparr>wr_calls := wr_calls w @ [(?c, Inl e)]\<rparr>"
        have s1: "shaped q ?w1" "held_content ?w1 = held_content w"
          using assms(1) by (simp_all add: shaped_def held_content_def)
        obtain e' w2 where o: "overflow_stream sl e ?w1 = (e', w2)" by fastforce
        have quiet: "step_shape q b w (None, empty_batch, end_stream_quietly ?w1)"
          using s1 by (simp add: step_shape_def shaped_quiet held_content_def)
        have recov: "step_shape q b w (recover_stream sl b chunks ?w1)"
          using recover_stream_shape [OF s1(1) assms(2,3), of chunks] s1(2) by (simp add: step_shape_def)
        have over: "step_shape q b w (Some e', b, w2)" if "held_content w"
          using overflow_shape [OF s1(1) o] that s1(2) by (simp add: step_shape_def)
        have fail: "step_shape q b w (Some (Refused e), b, ?w1)" using s1 by (simp add: step_shape_def)
        show ?thesis using Inl cb some ne False quiet recov over fail s1(2) o
          by (simp add: deliver_batch_def slack_do_def Let_def)
      qed
    qed
  qed
qed

lemma make_room_shape:
  assumes "shaped q w" and "names_message sl" and "0 \<le> bt_cost b"
  shows "step_shape q b w (make_room sl b w)"
proof (cases "bt_items b = []")
  case True
  obtain err w1 where r: "roll_over_stream sl w = (err, w1)" by fastforce
  from roll_over_shape [OF assms(1) r] True r show ?thesis
    by (auto simp: make_room_def step_shape_def)
next
  case False
  with deliver_batch_shape [OF assms] show ?thesis by (simp add: make_room_def)
qed

text \<open>After room was made, a piece within the budget fits, or the batch has just been landed.\<close>

lemma make_room_empty:
  assumes "shaped q w" and "bt_items b = []" and "batch_ok b" and "make_room sl b w = (None, b', w')"
  shows "b' = b \<and> room w' b' = wr_budget w'"
proof -
  obtain err w1 where r: "roll_over_stream sl w = (err, w1)" by fastforce
  with assms have "err = None" "b' = b" "w' = w1" by (auto simp: make_room_def)
  with roll_over_shape [OF assms(1) r] assms(2,3) show ?thesis
    by (auto simp: room_def shaped_def batch_ok_def)
qed

subsection \<open>The loops end and keep the contract\<close>

definition rem :: "batch \<Rightarrow> queued_chunk list \<Rightarrow> nat" where
  "rem b items = length (marks (bt_items b)) + length (marks items)"

definition texts_ok :: "queued_chunk list \<Rightarrow> bool" where
  "texts_ok items \<longleftrightarrow> (\<forall>c \<in> set items. utf8 (q_text c))"

definition fill_ok ::
  "frame \<Rightarrow> (char \<times> bool) list \<Rightarrow> batch \<Rightarrow> queued_chunk list \<Rightarrow> writer \<Rightarrow> filled \<times> writer \<Rightarrow> bool"
where
  "fill_ok q all b items w r \<longleftrightarrow>
     (case r of (f, w') \<Rightarrow>
        shaped q w' \<and>
        (case f of
           Filled b' \<Rightarrow> \<not> wr_stopped w' \<and> batch_ok b' \<and> texts_ok (bt_items b') \<and>
             holds all (marks (bt_items b')) w' \<and> rem b' [] \<le> rem b items \<and>
             (held_content w' \<longrightarrow> held_content w \<or> rem b' [] < rem b items)
         | LeftOver left e \<Rightarrow> texts_ok left \<and> length (marks left) \<le> rem b items \<and>
             (if wr_stopped w' then reply_cut all w' \<and> is_overflow e else holds all (marks left) w') \<and>
             (is_overflow e \<longrightarrow> (held_content w \<or> length (marks left) < rem b items) \<and>
               (\<not> wr_stopped w' \<longrightarrow> \<not> held_content w'))
         | Dropped \<Rightarrow> wr_stopped w' \<and> reply_cut all w'))"

definition fill_measure :: "queued_chunk list \<Rightarrow> batch \<Rightarrow> writer \<Rightarrow> nat" where
  "fill_measure items b w =
     4 * (length (concat (map q_text items)) + length items) +
     (if bt_items b = [] then 0 else 2) + (if room w b < wr_budget w then 1 else 0)"

lemma fill_ok_weaken:
  assumes "fill_ok q all b' items' w' r" and "rem b' items' \<le> rem b items"
    and "held_content w' \<Longrightarrow> held_content w \<or> rem b' items' < rem b items"
  shows "fill_ok q all b items w r"
  using assms unfolding fill_ok_def by (auto split: filled.splits)

lemma mark_split: "p @ q = q_text c \<Longrightarrow> mark \<lparr>q_text = p, q_answer = q_answer c\<rparr> @ mark (c\<lparr>q_text := q\<rparr>) = mark c"
  by (simp add: mark_def flip: map_append)

lemma mark_empty [simp]: "mark c = [] \<longleftrightarrow> q_text c = []"
  by (simp add: mark_def)

lemma length_mark [simp]: "length (mark c) = length (q_text c)"
  by (simp add: mark_def)

lemma batch_cost_nonneg: "batch_ok b \<Longrightarrow> 0 \<le> bt_cost b"
  by (simp add: batch_ok_def)

lemma texts_ok_Cons [simp]: "texts_ok (c # cs) \<longleftrightarrow> utf8 (q_text c) \<and> texts_ok cs"
  and texts_ok_append [simp]: "texts_ok (cs @ ds) \<longleftrightarrow> texts_ok cs \<and> texts_ok ds"
  and texts_ok_Nil [simp]: "texts_ok []"
  by (auto simp: texts_ok_def)

lemma fill_batch_skip: "q_text c = [] \<Longrightarrow> fill_batch sl (c # rest) b w = fill_batch sl rest b w"
  by (subst fill_batch.simps) simp

lemma fill_batch_cut:
  "q_text c \<noteq> [] \<Longrightarrow> cut_piece (q_text c) (nat (wr_budget w)) = (piece, raw) \<Longrightarrow>
   \<not> int (length piece) > room w b \<Longrightarrow>
   fill_batch sl (c # rest) b w = fill_batch sl (c\<lparr>q_text := raw\<rparr> # rest) (add_text piece (q_answer c) b) w"
  by (subst fill_batch.simps) simp

lemma fill_batch_room:
  "q_text c \<noteq> [] \<Longrightarrow> cut_piece (q_text c) (nat (wr_budget w)) = (piece, raw) \<Longrightarrow>
   int (length piece) > room w b \<Longrightarrow>
   fill_batch sl (c # rest) b w =
     (case make_room sl b w of
        (Some e, b1, w1) \<Rightarrow> Some (LeftOver (bt_items b1 @ c # rest) e, w1)
      | (None, b1, w1) \<Rightarrow> if wr_stopped w1 then Some (Dropped, w1) else fill_batch sl (c # rest) b1 w1)"
  by (subst fill_batch.simps) simp

lemma fill_batch_ok:
  assumes "names_message sl"
  shows "shaped q w \<Longrightarrow> \<not> wr_stopped w \<Longrightarrow> batch_ok b \<Longrightarrow> texts_ok (bt_items b) \<Longrightarrow> texts_ok items \<Longrightarrow>
    holds all (marks (bt_items b) @ marks items) w \<Longrightarrow>
    \<exists>r. fill_batch sl items b w = Some r \<and> fill_ok q all b items w r"
proof (induction "fill_measure items b w" arbitrary: items b w rule: less_induct)
  case less
  show ?case
  proof (cases items)
    case Nil
    with less.prems show ?thesis
      by (subst fill_batch.simps) (simp add: fill_ok_def rem_def)
  next
    case (Cons c rest)
    show ?thesis
    proof (cases "q_text c = []")
      case True
      with Cons less.prems have "holds all (marks (bt_items b) @ marks rest) w" by (simp add: mark_def)
      with less.hyps [of rest b w] less.prems Cons True obtain r where
        "fill_batch sl rest b w = Some r" "fill_ok q all b rest w r"
        by (auto simp: fill_measure_def)
      moreover have "rem b rest = rem b items" using Cons True by (simp add: rem_def)
      ultimately show ?thesis
        using fill_ok_weaken [of q all b rest w r b items w] Cons True by (simp add: fill_batch_skip)
    next
      case ne: False
      let ?bud = "nat (wr_budget w)"
      obtain piece raw where cut: "cut_piece (q_text c) ?bud = (piece, raw)" by fastforce
      have bud: "4 \<le> ?bud" using budget_bounds [OF less.prems(1)] by arith
      have u: "utf8 (q_text c)" using less.prems(5) Cons by simp
      have pieces: "piece @ raw = q_text c" "utf8 piece" "utf8 raw" "piece \<noteq> []" "length piece \<le> ?bud"
        using cut_piece_append [of "q_text c" ?bud] cut_piece_utf8 [OF u, of ?bud]
          cut_piece_progress [OF u ne bud] cut_piece_le [of "q_text c" ?bud] cut by simp_all
      show ?thesis
      proof (cases "int (length piece) > room w b")
        case False
        let ?b = "add_text piece (q_answer c) b" and ?items = "c\<lparr>q_text := raw\<rparr> # rest"
        have len: "length (q_text c) = length piece + length raw" using pieces(1) by (metis length_append)
        have ms: "marks (bt_items ?b) @ marks ?items = marks (bt_items b) @ marks items"
          using mark_split [OF pieces(1)] Cons by (simp add: add_text_def)
        obtain k where "length piece = Suc k" using pieces(4) by (cases piece) auto
        then have "fill_measure ?items ?b w < fill_measure items b w"
          using Cons len by (simp add: fill_measure_def add_text_def)
        moreover have "texts_ok (bt_items ?b)" "texts_ok ?items"
          using less.prems(4,5) Cons pieces by (simp_all add: add_text_def)
        ultimately obtain r where
          "fill_batch sl ?items ?b w = Some r" "fill_ok q all ?b ?items w r"
          using less.hyps [of ?items ?b w] less.prems(1,2,6) batch_ok_add [OF less.prems(3)] ms by metis
        moreover have "rem ?b ?items = rem b items"
          using Cons len by (simp add: rem_def add_text_def)
        ultimately show ?thesis
          using fill_ok_weaken [of q all ?b ?items w r b items w] Cons fill_batch_cut [OF ne cut False]
          by simp
      next
        case full: True
        obtain err b1 w1 where m: "make_room sl b w = (err, b1, w1)" by (metis prod_cases3)
        have ok: "step_ok all (marks items) (err, b1, w1)"
          using make_room_ok [OF less.prems(2,3,6), of sl] m by simp
        have sh: "step_shape q b w (err, b1, w1)"
          using make_room_shape [OF less.prems(1) assms batch_cost_nonneg [OF less.prems(3)]] m by metis
        from sh have b1: "b1 = b \<or> b1 = empty_batch" by (simp add: step_shape_def)
        then have sub: "texts_ok (bt_items b1)" "rem b1 items \<le> rem b items"
          using less.prems(4) by (auto simp: rem_def)
        have held: "held_content w1 \<Longrightarrow> held_content w \<or> rem b1 items < rem b items"
          using sh less.prems(3) by (auto simp: step_shape_def rem_def batch_ok_def)
        show ?thesis
        proof (cases err)
          case (Some e)
          have "fill_ok q all b items w (LeftOver (bt_items b1 @ items) e, w1)"
            using ok sh Some sub less.prems(5) by (auto simp: fill_ok_def step_ok_def step_shape_def rem_def)
          with Cons m Some fill_batch_room [OF ne cut full] show ?thesis by simp
        next
          case None
          show ?thesis
          proof (cases "wr_stopped w1")
            case True
            with ok sh have "fill_ok q all b items w (Dropped, w1)"
              by (simp add: fill_ok_def step_ok_def step_shape_def)
            with Cons m None True fill_batch_room [OF ne cut full] show ?thesis by simp
          next
            case False
            have empty: "bt_items b1 = []" using ok None False by (simp add: step_ok_def)
            have "fill_measure items b1 w1 < fill_measure items b w"
            proof (cases "bt_items b = []")
              case True
              from make_room_empty [OF less.prems(1) True less.prems(3)] m None
              have "room w1 b1 = wr_budget w1" by simp
              with True empty full pieces(5) bud show ?thesis by (simp add: fill_measure_def)
            next
              case nonempty: False
              with empty show ?thesis by (simp add: fill_measure_def)
            qed
            moreover have "shaped q w1" using sh by (simp add: step_shape_def)
            ultimately obtain r where
              "fill_batch sl items b1 w1 = Some r" "fill_ok q all b1 items w1 r"
              using less.hyps [of items b1 w1] less.prems(5) ok sub(1) False by (auto simp: step_ok_def)
            moreover from this have "fill_ok q all b items w r"
              using fill_ok_weaken [of q all b1 items w1 r b items w] sub(2) held by blast
            ultimately show ?thesis using Cons m None False fill_batch_room [OF ne cut full] by simp
          qed
        qed
      qed
    qed
  qed
qed

text \<open>What one pass, and then the whole delivery, hands back.\<close>

definition send_shape :: "frame \<Rightarrow> nat \<Rightarrow> bool \<Rightarrow> send_result \<Rightarrow> bool" where
  "send_shape q n held r \<longleftrightarrow>
     (case r of (unsent, err, w') \<Rightarrow>
        shaped q w' \<and> texts_ok unsent \<and> length (marks unsent) \<le> n \<and>
        (\<forall>e. err = Some e \<longrightarrow> is_overflow e \<longrightarrow>
          (held \<or> length (marks unsent) < n) \<and> (\<not> wr_stopped w' \<longrightarrow> \<not> held_content w')))"

lemma close_open_shape:
  assumes "shaped q w" and "texts_ok (bt_items b)"
  shows "send_shape q (rem b []) (held_content w) (close_open sl b w)"
proof -
  let ?chunks = "fst (chunk_bodies (bt_items b))"
  let ?c = "StopStream (wr_channel w) (wr_stream_ts w) ?chunks (failed_calls_blocks w) (exit_session_status w)"
  show ?thesis
  proof (cases "sl (wr_calls w) ?c")
    case (Inr ts)
    with assms show ?thesis
      by (simp add: close_open_def stop_stream_def send_shape_def writer_simps shaped_def)
  next
    case (Inl e)
    let ?w1 = "w\<lparr>wr_calls := wr_calls w @ [(?c, Inl e)]\<rparr>"
    have s1: "shaped q ?w1" "held_content ?w1 = held_content w"
      using assms(1) by (simp_all add: shaped_def held_content_def)
    obtain e' w2 where o: "overflow_stream sl e ?w1 = (e', w2)" by fastforce
    have "shaped q (note_delivered (drop_stream ?w1))" using s1(1) by (simp add: shaped_def)
    with Inl o overflow_shape [OF s1(1) o] s1 shaped_quiet [OF s1(1)] assms(2) show ?thesis
      by (auto simp: close_open_def stop_stream_def send_shape_def slack_do_def Let_def rem_def)
  qed
qed

lemma close_batch_shape:
  assumes "shaped q w" and "names_message sl" and "batch_ok b" and "texts_ok (bt_items b)"
  shows "send_shape q (rem b []) (held_content w) (close_batch sl b w)"
proof (cases "wr_stream_ts w = [] \<or> wr_adopted w")
  case False
  with close_open_shape [OF assms(1,4)] show ?thesis by (simp add: close_batch_def)
next
  case True
  obtain err b1 w1 where d: "deliver_batch sl b w = (err, b1, w1)" by (metis prod_cases3)
  have sh: "step_shape q b w (err, b1, w1)"
    using deliver_batch_shape [OF assms(1,2) batch_cost_nonneg [OF assms(3)]] d by metis
  then have b1: "texts_ok (bt_items b1)" "rem b1 [] \<le> rem b []"
    "held_content w1 \<Longrightarrow> held_content w \<or> rem b1 [] < rem b []" "shaped q w1"
    using assms(3,4) by (auto simp: step_shape_def rem_def batch_ok_def)
  have weaken: "send_shape q (rem b []) (held_content w) (close_open sl b1 w1)"
    using close_open_shape [OF b1(4,1), of sl] b1(2,3) unfolding send_shape_def
    by (auto split: prod.splits)
  show ?thesis
  proof (cases err)
    case None
    with True d weaken b1 show ?thesis by (auto simp: close_batch_def send_shape_def)
  next
    case (Some e)
    with True d sh b1 show ?thesis
      by (auto simp: close_batch_def send_shape_def step_shape_def rem_def)
  qed
qed

text \<open>A closing pass that succeeds leaves no message open.\<close>

definition ends_closed :: "bool \<Rightarrow> send_result \<Rightarrow> bool" where
  "ends_closed closing r \<longleftrightarrow>
     (case r of (unsent, err, w) \<Rightarrow> closing \<longrightarrow> err = None \<longrightarrow> wr_stream_ts w = [])"

lemma close_open_closes: "ends_closed True (close_open sl b w)"
  by (auto simp: close_open_def stop_stream_def ends_closed_def slack_do_def Let_def split_beta
      split: sum.splits if_splits)

lemma close_batch_closes: "ends_closed True (close_batch sl b w)"
proof (cases "wr_stream_ts w = [] \<or> wr_adopted w")
  case True
  obtain err b1 w1 where d: "deliver_batch sl b w = (err, b1, w1)" by (metis prod_cases3)
  with True close_open_closes [of sl b1 w1] show ?thesis
    by (cases err) (auto simp: close_batch_def ends_closed_def)
next
  case False
  with close_open_closes [of sl b w] show ?thesis by (simp add: close_batch_def)
qed

lemma send_once_ok:
  assumes "names_message sl" and "shaped q w" and "\<not> wr_stopped w" and "texts_ok items"
    and "holds all (marks items) w"
  obtains r where "send_queued_once sl items closing w = Some r" and "send_ok all r"
    and "send_shape q (length (marks items)) (held_content w) r" and "ends_closed closing r"
proof -
  obtain f w1 where f: "fill_batch sl items empty_batch w = Some (f, w1)" "fill_ok q all empty_batch items w (f, w1)"
    using fill_batch_ok [OF assms(1-3), of empty_batch items all] assms(4,5)
    by (metis batch_ok_empty empty_batch_simps(1) marks_simps(1) prod.exhaust self_append_conv2 texts_ok_Nil)
  have rem0: "rem empty_batch items = length (marks items)" by (simp add: rem_def)
  have "\<exists>r. send_queued_once sl items closing w = Some r \<and> send_ok all r \<and>
    send_shape q (length (marks items)) (held_content w) r \<and> ends_closed closing r"
  proof (cases f)
    case Dropped
    with f show ?thesis
      by (auto simp: send_queued_once_def fill_ok_def send_ok_def send_shape_def ends_closed_def reply_cut_def)
  next
    case (LeftOver left e)
    with f rem0 show ?thesis
      by (auto simp: send_queued_once_def fill_ok_def send_ok_def send_shape_def ends_closed_def split: if_splits)
  next
    case (Filled b)
    with f rem0 have b: "shaped q w1" "\<not> wr_stopped w1" "batch_ok b" "texts_ok (bt_items b)"
      "holds all (marks (bt_items b)) w1" "rem b [] \<le> length (marks items)"
      "held_content w1 \<Longrightarrow> held_content w \<or> rem b [] < length (marks items)"
      by (auto simp: fill_ok_def)
    show ?thesis
    proof (cases closing)
      case True
      have "send_shape q (length (marks items)) (held_content w) (close_batch sl b w1)"
        using close_batch_shape [OF b(1) assms(1) b(3,4)] b(6,7) unfolding send_shape_def
        by (auto split: prod.splits)
      with True Filled f(1) close_batch_ok [OF b(2,3,5), of sl] close_batch_closes show ?thesis
        by (simp add: send_queued_once_def)
    next
      case False
      obtain err b1 w2 where d: "deliver_batch sl b w1 = (err, b1, w2)" by (metis prod_cases3)
      have ok: "step_ok all [] (err, b1, w2)" using deliver_batch_ok [of w1 b all "[]" sl] b d by simp
      have sh: "step_shape q b w1 (err, b1, w2)"
        using deliver_batch_shape [OF b(1) assms(1) batch_cost_nonneg [OF b(3)]] d by metis
      from sh b have b1: "texts_ok (bt_items b1)" "rem b1 [] \<le> rem b []" "shaped q w2"
        by (auto simp: step_shape_def rem_def)
      show ?thesis
      proof (cases err)
        case None
        with False Filled f(1) d ok b1 show ?thesis
          by (auto simp: send_queued_once_def send_ok_def send_shape_def step_ok_def ends_closed_def)
      next
        case (Some e)
        with False Filled f(1) d ok sh b1 b(6,7) show ?thesis
          by (auto simp: send_queued_once_def send_ok_def send_shape_def step_ok_def step_shape_def rem_def ends_closed_def)
      qed
    qed
  qed
  with that show thesis by blast
qed

text \<open>A second overflow on a message comes after something landed on it.\<close>

lemma send_queued_ok:
  assumes "names_message sl"
  shows "shaped q w \<Longrightarrow> \<not> wr_stopped w \<Longrightarrow> texts_ok items \<Longrightarrow> holds all (marks items) w \<Longrightarrow>
    \<exists>unsent err w'. send_queued sl items closing w = Some (unsent, err, w') \<and> shaped q w' \<and> texts_ok unsent \<and>
      (if wr_stopped w' then reply_cut all w' \<and> err = None
       else holds all (marks unsent) w' \<and> (err = None \<longrightarrow> unsent = [])) \<and>
      (closing \<longrightarrow> err = None \<longrightarrow> wr_stream_ts w' = [])"
proof (induction "2 * length (marks items) + (if held_content w then 1 else 0)" arbitrary: items w
    rule: less_induct)
  case less
  obtain unsent err w1 where s: "send_queued_once sl items closing w = Some (unsent, err, w1)"
    "send_ok all (unsent, err, w1)"
    "send_shape q (length (marks items)) (held_content w) (unsent, err, w1)"
    "ends_closed closing (unsent, err, w1)"
    using send_once_ok [OF assms less.prems] by (metis prod_cases3)
  show ?case
  proof (cases "\<exists>e. err = Some e \<and> is_overflow e")
    case False
    with s show ?thesis
      by (subst send_queued.simps)
        (auto simp: send_ok_def send_shape_def ends_closed_def split: option.splits if_splits)
  next
    case True
    show ?thesis
    proof (cases "wr_stopped w1")
      case stop: True
      with True s show ?thesis
        by (subst send_queued.simps) (auto simp: send_ok_def send_shape_def reply_cut_def)
    next
      case False
      from True False s have st: "shaped q w1" "texts_ok unsent" "holds all (marks unsent) w1"
        "\<not> held_content w1" "length (marks unsent) \<le> length (marks items)"
        "held_content w \<or> length (marks unsent) < length (marks items)"
        by (auto simp: send_ok_def send_shape_def reply_cut_def)
      then have "2 * length (marks unsent) + (if held_content w1 then 1 else 0)
        < 2 * length (marks items) + (if held_content w then 1 else 0)" by auto
      from less.hyps [OF this st(1) False st(2,3)] True False s(1) show ?thesis
        by (subst send_queued.simps) auto
    qed
  qed
qed

subsection \<open>A flush\<close>

definition delivered_part :: "(char \<times> bool) list \<Rightarrow> writer \<Rightarrow> bool" where
  "delivered_part all w \<longleftrightarrow> (\<exists>dn. landed w dn \<and> prefix dn all)"

definition turn_ok :: "int \<times> bool \<times> int \<Rightarrow> (char \<times> bool) list \<Rightarrow> writer \<Rightarrow> bool" where
  "turn_ok k all w \<longleftrightarrow>
     shaped (wr_queue w, k) w \<and> texts_ok (wr_queue w) \<and> delivered_part all w \<and>
     (\<not> wr_stopped w \<and> \<not> wr_failed w \<longrightarrow> holds all [] w) \<and>
     (wr_stopped w \<longrightarrow> wr_stream_ts w = [])"

lemma holds_part: "holds all hand w \<Longrightarrow> delivered_part all w"
  unfolding holds_def delivered_part_def by (metis prefixI)

lemma reply_cut_part: "reply_cut all w \<Longrightarrow> delivered_part all w"
  unfolding reply_cut_def delivered_part_def by blast

lemma delivered_part_cong:
  "delivered_part all w \<Longrightarrow> wr_calls w' = wr_calls w \<Longrightarrow> wr_appended_len w' = wr_appended_len w \<Longrightarrow>
   delivered_part all w'"
  unfolding delivered_part_def by (metis landed_cong)

lemma delivered_part_more: "delivered_part all w \<Longrightarrow> delivered_part (all @ x) w"
  unfolding delivered_part_def by (metis prefix_prefix)

lemma take_queued_keeps:
  "take_queued final w = (items, w') \<Longrightarrow>
   wr_calls w' = wr_calls w \<and> wr_appended_len w' = wr_appended_len w \<and> wr_stopped w' = wr_stopped w \<and>
   wr_failed w' = wr_failed w \<and> (shaped (wr_queue w, k) w \<longrightarrow> shaped (wr_queue w', k) w') \<and> wr_stream_ts w' = wr_stream_ts w"
  by (auto simp: take_queued_def Let_def shaped_def split: if_splits option.splits)

lemma take_queued_splits:
  assumes "take_queued final w = (items, w')" and "texts_ok (wr_queue w)"
  shows "marks items @ marks (wr_queue w') = marks (wr_queue w) \<and> texts_ok items \<and> texts_ok (wr_queue w') \<and>
    (final \<longrightarrow> wr_queue w' = [])"
proof (cases "wr_queue w = []")
  case True
  with assms show ?thesis by (auto simp: take_queued_def)
next
  case ne: False
  let ?l = "last (wr_queue w)"
  have q: "wr_queue w = butlast (wr_queue w) @ [?l]" using ne by simp
  have u: "texts_ok (butlast (wr_queue w))" "utf8 (q_text ?l)"
    using assms(2) ne by (auto simp: texts_ok_def dest: in_set_butlastD)
  show ?thesis
  proof (cases "final \<or> \<not> q_answer ?l")
    case True
    with assms ne show ?thesis by (auto simp: take_queued_def Let_def)
  next
    case False
    show ?thesis
    proof (cases "last_index_func is_space (q_text ?l)")
      case None
      with False assms(1) ne have "items = butlast (wr_queue w)" "wr_queue w' = [?l]"
        by (auto simp: take_queued_def Let_def)
      with u q False show ?thesis by (metis marks_simps(3) texts_ok_Cons texts_ok_Nil)
    next
      case (Some i)
      let ?k = "i + snd (decode_rune (map of_char (drop i (q_text ?l))))"
      from Some False assms(1) ne have it:
        "items = butlast (wr_queue w) @ [\<lparr>q_text = take ?k (q_text ?l), q_answer = True\<rparr>]"
        "wr_queue w' = (if drop ?k (q_text ?l) \<noteq> []
          then [\<lparr>q_text = drop ?k (q_text ?l), q_answer = True\<rparr>] else [])"
        by (auto simp: take_queued_def Let_def)
      have "last_index_func is_space (take (length (q_text ?l)) (q_text ?l)) = Some i" using Some by simp
      from last_space_boundary [OF u(2) this] u(2)
      have "utf8 (take ?k (q_text ?l))" "utf8 (drop ?k (q_text ?l))"
        by (simp_all add: utf8_take utf8_drop)
      moreover have "mark \<lparr>q_text = take ?k (q_text ?l), q_answer = True\<rparr> @
          marks (wr_queue w') = mark ?l"
        using False unfolding it(2) by (auto simp: mark_def simp flip: map_append)
      moreover have "marks (wr_queue w) = marks (butlast (wr_queue w)) @ mark ?l"
        by (subst q) simp
      ultimately show ?thesis using u False it by simp
    qed
  qed
qed

lemma send_and_put_back:
  assumes "names_message sl" and "turn_ok k all w" and "\<not> wr_stopped w" and "\<not> wr_failed w"
    and "take_queued final w = (items, w1)"
  obtains err w2 where
    "(do { (unsent, err, w2) \<leftarrow> send_queued sl items closing w1;
           Some (err, if err = None then w2 else put_back_queued unsent w2) }) = Some (err, w2)"
    and "turn_ok k all w2" and "err = None \<Longrightarrow> final \<Longrightarrow> wr_queue w2 = []"
    and "err = None \<Longrightarrow> closing \<Longrightarrow> wr_stream_ts w2 = []"
proof -
  note kept = take_queued_keeps [OF assms(5), of k]
  have split: "marks items @ marks (wr_queue w1) = marks (wr_queue w)" "texts_ok items" "texts_ok (wr_queue w1)"
    "final \<Longrightarrow> wr_queue w1 = []"
    using take_queued_splits [OF assms(5)] assms(2) by (auto simp: turn_ok_def)
  obtain dn where dn: "landed w dn" "all = dn @ marks (wr_queue w)"
    using assms(2-4) by (auto simp: turn_ok_def holds_def)
  have "landed w1 = landed w" by (rule landed_cong) (use kept in simp_all)
  with dn split(1) have h: "holds all (marks items) w1" unfolding holds_def by metis
  have w1: "shaped (wr_queue w1, k) w1" "\<not> wr_stopped w1" using kept assms(2,3) by (auto simp: turn_ok_def)
  from send_queued_ok [OF assms(1) w1 split(2) h] obtain unsent err w2 where
    s: "send_queued sl items closing w1 = Some (unsent, err, w2)" "shaped (wr_queue w1, k) w2" "texts_ok unsent"
    "if wr_stopped w2 then reply_cut all w2 \<and> err = None
     else holds all (marks unsent) w2 \<and> (err = None \<longrightarrow> unsent = [])"
    "closing \<longrightarrow> err = None \<longrightarrow> wr_stream_ts w2 = []" by metis
  from s(2) split(3) have q2: "wr_queue w2 = wr_queue w1 \<or> wr_queue w2 = []" "texts_ok (wr_queue w2)"
    by (auto simp: shaped_def)
  show thesis
  proof (cases "err = None")
    case True
    with s(1,4) have "delivered_part all w2" "\<not> wr_stopped w2 \<longrightarrow> holds all [] w2"
      by (auto intro: reply_cut_part holds_part split: if_splits)
    moreover have "wr_stopped w2 \<longrightarrow> wr_stream_ts w2 = []" using s(4) by (auto simp: reply_cut_def split: if_splits)
    ultimately have "turn_ok k all w2" using s(2) q2 by (auto simp: turn_ok_def shaped_def)
    with True s(1,5) q2 split(4) show thesis by (intro that [of err w2]) auto
  next
    case False
    let ?w3 = "put_back_queued unsent w2"
    have "holds all (marks unsent) w2" "\<not> wr_stopped w2" using False s(4) by (auto split: if_splits)
    then have "holds all [] ?w3" unfolding holds_def
      by (auto simp: put_back_queued_def landed_def accepted_def)
    moreover have "texts_ok (wr_queue ?w3)" using s(3) q2(2) by (simp add: put_back_queued_def)
    moreover have "shaped (wr_queue ?w3, k) ?w3" using s(2) by (simp add: put_back_queued_def shaped_def)
    ultimately have "turn_ok k all ?w3" using \<open>\<not> wr_stopped w2\<close> by (auto simp: turn_ok_def put_back_queued_def intro: holds_part)
    with False s(1) show thesis by (intro that [of err ?w3]) auto
  qed
qed

lemma turn_ok_dropped:
  assumes "turn_ok k all w" and "wr_stopped w \<or> wr_failed w"
  shows "turn_ok k all (snd (take_queued True w))"
proof -
  obtain items w1 where t: "take_queued True w = (items, w1)" by fastforce
  from take_queued_keeps [OF t, of k] take_queued_splits [OF t] assms t show ?thesis
    by (auto simp: turn_ok_def delivered_part_def landed_def accepted_def)
qed

lemma turn_ok_taken_none:
  assumes "turn_ok k all w" and "take_queued final w = ([], w1)"
  shows "turn_ok k all w1"
proof -
  have "marks (wr_queue w1) = marks (wr_queue w)" "texts_ok (wr_queue w1)"
    using take_queued_splits [OF assms(2)] assms(1) by (auto simp: turn_ok_def)
  with take_queued_keeps [OF assms(2), of k] assms(1) show ?thesis
    unfolding turn_ok_def by (auto simp: delivered_part_def holds_def landed_def accepted_def)
qed

lemma close_stream_ok:
  assumes "names_message sl" and "turn_ok k all w"
  obtains err w' where "close_stream sl w = Some (err, w')" and "turn_ok k all w'"
    and "err = None \<Longrightarrow> wr_queue w' = [] \<and> wr_stream_ts w' = []"
proof (cases "wr_stopped w \<or> wr_failed w")
  case True
  have "wr_queue (snd (take_queued True w)) = []" "wr_stopped w \<longrightarrow> wr_stream_ts (snd (take_queued True w)) = []"
    using assms(2) by (simp_all add: take_queued_def Let_def turn_ok_def)
  with True turn_ok_dropped [OF assms(2) True] that show thesis
    by (cases "wr_stopped w") (auto simp: close_stream_def)
next
  case False
  obtain items w1 where t: "take_queued True w = (items, w1)" by fastforce
  show thesis
  proof (cases "items = [] \<and> wr_stream_ts w1 = []")
    case True
    moreover have "wr_queue w1 = []"
      using take_queued_splits [OF t] assms(2) by (auto simp: turn_ok_def)
    ultimately show thesis using False t that [of None w1] turn_ok_taken_none [OF assms(2), of True w1]
      by (simp add: close_stream_def)
  next
    case some: False
    have live: "\<not> wr_stopped w" "\<not> wr_failed w" using False by auto
    show thesis
    proof (rule send_and_put_back [OF assms live t, of True])
      fix err w2
      assume sent: "(do { (unsent, err, w2) \<leftarrow> send_queued sl items True w1;
           Some (err, if err = None then w2 else put_back_queued unsent w2) }) = Some (err, w2)"
        and "turn_ok k all w2" and "err = None \<Longrightarrow> True \<Longrightarrow> wr_queue w2 = []"
        and "err = None \<Longrightarrow> True \<Longrightarrow> wr_stream_ts w2 = []"
      moreover have "close_stream sl w = (do { (unsent, err, w2) \<leftarrow> send_queued sl items True w1;
           Some (err, if err = None then w2 else put_back_queued unsent w2) })"
        using some live t unfolding close_stream_def by auto
      ultimately show thesis by (intro that [of err w2]) simp_all
    qed
  qed
qed

lemma flush_queued_ok:
  assumes "names_message sl" and "turn_ok k all w"
  obtains err w' where "flush_queued sl w = Some (err, w')" and "turn_ok k all w'"
proof (cases "wr_stopped w \<or> wr_failed w")
  case True
  with turn_ok_dropped [OF assms(2) True] that show thesis
    by (cases "wr_stopped w") (auto simp: flush_queued_def)
next
  case False
  obtain items w1 where t: "take_queued False w = (items, w1)" by fastforce
  show thesis
  proof (cases "items = []")
    case True
    with False t that turn_ok_taken_none [OF assms(2), of False w1] show thesis
      by (simp add: flush_queued_def)
  next
    case some: False
    obtain err w2 where
      "(do { (unsent, err, w2) \<leftarrow> send_queued sl items False w1;
           Some (err, if err = None then w2 else put_back_queued unsent w2) }) = Some (err, w2)"
      "turn_ok k all w2"
      using send_and_put_back [OF assms _ _ t, of False] False by auto
    moreover have "flush_queued sl w = (do { (unsent, err, w2) \<leftarrow> send_queued sl items False w1;
           Some (err, if err = None then w2 else put_back_queued unsent w2) })"
      using some False t by (simp add: flush_queued_def)
    ultimately show thesis by (intro that [of err w2]) simp_all
  qed
qed

text \<open>\<open>turn_ok\<close> sees only these fields.\<close>

lemma turn_ok_cong:
  "turn_ok k all w \<Longrightarrow> wr_calls w' = wr_calls w \<Longrightarrow> wr_appended_len w' = wr_appended_len w \<Longrightarrow>
   wr_queue w' = wr_queue w \<Longrightarrow> wr_stream_ts w' = wr_stream_ts w \<Longrightarrow> wr_streamed w' = wr_streamed w \<Longrightarrow>
   wr_adopted w' = wr_adopted w \<Longrightarrow> wr_size_budget w' = wr_size_budget w \<Longrightarrow>
   wr_stopped w' = wr_stopped w \<Longrightarrow> wr_failed w' = wr_failed w \<Longrightarrow>
   wr_skip_text w' = wr_skip_text w \<Longrightarrow> wr_trim_lead w' = wr_trim_lead w \<Longrightarrow>
   wr_lead_trimmed w' = wr_lead_trimmed w \<Longrightarrow> turn_ok k all w'"
  unfolding turn_ok_def
  by (simp add: shaped_def delivered_part_def holds_def landed_def accepted_def)

lemma tick_flush_ok:
  assumes "names_message sl" and "turn_ok k all w"
  obtains w' where "tick_flush sl t w = Some w'" and "turn_ok k all w'"
proof (cases "t < wr_flush_retry_at w")
  case True
  with assms that show thesis by (simp add: tick_flush_def)
next
  case False
  obtain err w1 where f: "flush_queued sl w = Some (err, w1)" "turn_ok k all w1"
    by (rule flush_queued_ok [OF assms])
  have "turn_ok k all (if err \<noteq> None then note_flush_failure t w1 else w1\<lparr>wr_flush_failures := 0\<rparr>)"
    by (rule turn_ok_cong [OF f(2)]) (simp_all add: note_flush_failure_def Let_def)
  with f(1) False that show thesis by (simp add: tick_flush_def)
qed

lemma final_flush_from_ok:
  assumes "names_message sl" and "turn_ok k all w"
  shows "\<exists>err w'. final_flush_from left again sl attempt w = Some (err, w') \<and> turn_ok k all w' \<and>
    (err = None \<longrightarrow> wr_queue w' = [] \<and> wr_stream_ts w' = [])"
  using assms(2)
proof (induction left arbitrary: attempt w)
  case 0
  obtain err w' where "close_stream sl w = Some (err, w')" "turn_ok k all w'" "err = None \<Longrightarrow> wr_queue w' = [] \<and> wr_stream_ts w' = []"
    using close_stream_ok [OF assms(1) 0] by blast
  then show ?case by (cases err) auto
next
  case (Suc n)
  obtain err w' where c: "close_stream sl w = Some (err, w')" "turn_ok k all w'" "err = None \<Longrightarrow> wr_queue w' = [] \<and> wr_stream_ts w' = []"
    using close_stream_ok [OF assms(1) Suc.prems] by blast
  with Suc.IH [OF c(2), of "attempt + 1"] show ?case by (cases err) auto
qed

lemma queue_answer_ok:
  assumes "turn_ok k all w" and "utf8 s"
  shows "turn_ok k (all @ map (\<lambda>ch. (ch, True)) s) (queue_answer s w)"
proof -
  have "marks (wr_queue (queue_answer s w)) = marks (wr_queue w) @ map (\<lambda>ch. (ch, True)) s \<and>
    (texts_ok (wr_queue w) \<longrightarrow> texts_ok (wr_queue (queue_answer s w)))"
  proof (cases "wr_queue w \<noteq> [] \<and> q_answer (last (wr_queue w))")
    case True
    then have "wr_queue w = butlast (wr_queue w) @ [last (wr_queue w)]" by simp
    with True assms(2) show ?thesis
      by (cases "wr_queue w" rule: rev_cases) (auto simp: queue_answer_def Let_def mark_def)
  next
    case False
    with assms(2) show ?thesis by (auto simp: queue_answer_def Let_def mark_def)
  qed
  moreover have "wr_calls (queue_answer s w) = wr_calls w" "wr_appended_len (queue_answer s w) = wr_appended_len w"
    "wr_stopped (queue_answer s w) = wr_stopped w" "wr_stream_ts (queue_answer s w) = wr_stream_ts w" "wr_failed (queue_answer s w) = wr_failed w"
    "shaped (wr_queue w, k) w \<Longrightarrow> shaped (wr_queue (queue_answer s w), k) (queue_answer s w)"
    by (auto simp: queue_answer_def Let_def shaped_def)
  moreover have "delivered_part (all @ map (\<lambda>ch. (ch, True)) s) w"
    using assms(1) by (simp add: turn_ok_def delivered_part_more)
  ultimately show ?thesis using assms(1) unfolding turn_ok_def
    by (auto simp: delivered_part_def holds_def landed_def accepted_def)
qed

lemma queue_narration_ok:
  assumes "turn_ok k all w" and "utf8 s"
  shows "turn_ok k (all @ map (\<lambda>ch. (ch, False)) s) (queue_narration s w)"
proof -
  have "wr_calls (queue_narration s w) = wr_calls w" "wr_appended_len (queue_narration s w) = wr_appended_len w"
    "wr_stopped (queue_narration s w) = wr_stopped w" "wr_stream_ts (queue_narration s w) = wr_stream_ts w" "wr_failed (queue_narration s w) = wr_failed w"
    "marks (wr_queue (queue_narration s w)) = marks (wr_queue w) @ map (\<lambda>ch. (ch, False)) s"
    "texts_ok (wr_queue w) \<Longrightarrow> texts_ok (wr_queue (queue_narration s w))"
    "shaped (wr_queue w, k) w \<Longrightarrow> shaped (wr_queue (queue_narration s w), k) (queue_narration s w)"
    using assms(2) by (auto simp: queue_narration_def shaped_def mark_def)
  moreover have "delivered_part (all @ map (\<lambda>ch. (ch, False)) s) w"
    using assms(1) by (simp add: turn_ok_def delivered_part_more)
  ultimately show ?thesis using assms(1) unfolding turn_ok_def
    by (auto simp: delivered_part_def holds_def landed_def accepted_def)
qed

end
