(* ===== verification/ToolLog.thy ===== *)
theory ToolLog
  imports Mrkdwn A2A
begin

section \<open>The tool log of a thread\<close>

text \<open>
  What a turn's tool activity becomes: \<open>stream.go\<close> reads a tool result (which tool it is of,
  what it says, whether it is an error), \<open>inspect.go\<close> keeps the calls of each thread and renders
  them, \<open>toolnames.go\<close> titles them. JSON text is decoded and indented by \<open>encoding/json\<close>,
  which is a parameter: \<open>parse\<close> returns the document a text is, \<open>indent\<close> the document's
  indented text. So is \<open>unicode.ToUpper\<close>.
\<close>

subsection \<open>Reading a tool result\<close>

definition call_tool :: string where
  "call_tool = ''call_tool''"

definition unwrap_call_tool :: "tool_activity \<Rightarrow> (string \<times> json_map) option" where
  "unwrap_call_tool t =
     (if ta_name t \<noteq> call_tool then None
      else let inner = or_empty (as_string (map_of (ta_args t) ''name''))
           in case as_map (map_of (ta_args t) ''arguments'') of
                Some args \<Rightarrow> if inner = [] then None else Some (inner, args)
              | None \<Rightarrow> None)"

text \<open>The text items of an MCP envelope, other items as their type; None when one is neither.\<close>

fun content_texts :: "json list \<Rightarrow> string list option" where
  "content_texts [] = Some []"
| "content_texts (JObj m # items) =
     (case as_string (map_of m ''text'') of
        Some s \<Rightarrow> map_option (Cons s) (content_texts items)
      | None \<Rightarrow>
          (case as_string (map_of m ''type'') of
             Some ty \<Rightarrow> map_option (Cons (''['' @ ty @ '']'')) (content_texts items)
           | None \<Rightarrow> None))"
| "content_texts (_ # items) = None"

text \<open>\<open>toolResultText\<close>: the text, when the payload carries one, and whether it is an error.\<close>

definition tool_result_text :: "json_map \<Rightarrow> string option \<times> bool" where
  "tool_result_text v =
     (let flag = as_bool (map_of v ''isError''); is_err = (flag = Some True)
      in case map_of v ''content'' of
           Some (JArr items) \<Rightarrow> (map_option (join [newline]) (content_texts items), is_err)
         | _ \<Rightarrow>
             (let carriers = int (length v) - (if flag \<noteq> None then 1 else 0)
              in if carriers \<noteq> 1 then (None, is_err)
                 else case as_string (map_of v ''output'') of
                   Some out \<Rightarrow> (Some out, is_err)
                 | None \<Rightarrow>
                   (case as_string (map_of v ''result'') of
                      Some out \<Rightarrow> (Some out, is_err)
                    | None \<Rightarrow>
                      (case as_string (map_of v ''error'') of
                         Some msg \<Rightarrow> (Some msg, True)
                       | None \<Rightarrow> (None, is_err)))))"

definition decode_document :: "(string \<Rightarrow> json option) \<Rightarrow> string \<Rightarrow> json option" where
  "decode_document parse s =
     (let t = trim_space_bytes s
      in if has_prefix t ''{'' \<or> has_prefix t ''['' then parse t else None)"

definition max_unwrap_depth :: nat where
  "max_unwrap_depth = 4"

definition indent_json :: "(json \<Rightarrow> string option) \<Rightarrow> json_map \<Rightarrow> nat \<Rightarrow> string" where
  "indent_json indent v mx =
     (if v = [] then []
      else case indent (JObj v) of None \<Rightarrow> [] | Some s \<Rightarrow> truncate_runes s mx)"

definition indent_value :: "(json \<Rightarrow> string option) \<Rightarrow> json \<Rightarrow> nat \<Rightarrow> string" where
  "indent_value indent v mx = (case indent v of None \<Rightarrow> [] | Some s \<Rightarrow> truncate_runes s mx)"

definition collapse_space :: "string \<Rightarrow> string" where
  "collapse_space s = of_runes (join_runes (rune_fields (runes_of s)))"

text \<open>The loop of \<open>toolResultPreview\<close>: unwrap the text while it is an envelope, then render.\<close>

fun preview_from ::
  "(string \<Rightarrow> json option) \<Rightarrow> (json \<Rightarrow> string option) \<Rightarrow> json_map \<Rightarrow> nat \<Rightarrow> nat \<Rightarrow> string \<Rightarrow> bool \<Rightarrow> string \<times> bool"
where
  "preview_from parse indent resp mx 0 s is_err =
     (let t = collapse_space s
      in (if t = [] then indent_json indent resp mx else truncate_runes t mx, is_err))"
| "preview_from parse indent resp mx (Suc left) s is_err =
     (case decode_document parse s of
        None \<Rightarrow>
          (let t = collapse_space s
           in (if t = [] then indent_json indent resp mx else truncate_runes t mx, is_err))
      | Some (JObj m) \<Rightarrow>
          (case tool_result_text m of
             (Some inner, inner_err) \<Rightarrow>
               preview_from parse indent resp mx left inner (is_err \<or> inner_err)
           | (None, inner_err) \<Rightarrow> (indent_value indent (JObj m) mx, is_err \<or> inner_err))
      | Some v \<Rightarrow> (indent_value indent v mx, is_err))"

definition tool_result_preview ::
  "(string \<Rightarrow> json option) \<Rightarrow> (json \<Rightarrow> string option) \<Rightarrow> json_map \<Rightarrow> nat \<Rightarrow> string \<times> bool"
where
  "tool_result_preview parse indent resp mx =
     (case tool_result_text resp of
        (None, is_err) \<Rightarrow> (indent_json indent resp mx, is_err)
      | (Some s, is_err) \<Rightarrow> preview_from parse indent resp mx max_unwrap_depth s is_err)"

definition tool_object_name :: "json option \<Rightarrow> string" where
  "tool_object_name v =
     (case as_map v of None \<Rightarrow> [] | Some m \<Rightarrow> or_empty (as_string (map_of m ''name'')))"

definition leading_result_text :: "json_map \<Rightarrow> string" where
  "leading_result_text resp =
     (case map_of resp ''content'' of
        Some (JArr items) \<Rightarrow>
          (case items of
             JObj m # _ \<Rightarrow> or_empty (as_string (map_of m ''text''))
           | _ \<Rightarrow> [])
      | _ \<Rightarrow> or_empty (fst (tool_result_text resp)))"

fun dispatched_from :: "(string \<Rightarrow> json option) \<Rightarrow> nat \<Rightarrow> json_map \<Rightarrow> string" where
  "dispatched_from parse 0 resp = []"
| "dispatched_from parse (Suc left) resp =
     (let meta = (case as_map (map_of resp ''_meta'') of
            None \<Rightarrow> [] | Some m \<Rightarrow> tool_object_name (map_of m ''muster.giantswarm.io/tool''));
          tool = tool_object_name (map_of resp ''tool'')
      in if meta \<noteq> [] then meta
         else if tool \<noteq> [] then tool
         else case decode_document parse (leading_result_text resp) of
                Some (JObj m) \<Rightarrow> dispatched_from parse left m
              | _ \<Rightarrow> [])"

definition effective_tool_name :: "(string \<Rightarrow> json option) \<Rightarrow> tool_activity \<Rightarrow> string" where
  "effective_tool_name parse t =
     (let inner = dispatched_from parse max_unwrap_depth (ta_response t)
      in if ta_name t = call_tool \<and> inner \<noteq> [] then inner else ta_name t)"

subsection \<open>The log\<close>

datatype tool_state = ToolRunning | ToolDone | ToolFailed | ToolAwaitingApproval

record tool_log_entry =
  tl_id :: nat
  tl_turn :: nat
  tl_call_id :: string
  tl_name :: string
  tl_via_muster :: bool
  tl_called :: bool
  tl_args :: string
  tl_state :: tool_state
  tl_result :: string

record thread_tool_log =
  tg_turns :: nat
  tg_dropped :: nat
  tg_ids :: nat
  tg_entries :: "tool_log_entry list"

definition max_tool_log_entries :: nat where
  "max_tool_log_entries = 100"

definition empty_log :: thread_tool_log where
  "empty_log = \<lparr>tg_turns = 0, tg_dropped = 0, tg_ids = 0, tg_entries = []\<rparr>"

definition append_log :: "thread_tool_log \<Rightarrow> tool_log_entry \<Rightarrow> thread_tool_log" where
  "append_log lg e =
     (let ids = tg_ids lg + 1;
          entries = tg_entries lg @ [e\<lparr>tl_id := ids\<rparr>];
          over = length entries - max_tool_log_entries
      in lg\<lparr>tg_ids := ids, tg_dropped := tg_dropped lg + over, tg_entries := drop over entries\<rparr>)"

text \<open>The running call a result belongs to.\<close>

definition closes :: "tool_log_entry \<Rightarrow> tool_log_entry \<Rightarrow> bool" where
  "closes result e \<longleftrightarrow>
     tl_turn e = tl_turn result \<and> tl_state e = ToolRunning \<and> tl_call_id e = tl_call_id result \<and>
     (tl_call_id result = [] \<longrightarrow>
        tl_name e = tl_name result \<or> tl_name result = call_tool \<and> tl_via_muster e)"

fun complete_first :: "tool_log_entry \<Rightarrow> tool_log_entry list \<Rightarrow> tool_log_entry list option" where
  "complete_first result [] = None"
| "complete_first result (e # es) =
     (if closes result e then Some (e\<lparr>tl_state := tl_state result, tl_result := tl_result result\<rparr> # es)
      else map_option (Cons e) (complete_first result es))"

definition complete_log :: "thread_tool_log \<Rightarrow> tool_log_entry \<Rightarrow> thread_tool_log" where
  "complete_log lg result =
     (case complete_first result (tg_entries lg) of
        Some es \<Rightarrow> lg\<lparr>tg_entries := es\<rparr>
      | None \<Rightarrow> append_log lg result)"

subsection \<open>The logs of all threads\<close>

type_synonym 'v ttl_map = "(string \<times> 'v \<times> gotime) list"

definition sweep_expired :: "gotime \<Rightarrow> 'v ttl_map \<Rightarrow> 'v ttl_map" where
  "sweep_expired t m = filter (\<lambda>(k, v, expires). \<not> t > expires) m"

definition thread_state_ttl :: duration where
  "thread_state_ttl = 24 * 3600 * 10 ^ 9"

definition touch_log :: "gotime \<Rightarrow> string \<Rightarrow> thread_tool_log ttl_map \<Rightarrow> thread_tool_log \<times> thread_tool_log ttl_map"
where
  "touch_log t th m =
     (let m1 = sweep_expired t m;
          lg = (case map_of m1 th of Some (l, _) \<Rightarrow> l | None \<Rightarrow> empty_log)
      in (lg, AList.update th (lg, t + thread_state_ttl) m1))"

definition update_log ::
  "gotime \<Rightarrow> string \<Rightarrow> (thread_tool_log \<Rightarrow> thread_tool_log) \<Rightarrow> thread_tool_log ttl_map \<Rightarrow> thread_tool_log ttl_map"
where
  "update_log t th f m =
     (let (lg, m1) = touch_log t th m in AList.update th (f lg, t + thread_state_ttl) m1)"

definition begin_tool_log_turn ::
  "gotime \<Rightarrow> string \<Rightarrow> thread_tool_log ttl_map \<Rightarrow> nat \<times> thread_tool_log ttl_map"
where
  "begin_tool_log_turn t th m =
     (tg_turns (fst (touch_log t th m)) + 1,
      update_log t th (\<lambda>lg. lg\<lparr>tg_turns := tg_turns lg + 1\<rparr>) m)"

definition append_tool_log ::
  "gotime \<Rightarrow> string \<Rightarrow> tool_log_entry \<Rightarrow> thread_tool_log ttl_map \<Rightarrow> thread_tool_log ttl_map"
where
  "append_tool_log t th e m = update_log t th (\<lambda>lg. append_log lg e) m"

definition complete_tool_log ::
  "gotime \<Rightarrow> string \<Rightarrow> tool_log_entry \<Rightarrow> thread_tool_log ttl_map \<Rightarrow> thread_tool_log ttl_map"
where
  "complete_tool_log t th r m = update_log t th (\<lambda>lg. complete_log lg r) m"

definition tool_log_snapshot ::
  "gotime \<Rightarrow> string \<Rightarrow> thread_tool_log ttl_map \<Rightarrow> tool_log_entry list \<times> nat"
where
  "tool_log_snapshot t th m =
     (case map_of m th of
        Some (lg, expires) \<Rightarrow> if t > expires then ([], 0) else (tg_entries lg, tg_dropped lg)
      | None \<Rightarrow> ([], 0))"

subsection \<open>What the log keeps\<close>

definition log_ok :: "thread_tool_log \<Rightarrow> bool" where
  "log_ok lg \<longleftrightarrow>
     length (tg_entries lg) \<le> max_tool_log_entries \<and>
     map tl_id (tg_entries lg) = [Suc (tg_dropped lg)..<Suc (tg_ids lg)] \<and> tg_dropped lg \<le> tg_ids lg"

lemma empty_log_ok [simp]: "log_ok empty_log"
  by (simp add: log_ok_def empty_log_def)

lemma append_log_ok:
  assumes "log_ok lg"
  shows "log_ok (append_log lg e)"
proof -
  let ?over = "length (tg_entries lg) + 1 - max_tool_log_entries"
  have len: "length (tg_entries lg) = tg_ids lg - tg_dropped lg"
    using assms by (metis log_ok_def diff_Suc_Suc length_map length_upt)
  have ids: "map tl_id (tg_entries lg @ [e\<lparr>tl_id := tg_ids lg + 1\<rparr>]) = [Suc (tg_dropped lg)..<Suc (Suc (tg_ids lg))]"
    using assms by (auto simp: log_ok_def)
  have "length (tg_entries lg) \<le> max_tool_log_entries" using assms by (simp add: log_ok_def)
  then have "?over \<le> 1" by linarith
  have "drop ?over [Suc (tg_dropped lg)..<Suc (Suc (tg_ids lg))] =
      [Suc (tg_dropped lg + ?over)..<Suc (Suc (tg_ids lg))]" by (simp add: drop_upt del: upt_Suc)
  then have "map tl_id (drop ?over (tg_entries lg @ [e\<lparr>tl_id := tg_ids lg + 1\<rparr>])) =
      [Suc (tg_dropped lg + ?over)..<Suc (Suc (tg_ids lg))]" using ids by (metis drop_map)
  with assms len \<open>?over \<le> 1\<close> show ?thesis
    by (auto simp: log_ok_def append_log_def Let_def simp del: upt_Suc)
qed

lemma complete_first_ids: "complete_first r es = Some es' \<Longrightarrow> map tl_id es' = map tl_id es"
  by (induction es arbitrary: es') (auto split: if_splits)

lemma complete_log_ok:
  assumes "log_ok lg"
  shows "log_ok (complete_log lg r)"
proof (cases "complete_first r (tg_entries lg)")
  case None
  with append_log_ok [OF assms] show ?thesis by (simp add: complete_log_def)
next
  case (Some es)
  with complete_first_ids [OF Some] map_eq_imp_length_eq [OF complete_first_ids [OF Some]] assms
  show ?thesis by (simp add: complete_log_def log_ok_def del: upt_Suc)
qed

text \<open>A result closes at most one call: one that was running, of its turn and its call id.\<close>

lemma complete_first_one:
  "complete_first r es = Some es' \<Longrightarrow>
   \<exists>i < length es. closes r (es ! i) \<and> (\<forall>j < i. \<not> closes r (es ! j)) \<and>
     es' = es[i := (es ! i)\<lparr>tl_state := tl_state r, tl_result := tl_result r\<rparr>]"
proof (induction es arbitrary: es')
  case (Cons e es)
  show ?case
  proof (cases "closes r e")
    case True
    with Cons.prems show ?thesis by (intro exI [of _ 0]) simp
  next
    case False
    with Cons.prems obtain es'' where "complete_first r es = Some es''" "es' = e # es''" by auto
    with Cons.IH [OF this(1)] obtain i where "i < length es" "closes r (es ! i)"
      "\<forall>j < i. \<not> closes r (es ! j)"
      "es'' = es[i := (es ! i)\<lparr>tl_state := tl_state r, tl_result := tl_result r\<rparr>]" by blast
    with False \<open>es' = e # es''\<close> show ?thesis
      by (intro exI [of _ "Suc i"]) (auto simp: less_Suc_eq_0_disj)
  qed
qed simp

lemma complete_first_none: "complete_first r es = None \<longleftrightarrow> (\<forall>e \<in> set es. \<not> closes r e)"
  by (induction es) auto

definition logs_ok :: "thread_tool_log ttl_map \<Rightarrow> bool" where
  "logs_ok m \<longleftrightarrow> gomap m \<and> (\<forall>k lg x. map_of m k = Some (lg, x) \<longrightarrow> log_ok lg)"

lemma logs_ok_update: "logs_ok m \<Longrightarrow> log_ok lg \<Longrightarrow> logs_ok (AList.update k (lg, x) m)"
  by (auto simp: logs_ok_def)

lemma logs_ok_sweep: "logs_ok m \<Longrightarrow> logs_ok (sweep_expired t m)"
  using map_of_filter_gomap [of m "\<lambda>k (v, expires). \<not> t > expires"]
  by (fastforce simp: logs_ok_def sweep_expired_def split_beta split: option.splits if_splits)

lemma touch_log_ok:
  assumes "logs_ok m"
  shows "log_ok (fst (touch_log t th m)) \<and> logs_ok (snd (touch_log t th m))"
proof -
  have sw: "logs_ok (sweep_expired t m)" by (rule logs_ok_sweep [OF assms])
  have "log_ok (fst (touch_log t th m))"
  proof (cases "map_of (sweep_expired t m) th")
    case None
    then show ?thesis by (simp add: touch_log_def)
  next
    case (Some lx)
    with sw have "log_ok (fst lx)" unfolding logs_ok_def by (metis prod.exhaust_sel)
    with Some show ?thesis by (cases lx) (simp add: touch_log_def)
  qed
  with logs_ok_update [OF sw] show ?thesis by (simp add: touch_log_def Let_def)
qed

lemma update_log_ok:
  "logs_ok m \<Longrightarrow> (\<And>lg. log_ok lg \<Longrightarrow> log_ok (f lg)) \<Longrightarrow> logs_ok (update_log t th f m)"
  using touch_log_ok [of m t th] by (auto simp: update_log_def split_beta intro: logs_ok_update)

lemma tool_log_ops_ok:
  assumes "logs_ok m"
  shows "logs_ok (snd (begin_tool_log_turn t th m))" and "logs_ok (append_tool_log t th e m)"
    and "logs_ok (complete_tool_log t th e m)"
  using assms
  by (auto simp: begin_tool_log_turn_def append_tool_log_def complete_tool_log_def append_log_ok
      complete_log_ok intro!: update_log_ok) (simp add: log_ok_def)

end
