(* ===== verification/StreamRun.thy ===== *)
theory StreamRun
  imports StreamLoop ToolLog
begin

section \<open>A turn's run over its deltas\<close>

text \<open>
  \<open>batchedWriter.run\<close>: it takes the turn's deltas and the ticks of the flush timer as they come,
  queues text and narration, records tool activity in the thread's log, and ends with the final
  flush, the closing of the stream and the session's exit status. The order in which deltas, ticks
  and the end of the context arrive is the list of events; each carries the time it is handled at.
  \<open>again n\<close> says that the context outlives the \<open>n\<close>-th failed attempt of a final flush.
\<close>

subsection \<open>The session's status\<close>

definition status_unsupported :: "api_error \<Rightarrow> bool" where
  "status_unsupported e \<longleftrightarrow>
     has_code e [''missing_scope'', ''not_allowed_token_type'', ''feature_disabled'']"

definition status_transient :: "api_error \<Rightarrow> bool" where
  "status_transient e \<longleftrightarrow> (case e of CallFailed _ \<Rightarrow> True | _ \<Rightarrow> False)"

definition status_idle_attempts :: nat where
  "status_idle_attempts = 3"

definition answer_error :: "slack_answer \<Rightarrow> api_error option" where
  "answer_error a = (case a of Inl e \<Rightarrow> Some e | Inr _ \<Rightarrow> None)"

fun status_attempts :: "nat \<Rightarrow> slack \<Rightarrow> slack_call \<Rightarrow> writer \<Rightarrow> api_error option \<times> writer" where
  "status_attempts left sl c w =
     (let (a, w1) = slack_do sl c w; err = answer_error a
      in case left of
           0 \<Rightarrow> (err, w1)
         | Suc k \<Rightarrow>
             if call_status c = Processing \<or> \<not> (case err of Some e \<Rightarrow> status_transient e | None \<Rightarrow> False)
             then (err, w1) else status_attempts k sl c w1)"

definition status_call :: "session_status \<Rightarrow> string \<Rightarrow> string \<Rightarrow> writer \<Rightarrow> slack_call" where
  "status_call status title initiator w = SetStatus (wr_channel w) (wr_thread w) status title initiator"

definition set_session_status :: "slack \<Rightarrow> session_status \<Rightarrow> writer \<Rightarrow> writer" where
  "set_session_status sl status w =
     (if wr_status_off w then w
      else let decorated = (status = Processing \<or> wr_status_only w);
               title = (if decorated then wr_title w else []);
               initiator = (if decorated then wr_initiator w else []);
               (err, w1) = status_attempts (status_idle_attempts - 1) sl
                 (status_call status title initiator w) w;
               (err2, w2) =
                 (case err of
                    Some e \<Rightarrow>
                      if (title \<noteq> [] \<or> initiator \<noteq> []) \<and> \<not> status_transient e \<and> \<not> status_unsupported e
                      then (let (a, w') = slack_do sl (status_call status [] [] w1) w1 in (answer_error a, w'))
                      else (err, w1)
                  | None \<Rightarrow> (err, w1))
           in case err2 of
                Some e \<Rightarrow> if status_unsupported e then w2\<lparr>wr_status_off := True\<rparr> else w2
              | None \<Rightarrow> w2)"

subsection \<open>Text a previous process delivered\<close>

definition continue_from :: "delivered \<Rightarrow> writer \<Rightarrow> writer" where
  "continue_from d w =
     w\<lparr>wr_carried := d, wr_skip_text := dl_text_len d, wr_stream_ts := dl_stream_ts d,
       wr_streamed := dl_stream_len d, wr_adopted := (dl_stream_ts d \<noteq> []),
       wr_messages := (if dl_stream_ts d \<noteq> [] then wr_messages w @ [dl_stream_ts d] else wr_messages w)\<rparr>"

definition continued :: "writer \<Rightarrow> bool" where
  "continued w \<longleftrightarrow> dl_text_len (wr_carried w) > 0"

definition skip_cut :: "string \<Rightarrow> writer \<Rightarrow> string \<times> writer" where
  "skip_cut content w =
     (if wr_skip_text w > 0
      then let n = min (nat (wr_skip_text w)) (length content); left = wr_skip_text w - int n
           in (drop n content, w\<lparr>wr_skip_text := left, wr_trim_lead := (left = 0)\<rparr>)
      else (content, w))"

definition skip_trim :: "string \<Rightarrow> writer \<Rightarrow> string \<times> writer" where
  "skip_trim content w =
     (if wr_trim_lead w
      then let trimmed = trim_left_space content
           in (trimmed, w\<lparr>wr_lead_trimmed := wr_lead_trimmed w + (int (length content) - int (length trimmed)),
                          wr_trim_lead := (trimmed = [])\<rparr>)
      else (content, w))"

definition skip_delivered :: "string \<Rightarrow> writer \<Rightarrow> string \<times> writer" where
  "skip_delivered content w = (let (c, w1) = skip_cut content w in skip_trim c w1)"

subsection \<open>Narration\<close>

definition max_narration_messages :: nat where
  "max_narration_messages = 10"

definition passage_break :: string where
  "passage_break = [newline, newline]"

definition narration_limit_note :: string where
  "narration_limit_note =
     ''Narration limit reached: the rest of this turn'' @ [CHR 0x27] @
     ''s step-by-step notes are hidden. The answer still follows.''"

fun narrate :: "string list \<Rightarrow> writer \<Rightarrow> writer" where
  "narrate [] w = w"
| "narrate (md # rest) w =
     (let n = wr_narrations w + 1; w1 = w\<lparr>wr_narrations := n\<rparr>
      in if n > max_narration_messages + 1 then w1
         else if n = max_narration_messages + 1
         then queue_narration (narration_limit_note @ passage_break) w1
         else narrate rest (queue_narration (if rest = [] then md @ passage_break else md) w1))"

definition render_narration :: "string \<Rightarrow> writer \<Rightarrow> writer option" where
  "render_narration s w =
     (let t = trim_space_bytes s
      in if t = [] then Some w
         else do {
           pieces \<leftarrow> split_markdown t (nat slack_markdown_block_max);
           Some (narrate pieces w)
         })"

subsection \<open>Tool activity\<close>

record turn_run =
  tr_writer :: writer
  tr_logs :: "thread_tool_log ttl_map"

definition log_turn :: "gotime \<Rightarrow> turn_run \<Rightarrow> nat \<times> turn_run" where
  "log_turn t st =
     (let w = tr_writer st
      in if wr_tool_turn w = 0 then
           (let (n, logs) = begin_tool_log_turn t (wr_thread w) (tr_logs st)
            in (n, \<lparr>tr_writer = w\<lparr>wr_tool_turn := n\<rparr>, tr_logs = logs\<rparr>))
         else (wr_tool_turn w, st))"

definition record_tool ::
  "(gotime \<Rightarrow> string \<Rightarrow> tool_log_entry \<Rightarrow> thread_tool_log ttl_map \<Rightarrow> thread_tool_log ttl_map) \<Rightarrow>
   gotime \<Rightarrow> tool_log_entry \<Rightarrow> turn_run \<Rightarrow> turn_run"
where
  "record_tool put t e st =
     (if wr_thread (tr_writer st) = [] then st
      else let (n, st1) = log_turn t st
           in st1\<lparr>tr_logs := put t (wr_thread (tr_writer st1)) (e\<lparr>tl_turn := n\<rparr>) (tr_logs st1)\<rparr>)"

definition tool_args_max :: nat where
  "tool_args_max = 800"

definition tool_result_max :: nat where
  "tool_result_max = 800"

definition render_tool_activity ::
  "(string \<Rightarrow> json option) \<Rightarrow> (json \<Rightarrow> string option) \<Rightarrow> gotime \<Rightarrow> tool_activity option \<Rightarrow> turn_run \<Rightarrow> turn_run"
where
  "render_tool_activity parse indent t tool st =
     (case tool of
        None \<Rightarrow> st
      | Some ta \<Rightarrow>
          (case ta_kind ta of
             ToolCall \<Rightarrow>
               (let (nm, via, args) = (case unwrap_call_tool ta of
                      Some (inner, inner_args) \<Rightarrow> (inner, True, inner_args)
                    | None \<Rightarrow> (ta_name ta, False, ta_args ta))
                in record_tool append_tool_log t
                     \<lparr>tl_id = 0, tl_turn = 0, tl_call_id = ta_call_id ta, tl_name = nm, tl_via_muster = via,
                      tl_called = True, tl_args = indent_json indent args tool_args_max,
                      tl_state = ToolRunning, tl_result = []\<rparr> st)
           | ToolResult \<Rightarrow>
               (let nm = effective_tool_name parse ta;
                    via = (ta_name ta = call_tool \<and> nm \<noteq> ta_name ta);
                    (preview, is_err) = tool_result_preview parse indent (ta_response ta) tool_result_max;
                    failed = (\<not> ta_awaits_approval ta \<and> is_err);
                    e = \<lparr>tl_id = 0, tl_turn = 0, tl_call_id = ta_call_id ta, tl_name = nm,
                         tl_via_muster = via, tl_called = False, tl_args = [],
                         tl_state = (if ta_awaits_approval ta then ToolAwaitingApproval
                           else if is_err then ToolFailed else ToolDone),
                         tl_result = (if ta_awaits_approval ta then [] else preview)\<rparr>;
                    w = tr_writer st
                in record_tool complete_tool_log t e
                     (st\<lparr>tr_writer := (if failed then w\<lparr>wr_failed_calls := wr_failed_calls w + 1\<rparr> else w)\<rparr>))))"

subsection \<open>The loop\<close>

datatype run_event = GotDelta gotime outbound_delta | Ticked gotime | ChannelClosed bool | ContextOver

datatype run_end = RunOk | RunFailed go_error | RunRender slack_error | RunCancelled

record run_env =
  ev_slack :: slack
  ev_parse :: "string \<Rightarrow> json option"
  ev_indent :: "json \<Rightarrow> string option"
  ev_again :: "nat \<Rightarrow> bool"

definition open_early :: "slack \<Rightarrow> gotime \<Rightarrow> writer \<Rightarrow> writer option" where
  "open_early sl t w = (if wr_stream_ts w \<noteq> [] \<or> wr_stopped w then Some w else tick_flush sl t w)"

definition finish_run :: "run_env \<Rightarrow> writer \<Rightarrow> (run_end \<times> writer) option" where
  "finish_run ev w = do {
     (err, w1) \<leftarrow> final_flush (ev_again ev) (ev_slack ev) w;
     Some (case err of None \<Rightarrow> RunOk | Some e \<Rightarrow> RunRender e, w1)
   }"

definition add_usage :: "turn_usage \<Rightarrow> turn_usage \<Rightarrow> turn_usage" where
  "add_usage u v =
     \<lparr>tu_input = wrap64 (tu_input u + tu_input v), tu_output = wrap64 (tu_output u + tu_output v),
      tu_total = wrap64 (tu_total u + tu_total v)\<rparr>"

definition handle_delta ::
  "run_env \<Rightarrow> gotime \<Rightarrow> outbound_delta \<Rightarrow> turn_run \<Rightarrow> (run_end option \<times> turn_run) option"
where
  "handle_delta ev t d st0 =
     (let st = (case od_usage d of None \<Rightarrow> st0
            | Some u \<Rightarrow> st0\<lparr>tr_writer := (tr_writer st0)\<lparr>wr_usage := add_usage (wr_usage (tr_writer st0)) u\<rparr>\<rparr>);
          w = tr_writer st
      in case od_err d of
           Some e \<Rightarrow> do {
             (_, w1) \<leftarrow> final_flush (ev_again ev) (ev_slack ev) w;
             Some (Some (RunFailed e), st\<lparr>tr_writer := w1\<rparr>)
           }
         | None \<Rightarrow>
             if od_done d then do {
               (r, w1) \<leftarrow> finish_run ev w;
               Some (Some r, st\<lparr>tr_writer := w1\<rparr>)
             }
             else case od_kind d of
               DeltaText \<Rightarrow>
                 (let (content, w1) = skip_delivered (od_content d) w
                  in if content = [] then Some (None, st\<lparr>tr_writer := w1\<rparr>)
                     else do {
                       w2 \<leftarrow> open_early (ev_slack ev) t (queue_answer content w1);
                       Some (None, st\<lparr>tr_writer := w2\<rparr>)
                     })
             | DeltaToolActivity \<Rightarrow>
                 Some (None, render_tool_activity (ev_parse ev) (ev_indent ev) t (od_tool d) st)
             | DeltaNarration \<Rightarrow> do {
                 w1 \<leftarrow> render_narration (od_content d) w;
                 w2 \<leftarrow> open_early (ev_slack ev) t w1;
                 Some (None, st\<lparr>tr_writer := w2\<rparr>)
               }
             | DeltaPrompt \<Rightarrow> do {
                 (_, w1) \<leftarrow> final_flush (ev_again ev) (ev_slack ev) (w\<lparr>wr_prompt := True\<rparr>);
                 Some (Some RunOk, st\<lparr>tr_writer := w1\<rparr>)
               })"

definition handle_event :: "run_env \<Rightarrow> run_event \<Rightarrow> turn_run \<Rightarrow> (run_end option \<times> turn_run) option" where
  "handle_event ev e st =
     (case e of
        ContextOver \<Rightarrow> Some (Some RunCancelled, st)
      | ChannelClosed over \<Rightarrow>
          if over then Some (Some RunCancelled, st)
          else do { (r, w1) \<leftarrow> finish_run ev (tr_writer st); Some (Some r, st\<lparr>tr_writer := w1\<rparr>) }
      | GotDelta t d \<Rightarrow> handle_delta ev t d st
      | Ticked t \<Rightarrow> do {
          w1 \<leftarrow> tick_flush (ev_slack ev) t (tr_writer st);
          Some (None, st\<lparr>tr_writer := w1\<rparr>)
        })"

fun run_events :: "run_env \<Rightarrow> run_event list \<Rightarrow> turn_run \<Rightarrow> (run_end option \<times> turn_run) option" where
  "run_events ev [] st = Some (None, st)"
| "run_events ev (e # es) st = do {
     (r, st1) \<leftarrow> handle_event ev e st;
     (case r of None \<Rightarrow> run_events ev es st1 | Some x \<Rightarrow> Some (Some x, st1))
   }"

definition start_run :: "run_env \<Rightarrow> gotime \<Rightarrow> turn_run \<Rightarrow> turn_run" where
  "start_run ev t st =
     (let w = tr_writer st;
          w1 = (if wr_ran w then reset_stream w else w)\<lparr>wr_ran := True, wr_approved := []\<rparr>;
          st1 = fold (\<lambda>c. render_tool_activity (ev_parse ev) (ev_indent ev) t
              (Some \<lparr>ta_name = ht_name c, ta_kind = ToolCall, ta_call_id = ht_call_id c,
                ta_args = ht_args c, ta_response = [], ta_awaits_approval = False\<rparr>))
            (wr_approved w) (st\<lparr>tr_writer := w1\<rparr>)
      in st1\<lparr>tr_writer := set_session_status (ev_slack ev) Processing (tr_writer st1)\<rparr>)"

text \<open>The deferred calls: the stream is closed before the session's exit status is set.\<close>

definition leave_run :: "run_env \<Rightarrow> turn_run \<Rightarrow> turn_run option" where
  "leave_run ev st = do {
     w1 \<leftarrow> end_stream (ev_slack ev) (tr_writer st);
     Some (st\<lparr>tr_writer := set_session_status (ev_slack ev) (exit_session_status w1) w1\<rparr>)
   }"

definition run_turn :: "run_env \<Rightarrow> gotime \<Rightarrow> run_event list \<Rightarrow> turn_run \<Rightarrow> (run_end option \<times> turn_run) option" where
  "run_turn ev t es st = do {
     (r, st1) \<leftarrow> run_events ev es (start_run ev t st);
     (case r of
        None \<Rightarrow> Some (None, st1)
      | Some x \<Rightarrow> do { st2 \<leftarrow> leave_run ev st1; Some (Some x, st2) })
   }"

subsection \<open>The whole answer is delivered\<close>

lemma turn_ok_cong_accepted:
  "turn_ok k all w \<Longrightarrow> accepted w' = accepted w \<Longrightarrow> wr_appended_len w' = wr_appended_len w \<Longrightarrow>
   wr_queue w' = wr_queue w \<Longrightarrow> wr_stream_ts w' = wr_stream_ts w \<Longrightarrow> wr_streamed w' = wr_streamed w \<Longrightarrow>
   wr_adopted w' = wr_adopted w \<Longrightarrow> wr_size_budget w' = wr_size_budget w \<Longrightarrow>
   wr_stopped w' = wr_stopped w \<Longrightarrow> wr_failed w' = wr_failed w \<Longrightarrow>
   (wr_skip_text w', wr_trim_lead w', wr_lead_trimmed w') = k' \<Longrightarrow> turn_ok k' all w'"
  unfolding turn_ok_def by (auto simp: shaped_def delivered_part_def holds_def landed_def)

text \<open>The status calls carry no text and leave the stream alone.\<close>

definition stream_kept :: "writer \<Rightarrow> writer \<Rightarrow> bool" where
  "stream_kept w w' \<longleftrightarrow>
     accepted w' = accepted w \<and> wr_appended_len w' = wr_appended_len w \<and> wr_queue w' = wr_queue w \<and>
     wr_stream_ts w' = wr_stream_ts w \<and> wr_streamed w' = wr_streamed w \<and> wr_adopted w' = wr_adopted w \<and>
     wr_size_budget w' = wr_size_budget w \<and> wr_stopped w' = wr_stopped w \<and> wr_failed w' = wr_failed w \<and>
     wr_skip_text w' = wr_skip_text w \<and> wr_trim_lead w' = wr_trim_lead w \<and> wr_lead_trimmed w' = wr_lead_trimmed w"

lemma turn_ok_skip: "turn_ok k all w \<Longrightarrow> k = (wr_skip_text w, wr_trim_lead w, wr_lead_trimmed w)"
  by (simp add: turn_ok_def shaped_def)

lemma stream_kept_turn_ok: "stream_kept w w' \<Longrightarrow> turn_ok k all w \<Longrightarrow> turn_ok k all w'"
  using turn_ok_skip [of k all w] turn_ok_cong_accepted [of k all w w' k] by (simp add: stream_kept_def)

lemma stream_kept_refl [simp]: "stream_kept w w"
  by (simp add: stream_kept_def)

lemma stream_kept_trans: "stream_kept w w' \<Longrightarrow> stream_kept w' w'' \<Longrightarrow> stream_kept w w''"
  by (simp add: stream_kept_def)

lemma slack_do_status:
  "slack_do sl (SetStatus ch th st ti i) w = (a, w') \<Longrightarrow> stream_kept w w'"
  by (auto simp: slack_do_def Let_def stream_kept_def accepted_def taken_text_def split: sum.splits)

lemma status_attempts_same:
  "status_attempts left sl (SetStatus ch th st ti i) w = (err, w') \<Longrightarrow> stream_kept w w'"
proof (induction left arbitrary: w)
  case 0
  obtain a w1 where d: "slack_do sl (SetStatus ch th st ti i) w = (a, w1)" by fastforce
  with 0 show ?case using slack_do_status [OF d] by (simp add: Let_def)
next
  case (Suc k)
  obtain a w1 where d: "slack_do sl (SetStatus ch th st ti i) w = (a, w1)" by fastforce
  with Suc show ?case
    by (auto simp: Let_def dest: slack_do_status split: if_splits intro: stream_kept_trans)
qed

lemma stream_kept_off [simp]: "stream_kept w (w'\<lparr>wr_status_off := x\<rparr>) = stream_kept w w'"
  by (simp add: stream_kept_def accepted_def)

lemma set_session_status_same: "stream_kept w (set_session_status sl status w)"
proof (cases "wr_status_off w")
  case False
  let ?d = "status = Processing \<or> wr_status_only w"
  let ?t = "if ?d then wr_title w else []" and ?i = "if ?d then wr_initiator w else []"
  obtain err w1 where a: "status_attempts (status_idle_attempts - 1) sl (status_call status ?t ?i w) w = (err, w1)"
    by fastforce
  then have s1: "stream_kept w w1" unfolding status_call_def by (rule status_attempts_same)
  obtain b w2 where b: "slack_do sl (status_call status [] [] w1) w1 = (b, w2)" by fastforce
  then have "stream_kept w1 w2" unfolding status_call_def by (rule slack_do_status)
  with s1 have s2: "stream_kept w w2" by (rule stream_kept_trans)
  from False a b s1 s2 show ?thesis
    by (auto simp: set_session_status_def Let_def split: option.splits)
qed (simp add: set_session_status_def)

text \<open>
  \<open>carry_ok n A st\<close>: of the answer so far, \<open>A\<close>, the first \<open>n\<close> bytes were delivered by an
  earlier process; the rest, but for white space in front of it, is in the writer's hands.
\<close>

definition carry_ok :: "nat \<Rightarrow> string \<Rightarrow> turn_run \<Rightarrow> bool" where
  "carry_ok n A st \<longleftrightarrow>
     (\<exists>all lead.
        turn_ok (max 0 (int n - int (length A)), 0 < n \<and> n \<le> length A \<and> filter snd all = [], int (length lead))
          all (tr_writer st) \<and>
        trim_left_space lead = [] \<and> (n = 0 \<longrightarrow> lead = []) \<and>
        drop n A = lead @ map fst (filter snd all))"

definition delta_ok :: "outbound_delta \<Rightarrow> bool" where
  "delta_ok d \<longleftrightarrow> utf8 (od_content d) \<and>
     (od_kind d = DeltaNarration \<longrightarrow>
        short_fences (nat slack_markdown_block_max) (trim_space_bytes (od_content d)))"

fun event_ok :: "run_event \<Rightarrow> bool" where
  "event_ok (GotDelta t d) = delta_ok d"
| "event_ok _ = True"

text \<open>The answer text of the events up to the one that ends the run.\<close>

fun event_ends :: "run_event \<Rightarrow> bool" where
  "event_ends (GotDelta t d) \<longleftrightarrow> delta_ends d"
| "event_ends (Ticked t) \<longleftrightarrow> False"
| "event_ends _ \<longleftrightarrow> True"

fun event_text :: "run_event \<Rightarrow> string" where
  "event_text (GotDelta t d) = (if od_kind d = DeltaText then od_content d else [])"
| "event_text _ = []"

fun answer_text :: "run_event list \<Rightarrow> string" where
  "answer_text [] = []"
| "answer_text (e # es) = (if event_ends e then [] else event_text e @ answer_text es)"

lemma trim_left_split: "\<exists>x. s = x @ trim_left_space s \<and> trim_left_space x = []"
proof (induction s rule: trim_left_space.induct)
  case (1 s)
  obtain r n where d: "decode_rune (map of_char s) = (r, n)" by fastforce
  show ?case
  proof (cases "s \<noteq> [] \<and> is_space r")
    case False
    with d show ?thesis by (intro exI [of _ "[]"]) (auto simp: trim_left_space.simps)
  next
    case True
    then have eq: "trim_left_space s = trim_left_space (drop n s)" using d
      by (subst trim_left_space.simps) simp
    from "1.IH" [OF _ d [symmetric] refl] True obtain x where
      x: "drop n s = x @ trim_left_space (drop n s)" "trim_left_space x = []" by blast
    have n: "n \<le> length s"
    proof (rule ccontr)
      assume "\<not> n \<le> length s"
      with d True decode_rune_narrow [of s] show False by simp
    qed
    have "r \<noteq> rune_error" using True by auto
    have dx: "decode_rune (map of_char (take n s @ x)) = (r, n)"
      using decode_rune_extends [OF decode_rune_prefix [OF d \<open>r \<noteq> rune_error\<close>] \<open>r \<noteq> rune_error\<close>, of "map of_char x"] n by simp
    have "take n s \<noteq> []" using True d decode_rune_width [of "map of_char s"] by auto
    then have "trim_left_space (take n s @ x) = trim_left_space x"
      using dx True n by (subst trim_left_space.simps) simp
    with x eq show ?thesis by (intro exI [of _ "take n s @ x"]) (metis append.assoc append_take_drop_id)
  qed
qed

lemma trim_left_append: "trim_left_space x = [] \<Longrightarrow> trim_left_space (x @ s) = trim_left_space s"
proof (induction x rule: trim_left_space.induct)
  case (1 x)
  show ?case
  proof (cases "x = []")
    case False
    obtain r n where d: "decode_rune (map of_char x) = (r, n)" by fastforce
    from False "1.prems" d have r: "is_space r" "trim_left_space (drop n x) = []"
      by (subst (asm) trim_left_space.simps; simp split: if_splits)+
    then have "r \<noteq> rune_error" by auto
    then have "decode_rune (map of_char (x @ s)) = (r, n)"
      using decode_rune_extends [OF d, of "map of_char s"] by simp
    moreover have "n \<le> length x" using decode_rune_narrow [of x] d by simp
    ultimately have "trim_left_space (x @ s) = trim_left_space (drop n x @ s)"
      using False r(1) by (subst trim_left_space.simps) simp
    with "1.IH" [OF False d [symmetric] refl r(1) r(2)] show ?thesis by simp
  qed simp
qed

lemma trim_left_idem: "trim_left_space (trim_left_space s) = trim_left_space s"
  using trim_left_split [of s] trim_left_append by metis

text \<open>What is left of a delta once the delivered part and the white space after it are cut.\<close>

lemma skip_delivered_ok:
  assumes "carry_ok n A st" and "utf8 c" and "boundary (A @ c @ later) n"
    and "skip_delivered c (tr_writer st) = (c', w')"
  shows "utf8 c' \<and>
    carry_ok n (A @ c) (st\<lparr>tr_writer := (if c' = [] then w' else queue_answer c' w')\<rparr>)"
proof -
  let ?w = "tr_writer st"
  from assms(1) obtain all lead where inv:
    "turn_ok (max 0 (int n - int (length A)), 0 < n \<and> n \<le> length A \<and> filter snd all = [], int (length lead)) all ?w"
    "trim_left_space lead = []" "n = 0 \<longrightarrow> lead = []" "drop n A = lead @ map fst (filter snd all)"
    by (auto simp: carry_ok_def)
  let ?answer = "\<lambda>s. map (\<lambda>ch. (ch, True)) s"
  have skip: "wr_skip_text ?w = max 0 (int n - int (length A))" "wr_lead_trimmed ?w = int (length lead)"
    "wr_trim_lead ?w = (0 < n \<and> n \<le> length A \<and> filter snd all = [])"
    using turn_ok_skip [OF inv(1)] by auto
  have finish: "carry_ok n (A @ c) (st\<lparr>tr_writer := (if c' = [] then w' else queue_answer c' w')\<rparr>)"
    if "turn_ok (max 0 (int n - int (length (A @ c))), 0 < n \<and> n \<le> length (A @ c) \<and> filter snd (all @ ?answer c') = [],
        int (length lead')) all w'"
      "utf8 c'" "trim_left_space lead' = []" "n = 0 \<longrightarrow> lead' = []"
      "drop n (A @ c) = lead' @ map fst (filter snd (all @ ?answer c'))" for lead'
  proof (cases "c' = []")
    case True
    with that show ?thesis by (auto simp: carry_ok_def)
  next
    case False
    with queue_answer_ok [OF that(1,2)] that(3-5) show ?thesis unfolding carry_ok_def
      by (intro exI [of _ "all @ ?answer c'"] exI [of _ lead']) simp
  qed
  consider (before) "length A + length c < n" | (cut) "length A < n" "n \<le> length A + length c"
    | (trim) "n \<le> length A" "wr_trim_lead ?w" | (on) "n \<le> length A" "\<not> wr_trim_lead ?w"
    by linarith
  then show ?thesis
  proof cases
    case before
    with skip have m: "wr_skip_text ?w = int n - int (length A)" "0 < wr_skip_text ?w"
      "min (nat (wr_skip_text ?w)) (length c) = length c" by simp_all
    have "skip_cut c ?w = ([], ?w\<lparr>wr_skip_text := int n - int (length A) - int (length c), wr_trim_lead := False\<rparr>)"
      using m before by (simp add: skip_cut_def Let_def)
    with assms(4) have c': "c' = []" "w' = ?w\<lparr>wr_skip_text := int n - int (length A) - int (length c), wr_trim_lead := False\<rparr>"
      by (auto simp: skip_delivered_def skip_trim_def)
    from before inv(4) have "lead = []" "filter snd all = []" by auto
    then have "turn_ok (max 0 (int n - int (length (A @ c))), 0 < n \<and> n \<le> length (A @ c) \<and>
        filter snd (all @ ?answer c') = [], int (length ([] :: string))) all w'"
      by (intro turn_ok_cong_accepted [OF inv(1)]) (use before skip c' in \<open>simp_all add: accepted_def\<close>)
    with before inv(3,4) c'(1) \<open>lead = []\<close> \<open>filter snd all = []\<close> show ?thesis
      by (intro conjI finish [of "[]"]) (auto simp: trim_left_space.simps)
  next
    case cut
    let ?rest = "drop (n - length A) c"
    from cut inv(4) have none: "lead = []" "filter snd all = []" by auto
    from cut skip have m: "wr_skip_text ?w = int n - int (length A)" "0 < wr_skip_text ?w"
      "min (nat (wr_skip_text ?w)) (length c) = n - length A" by simp_all
    have "skip_cut c ?w = (?rest, ?w\<lparr>wr_skip_text := 0, wr_trim_lead := True\<rparr>)"
      using m cut by (simp add: skip_cut_def Let_def)
    with assms(4) skip none have c': "c' = trim_left_space ?rest"
      "w' = ?w\<lparr>wr_skip_text := 0, wr_trim_lead := (c' = []), wr_lead_trimmed := int (length ?rest) - int (length c')\<rparr>"
      by (auto simp: skip_delivered_def skip_trim_def Let_def)
    obtain x where x: "?rest = x @ c'" "trim_left_space x = []" using trim_left_split [of ?rest] c' by auto
    have "boundary c (n - length A)" using assms(3) cut by (auto simp: boundary_def nth_append)
    from trim_left_utf8 [OF utf8_drop [OF assms(2) this]] have u: "utf8 c'" using c' by simp
    have len: "int (length ?rest) - int (length c') = int (length x)"
      by (subst x(1)) simp
    have t: "turn_ok (max 0 (int n - int (length (A @ c))), 0 < n \<and> n \<le> length (A @ c) \<and>
        filter snd (all @ ?answer c') = [], int (length x)) all w'"
      by (rule turn_ok_cong_accepted [OF inv(1)])
        (use cut c'(2) len none in \<open>simp_all add: accepted_def\<close>)
    have "drop n (A @ c) = x @ map fst (filter snd (all @ ?answer c'))"
      using cut none x(1) by (simp add: comp_def)
    from finish [OF t u x(2) _ this] cut u show ?thesis by simp
  next
    case trim
    with assms(4) skip have c': "c' = trim_left_space c"
      "w' = ?w\<lparr>wr_trim_lead := (c' = []), wr_lead_trimmed := int (length lead) + (int (length c) - int (length c'))\<rparr>"
      by (auto simp: skip_delivered_def skip_cut_def skip_trim_def Let_def)
    obtain x where x: "c = x @ c'" "trim_left_space x = []" using trim_left_split [of c] c' by auto
    have u: "utf8 c'" using trim_left_utf8 [OF assms(2)] c' by simp
    have "w' = ?w\<lparr>wr_skip_text := 0, wr_trim_lead := (c' = []), wr_lead_trimmed := int (length (lead @ x))\<rparr>"
      using c'(2) x(1) skip trim by simp
    note w' = this
    have none: "filter snd all = []" "0 < n" using trim skip(3) by auto
    have t: "turn_ok (max 0 (int n - int (length (A @ c))), 0 < n \<and> n \<le> length (A @ c) \<and>
        filter snd (all @ ?answer c') = [], int (length (lead @ x))) all w'"
      by (rule turn_ok_cong_accepted [OF inv(1)])
        (use trim none w' in \<open>simp_all add: accepted_def\<close>)
    have "drop n (A @ c) = (lead @ x) @ map fst (filter snd (all @ ?answer c'))"
      using trim inv(4) none x(1) by (simp add: comp_def)
    from finish [OF t u _ _ this] u none(2) trim_left_append [OF inv(2), of x] x(2) show ?thesis by simp
  next
    case on
    with assms(4) skip have "c' = c" "w' = ?w"
      by (auto simp: skip_delivered_def skip_cut_def skip_trim_def)
    moreover have "turn_ok (max 0 (int n - int (length (A @ c))), 0 < n \<and> n \<le> length (A @ c) \<and>
        filter snd (all @ ?answer c) = [], int (length lead)) all ?w"
      by (rule turn_ok_cong_accepted [OF inv(1)]) (use on skip in auto)
    moreover have "drop n (A @ c) = lead @ map fst (filter snd (all @ ?answer c))"
      using on inv(4) by (simp add: comp_def)
    ultimately show ?thesis using finish [of lead] inv(2,3) assms(2) by simp
  qed
qed

text \<open>Narration and the other steps add no answer text.\<close>

lemma carry_ok_step:
  assumes "carry_ok n A st"
    and "\<And>k all. turn_ok k all (tr_writer st) \<Longrightarrow>
      \<exists>more. turn_ok k (all @ more) (tr_writer st') \<and> filter snd more = []"
  shows "carry_ok n A st'"
proof -
  from assms(1) obtain all lead where inv:
    "turn_ok (max 0 (int n - int (length A)), 0 < n \<and> n \<le> length A \<and> filter snd all = [], int (length lead)) all
      (tr_writer st)" "trim_left_space lead = []" "n = 0 \<longrightarrow> lead = []"
    "drop n A = lead @ map fst (filter snd all)"
    by (auto simp: carry_ok_def)
  from assms(2) [OF inv(1)] obtain more where
    "turn_ok (max 0 (int n - int (length A)), 0 < n \<and> n \<le> length A \<and> filter snd all = [], int (length lead))
      (all @ more) (tr_writer st')" "filter snd more = []" by blast
  with inv show ?thesis unfolding carry_ok_def
    by (intro exI [of _ "all @ more"] exI [of _ lead]) simp
qed

lemma carry_ok_same:
  "carry_ok n A st \<Longrightarrow> (\<And>k all. turn_ok k all (tr_writer st) \<Longrightarrow> turn_ok k all (tr_writer st')) \<Longrightarrow> carry_ok n A st'"
  by (erule carry_ok_step) (metis append_Nil2 filter.simps(1))

lemma narrate_ok:
  "turn_ok k all w \<Longrightarrow> \<forall>p \<in> set ps. utf8 p \<Longrightarrow>
   \<exists>more. turn_ok k (all @ more) (narrate ps w) \<and> filter snd more = []"
proof (induction ps w arbitrary: all rule: narrate.induct)
  case (2 md rest w)
  let ?w1 = "w\<lparr>wr_narrations := wr_narrations w + 1\<rparr>"
  let ?say = "\<lambda>s. map (\<lambda>ch. (ch, False)) s"
  have w1: "turn_ok k all ?w1" by (rule turn_ok_cong [OF "2.prems"(1)]) simp_all
  have quiet: "filter snd (?say s) = []" for s :: string by (simp add: filter_empty_conv)
  have nl: "utf8 passage_break" "utf8 narration_limit_note"
    by (rule utf8_ascii; simp add: passage_break_def narration_limit_note_def)+
  show ?case
  proof (cases "wr_narrations w + 1 > max_narration_messages")
    case True
    have "\<exists>more. turn_ok k (all @ more) (queue_narration (narration_limit_note @ passage_break) ?w1) \<and>
        filter snd more = []"
      using queue_narration_ok [OF w1 utf8_append [OF nl(2,1)]] quiet by blast
    moreover have "\<exists>more. turn_ok k (all @ more) ?w1 \<and> filter snd more = []"
      using w1 by (metis append_Nil2 filter.simps(1))
    ultimately show ?thesis using True by (auto simp: Let_def)
  next
    case False
    let ?md = "if rest = [] then md @ passage_break else md"
    have "utf8 ?md" using "2.prems"(2) nl(1) by auto
    from queue_narration_ok [OF w1 this]
    have q: "turn_ok k (all @ ?say ?md) (queue_narration ?md ?w1)" .
    from "2.IH" [OF refl refl _ _ q] False "2.prems"(2) obtain more where
      "turn_ok k ((all @ ?say ?md) @ more) (narrate rest (queue_narration ?md ?w1))" "filter snd more = []"
      by auto
    with False quiet show ?thesis by (intro exI [of _ "?say ?md @ more"]) (simp add: Let_def)
  qed
qed (metis append_Nil2 filter.simps(1) narrate.simps(1))

lemma render_narration_ok:
  assumes "turn_ok k all w" and "utf8 s"
    and "short_fences (nat slack_markdown_block_max) (trim_space_bytes s)"
  obtains w' more where "render_narration s w = Some w'" and "turn_ok k (all @ more) w'"
    and "filter snd more = []"
proof (cases "trim_space_bytes s = []")
  case True
  with assms(1) that [of w "[]"] show thesis by (simp add: render_narration_def)
next
  case False
  let ?m = "nat slack_markdown_block_max"
  have m: "0 < ?m" "8 \<le> ?m" by (simp_all add: slack_markdown_block_max_def)
  obtain cs where cs: "split_markdown (trim_space_bytes s) ?m = Some cs"
    using split_markdown_bounded [OF m(1)] by blast
  with split_markdown_utf8 [OF trim_space_utf8 [OF assms(2)] assms(3) m(2) cs] narrate_ok [OF assms(1), of cs]
  obtain more where "turn_ok k (all @ more) (narrate cs w)" "filter snd more = []" by blast
  with False cs that show thesis by (simp add: render_narration_def)
qed

lemma open_early_ok:
  assumes "names_message sl" and "turn_ok k all w"
  obtains w' where "open_early sl t w = Some w'" and "turn_ok k all w'"
proof -
  obtain w' where "tick_flush sl t w = Some w'" "turn_ok k all w'" by (rule tick_flush_ok [OF assms])
  with assms(2) that show thesis by (cases "wr_stream_ts w \<noteq> [] \<or> wr_stopped w") (auto simp: open_early_def)
qed

text \<open>Nothing is queued and no message is open.\<close>

definition drained :: "writer \<Rightarrow> bool" where
  "drained w \<longleftrightarrow> wr_queue w = [] \<and> wr_stream_ts w = []"

lemma final_flush_ok:
  assumes "names_message sl" and "turn_ok k all w"
  obtains err w' where "final_flush again sl w = Some (err, w')" and "turn_ok k all w'"
    and "err = None \<Longrightarrow> drained w'"
  using final_flush_from_ok [OF assms] unfolding final_flush_def drained_def by blast

lemma flush_keeps:
  assumes "names_message sl" and "turn_ok k all w"
  shows "tick_flush sl t w = Some w1 \<Longrightarrow> turn_ok k all w1"
    and "open_early sl t w = Some w2 \<Longrightarrow> turn_ok k all w2"
    and "final_flush again sl w = Some (err, w3) \<Longrightarrow> turn_ok k all w3"
proof -
  show "tick_flush sl t w = Some w1 \<Longrightarrow> turn_ok k all w1"
    using tick_flush_ok [OF assms] by (metis option.inject)
  show "open_early sl t w = Some w2 \<Longrightarrow> turn_ok k all w2"
    using open_early_ok [OF assms] by (metis option.inject)
  show "final_flush again sl w = Some (err, w3) \<Longrightarrow> turn_ok k all w3"
    using final_flush_ok [OF assms] by (metis option.inject prod.inject)
qed

lemma log_turn_writer:
  "log_turn t st = (x, st') \<Longrightarrow> turn_ok k all (tr_writer st') = turn_ok k all (tr_writer st)"
  by (auto simp: log_turn_def Let_def split_beta split: if_splits elim!: turn_ok_cong)

lemma record_tool_writer:
  "turn_ok k all (tr_writer (record_tool put t e st)) = turn_ok k all (tr_writer st)"
  by (auto simp: record_tool_def Let_def split_beta log_turn_writer [OF prod.collapse [symmetric]])

lemma render_tool_activity_ok:
  "turn_ok k all (tr_writer st) \<Longrightarrow> turn_ok k all (tr_writer (render_tool_activity parse indent t tool st))"
  by (auto simp: render_tool_activity_def Let_def split_beta record_tool_writer
      split: option.splits tool_kind.splits elim!: turn_ok_cong)

text \<open>An event that does not end the run.\<close>

lemma handle_event_goes_on:
  assumes "names_message (ev_slack ev)" and "carry_ok n A st" and "event_ok e" and "\<not> event_ends e"
    and "boundary (A @ event_text e @ later) n"
  obtains st' where "handle_event ev e st = Some (None, st')" and "carry_ok n (A @ event_text e) st'"
proof (cases e)
  case (Ticked t)
  from assms(2) obtain k all where "turn_ok k all (tr_writer st)" by (auto simp: carry_ok_def)
  then obtain w' where w': "tick_flush (ev_slack ev) t (tr_writer st) = Some w'"
    by (rule tick_flush_ok [OF assms(1)])
  have "carry_ok n A (st\<lparr>tr_writer := w'\<rparr>)"
    by (rule carry_ok_same [OF assms(2)]) (simp add: flush_keeps(1) [OF assms(1) _ w'])
  with that w' Ticked show thesis by (simp add: handle_event_def)
next
  case (GotDelta t d)
  with assms(4) have d: "od_err d = None" "\<not> od_done d" "od_kind d \<noteq> DeltaPrompt"
    by (auto simp: delta_ends_def)
  define st0 where "st0 = (case od_usage d of None \<Rightarrow> st
     | Some u \<Rightarrow> st\<lparr>tr_writer := (tr_writer st)\<lparr>wr_usage := add_usage (wr_usage (tr_writer st)) u\<rparr>\<rparr>)"
  have st0: "carry_ok n A st0"
    by (rule carry_ok_same [OF assms(2)])
      (auto simp: st0_def split: option.splits elim!: turn_ok_cong)
  from assms(3) GotDelta have u: "utf8 (od_content d)" by (simp add: delta_ok_def)
  show thesis
  proof (cases "od_kind d")
    case DeltaText
    obtain c w1 where sk: "skip_delivered (od_content d) (tr_writer st0) = (c, w1)" by fastforce
    from assms(5) GotDelta DeltaText have "boundary (A @ od_content d @ later) n" by simp
    from skip_delivered_ok [OF st0 u this sk]
    have next_ok: "carry_ok n (A @ od_content d) (st0\<lparr>tr_writer := (if c = [] then w1 else queue_answer c w1)\<rparr>)"
      by simp
    show thesis
    proof (cases "c = []")
      case True
      with next_ok sk DeltaText d GotDelta that show thesis
        by (simp add: handle_event_def handle_delta_def st0_def [symmetric] Let_def)
    next
      case False
      with next_ok obtain k all where "turn_ok k all (queue_answer c w1)" by (auto simp: carry_ok_def)
      then obtain w2 where w2: "open_early (ev_slack ev) t (queue_answer c w1) = Some w2"
        by (rule open_early_ok [OF assms(1)])
      have "carry_ok n (A @ od_content d) (st0\<lparr>tr_writer := w2\<rparr>)"
        by (rule carry_ok_same [OF next_ok]) (use False in \<open>simp add: flush_keeps(2) [OF assms(1) _ w2]\<close>)
      with False sk w2 DeltaText d GotDelta that show thesis
        by (simp add: handle_event_def handle_delta_def st0_def [symmetric] Let_def)
    qed
  next
    case DeltaNarration
    with assms(3) GotDelta have short: "short_fences (nat slack_markdown_block_max) (trim_space_bytes (od_content d))"
      by (simp add: delta_ok_def)
    from st0 obtain k all where k: "turn_ok k all (tr_writer st0)" by (auto simp: carry_ok_def)
    obtain w1 more where w1: "render_narration (od_content d) (tr_writer st0) = Some w1" "turn_ok k (all @ more) w1"
      by (rule render_narration_ok [OF k u short])
    obtain w2 where w2: "open_early (ev_slack ev) t w1 = Some w2" by (rule open_early_ok [OF assms(1) w1(2)])
    have "carry_ok n A (st0\<lparr>tr_writer := w2\<rparr>)"
    proof (rule carry_ok_step [OF st0])
      fix k all assume k: "turn_ok k all (tr_writer st0)"
      obtain more where "turn_ok k (all @ more) w1" "filter snd more = []"
        using render_narration_ok [OF k u short] w1(1) by (metis option.inject)
      moreover from this(1) have "turn_ok k (all @ more) w2" by (rule flush_keeps(2) [OF assms(1) _ w2])
      ultimately show "\<exists>more. turn_ok k (all @ more) (tr_writer (st0\<lparr>tr_writer := w2\<rparr>)) \<and> filter snd more = []"
        by auto
    qed
    with w1 w2 DeltaNarration d GotDelta that show thesis
      by (simp add: handle_event_def handle_delta_def st0_def [symmetric] Let_def)
  next
    case DeltaToolActivity
    have "carry_ok n A (render_tool_activity (ev_parse ev) (ev_indent ev) t (od_tool d) st0)"
      by (rule carry_ok_same [OF st0]) (rule render_tool_activity_ok)
    with DeltaToolActivity d GotDelta that show thesis
      by (simp add: handle_event_def handle_delta_def st0_def [symmetric] Let_def)
  qed (use d in simp)
qed (use assms(4) in simp_all)

text \<open>An event that ends it: the final flush has queued nothing more, and has emptied the queue when
  a completed turn reports no error.\<close>

fun completes :: "run_event \<Rightarrow> bool" where
  "completes (GotDelta t d) \<longleftrightarrow> od_err d = None \<and> od_done d"
| "completes (ChannelClosed over) \<longleftrightarrow> \<not> over"
| "completes _ \<longleftrightarrow> False"

lemma finish_run_ok:
  assumes "names_message (ev_slack ev)" and "carry_ok n A st"
  obtains r w' where "finish_run ev (tr_writer st) = Some (r, w')" and "carry_ok n A (st\<lparr>tr_writer := w'\<rparr>)"
    and "r = RunOk \<Longrightarrow> drained w'"
proof -
  from assms(2) obtain k all where k: "turn_ok k all (tr_writer st)" by (auto simp: carry_ok_def)
  obtain err w' where w': "final_flush (ev_again ev) (ev_slack ev) (tr_writer st) = Some (err, w')"
    "err = None \<Longrightarrow> drained w'"
    using final_flush_ok [OF assms(1) k, of "ev_again ev"] by metis
  have "carry_ok n A (st\<lparr>tr_writer := w'\<rparr>)"
    by (rule carry_ok_same [OF assms(2)]) (simp add: flush_keeps(3) [OF assms(1) _ w'(1)])
  with w' that show thesis by (cases err) (auto simp: finish_run_def)
qed

lemma handle_event_ends:
  assumes "names_message (ev_slack ev)" and "carry_ok n A st" and "event_ends e"
  obtains r st' where "handle_event ev e st = Some (Some r, st')" and "carry_ok n A st'"
    and "completes e \<Longrightarrow> r = RunOk \<Longrightarrow> drained (tr_writer st')"
proof (cases e)
  case (ChannelClosed over)
  obtain r w' where "finish_run ev (tr_writer st) = Some (r, w')" "carry_ok n A (st\<lparr>tr_writer := w'\<rparr>)"
    "r = RunOk \<Longrightarrow> drained w'" using finish_run_ok [OF assms(1,2)] by metis
  with ChannelClosed assms(2) that show thesis by (cases over) (simp_all add: handle_event_def)
next
  case (GotDelta t d)
  define st0 where "st0 = (case od_usage d of None \<Rightarrow> st
     | Some u \<Rightarrow> st\<lparr>tr_writer := (tr_writer st)\<lparr>wr_usage := add_usage (wr_usage (tr_writer st)) u\<rparr>\<rparr>)"
  have st0: "carry_ok n A st0"
    by (rule carry_ok_same [OF assms(2)])
      (auto simp: st0_def split: option.splits elim!: turn_ok_cong)
  have flush: "\<exists>err w'. final_flush (ev_again ev) (ev_slack ev) w = Some (err, w') \<and>
      carry_ok n A (st0\<lparr>tr_writer := w'\<rparr>)" if w: "w = tr_writer st0 \<or> w = (tr_writer st0)\<lparr>wr_prompt := True\<rparr>" for w
  proof -
    have same: "turn_ok k all w" if "turn_ok k all (tr_writer st0)" for k all
      using w that by (auto elim: turn_ok_cong)
    from st0 obtain k all where "turn_ok k all (tr_writer st0)" by (auto simp: carry_ok_def)
    then obtain err w' where w': "final_flush (ev_again ev) (ev_slack ev) w = Some (err, w')"
      using final_flush_ok [OF assms(1) same] by metis
    have "carry_ok n A (st0\<lparr>tr_writer := w'\<rparr>)"
      by (rule carry_ok_same [OF st0]) (simp add: flush_keeps(3) [OF assms(1) same w'])
    with w' show ?thesis by blast
  qed
  show thesis
  proof (cases "od_err d")
    case (Some e)
    from flush [of "tr_writer st0"] obtain err w' where
      "final_flush (ev_again ev) (ev_slack ev) (tr_writer st0) = Some (err, w')" "carry_ok n A (st0\<lparr>tr_writer := w'\<rparr>)"
      by blast
    with Some GotDelta that show thesis
      by (simp add: handle_event_def handle_delta_def st0_def [symmetric] Let_def)
  next
    case None
    show thesis
    proof (cases "od_done d")
      case True
      obtain r w' where "finish_run ev (tr_writer st0) = Some (r, w')" "carry_ok n A (st0\<lparr>tr_writer := w'\<rparr>)"
        "r = RunOk \<Longrightarrow> drained w'" using finish_run_ok [OF assms(1) st0] by metis
      with None True GotDelta that show thesis
        by (simp add: handle_event_def handle_delta_def st0_def [symmetric] Let_def)
    next
      case False
      with None GotDelta assms(3) have p: "od_kind d = DeltaPrompt" by (simp add: delta_ends_def)
      from flush [of "(tr_writer st0)\<lparr>wr_prompt := True\<rparr>"] obtain err w' where
        "final_flush (ev_again ev) (ev_slack ev) ((tr_writer st0)\<lparr>wr_prompt := True\<rparr>) = Some (err, w')"
        "carry_ok n A (st0\<lparr>tr_writer := w'\<rparr>)" by blast
      with None False p GotDelta that show thesis
        by (simp add: handle_event_def handle_delta_def st0_def [symmetric] Let_def)
    qed
  qed
qed (use assms(2,3) that in \<open>auto simp: handle_event_def\<close>)

subsection \<open>A whole run\<close>

text \<open>The event the run ended with, when it did.\<close>

fun ending :: "run_event list \<Rightarrow> run_event option" where
  "ending [] = None"
| "ending (e # es) = (if event_ends e then Some e else ending es)"

lemma run_events_ok:
  assumes "names_message (ev_slack ev)" and "\<forall>e \<in> set es. event_ok e"
  shows "carry_ok n A st \<Longrightarrow> boundary (A @ answer_text es) n \<Longrightarrow>
    \<exists>r st'. run_events ev es st = Some (r, st') \<and> carry_ok n (A @ answer_text es) st' \<and>
      (r = None \<longleftrightarrow> ending es = None) \<and>
      (r = Some RunOk \<longrightarrow> (\<exists>e. ending es = Some e \<and> completes e) \<longrightarrow> drained (tr_writer st'))"
  using assms(2)
proof (induction es arbitrary: A st)
  case Nil
  then show ?case by simp
next
  case (Cons e es)
  show ?case
  proof (cases "event_ends e")
    case True
    obtain r st' where "handle_event ev e st = Some (Some r, st')" "carry_ok n A st'"
      "completes e \<Longrightarrow> r = RunOk \<Longrightarrow> drained (tr_writer st')"
      by (rule handle_event_ends [OF assms(1) Cons.prems(1) True]) blast
    with True show ?thesis by simp
  next
    case False
    from Cons.prems(2) False have b: "boundary (A @ event_text e @ answer_text es) n" by simp
    have "event_ok e" using Cons.prems(3) by simp
    from handle_event_goes_on [OF assms(1) Cons.prems(1) this False b]
    obtain st1 where st1: "handle_event ev e st = Some (None, st1)" "carry_ok n (A @ event_text e) st1" by blast
    from Cons.IH [OF st1(2)] b Cons.prems(3) False st1(1) show ?thesis by auto
  qed
qed

lemma carry_ok_writer_same:
  "carry_ok n A st \<Longrightarrow> stream_kept (tr_writer st) (tr_writer st') \<Longrightarrow> carry_ok n A st'"
  by (erule carry_ok_same) (rule stream_kept_turn_ok)

text \<open>A writer as \<open>newBatchedWriterWithClient\<close> makes it, and one that continues a turn.\<close>

definition fresh_writer :: "writer \<Rightarrow> bool" where
  "fresh_writer w \<longleftrightarrow>
     wr_queue w = [] \<and> wr_calls w = [] \<and> wr_appended_len w = 0 \<and> wr_stream_ts w = [] \<and>
     wr_streamed w = 0 \<and> \<not> wr_adopted w \<and> wr_size_budget w = 0 \<and> \<not> wr_stopped w \<and> \<not> wr_failed w \<and>
     wr_skip_text w = 0 \<and> \<not> wr_trim_lead w \<and> wr_lead_trimmed w = 0 \<and> \<not> wr_ran w"

definition sound_record :: "delivered \<Rightarrow> bool" where
  "sound_record d \<longleftrightarrow> 0 \<le> dl_text_len d \<and> 0 \<le> dl_stream_len d \<and> (dl_stream_ts d = [] \<longrightarrow> dl_stream_len d = 0)"

lemma continued_start:
  assumes "fresh_writer w" and "sound_record d"
  shows "carry_ok (nat (dl_text_len d)) [] \<lparr>tr_writer = continue_from d w, tr_logs = logs\<rparr>"
proof -
  have no: "(0 < dl_text_len d \<and> dl_text_len d = 0) = False" "(0 < dl_text_len d \<and> dl_text_len d \<le> 0) = False" by auto
  have "turn_ok (dl_text_len d, False, 0) [] (continue_from d w)"
    using assms delivers.nothing unfolding fresh_writer_def sound_record_def
    by (simp add: turn_ok_def shaped_def delivered_part_def holds_def landed_def accepted_def
        continue_from_def no)
  with assms(2) show ?thesis unfolding carry_ok_def
    by (intro exI [of _ "[]"]) (simp add: sound_record_def trim_left_space.simps no)
qed

lemma fold_tools_ok:
  "turn_ok k all (tr_writer st) \<Longrightarrow>
   turn_ok k all (tr_writer (fold (\<lambda>c. render_tool_activity parse indent t (f c)) cs st))"
  by (induction cs arbitrary: st) (simp_all add: render_tool_activity_ok)

lemma start_run_ok:
  assumes "carry_ok n A st" and "\<not> wr_ran (tr_writer st)"
  shows "carry_ok n A (start_run ev t st)"
proof -
  let ?w = "tr_writer st"
  let ?st1 = "fold (\<lambda>c. render_tool_activity (ev_parse ev) (ev_indent ev) t
      (Some \<lparr>ta_name = ht_name c, ta_kind = ToolCall, ta_call_id = ht_call_id c,
        ta_args = ht_args c, ta_response = [], ta_awaits_approval = False\<rparr>))
    (wr_approved ?w) (st\<lparr>tr_writer := ?w\<lparr>wr_ran := True, wr_approved := []\<rparr>\<rparr>)"
  have "carry_ok n A (st\<lparr>tr_writer := ?w\<lparr>wr_ran := True, wr_approved := []\<rparr>\<rparr>)"
    by (rule carry_ok_same [OF assms(1)]) (auto elim: turn_ok_cong)
  then have "carry_ok n A ?st1" by (rule carry_ok_same) (rule fold_tools_ok)
  moreover have "start_run ev t st = ?st1\<lparr>tr_writer := set_session_status (ev_slack ev) Processing (tr_writer ?st1)\<rparr>"
    using assms(2) by (simp add: start_run_def Let_def)
  ultimately show ?thesis by (auto intro: carry_ok_writer_same simp: set_session_status_same)
qed

lemma leave_run_ok:
  assumes "names_message (ev_slack ev)" and "carry_ok n A st"
  obtains st' where "leave_run ev st = Some st'" and "carry_ok n A st'"
    and "drained (tr_writer st) \<longrightarrow> stream_kept (tr_writer st) (tr_writer st')"
proof -
  let ?w = "tr_writer st" and ?sl = "ev_slack ev"
  have "\<exists>w1. end_stream ?sl ?w = Some w1 \<and> carry_ok n A (st\<lparr>tr_writer := w1\<rparr>) \<and>
    (drained ?w \<longrightarrow> w1 = ?w)"
  proof (cases "wr_stream_ts ?w = [] \<and> \<not> has_queued_content ?w")
    case True
    with assms(2) show ?thesis by (simp add: end_stream_def)
  next
    case False
    then have "\<not> drained ?w" by (auto simp: drained_def has_queued_content_def)
    from assms(2) obtain k all where k: "turn_ok k all ?w" by (auto simp: carry_ok_def)
    obtain err w1 where w1: "close_stream ?sl ?w = Some (err, w1)" using close_stream_ok [OF assms(1) k] by metis
    have keeps: "turn_ok k all w1" if "turn_ok k all ?w" for k all
      using close_stream_ok [OF assms(1) that] w1 by (metis option.inject prod.inject)
    have "carry_ok n A (st\<lparr>tr_writer := w1\<rparr>)"
      by (rule carry_ok_same [OF assms(2)]) (simp add: keeps)
    with False w1 \<open>\<not> drained ?w\<close> show ?thesis by (auto simp: end_stream_def)
  qed
  then obtain w1 where w1: "end_stream ?sl ?w = Some w1" "carry_ok n A (st\<lparr>tr_writer := w1\<rparr>)"
    "drained ?w \<longrightarrow> w1 = ?w" by blast
  let ?st' = "st\<lparr>tr_writer := set_session_status ?sl (exit_session_status w1) w1\<rparr>"
  have "carry_ok n A ?st'" by (rule carry_ok_writer_same [OF w1(2)]) (simp add: set_session_status_same)
  with w1 show thesis using set_session_status_same [of w1] by (intro that [of ?st']) (auto simp: leave_run_def)
qed

text \<open>
  What is on screen and counted of the answer \<open>A\<close>: a prefix, and all of it when nothing is queued
  and the reply was neither stopped nor lost.
\<close>

lemma carry_ok_counts:
  assumes "carry_ok n A st" and "boundary A n"
  shows "int n + wr_lead_trimmed (tr_writer st) + wr_appended_len (tr_writer st) \<le> int (length A) \<and>
    (wr_queue (tr_writer st) = [] \<and> \<not> wr_stopped (tr_writer st) \<and> \<not> wr_failed (tr_writer st) \<longrightarrow>
       int n + wr_lead_trimmed (tr_writer st) + wr_appended_len (tr_writer st) = int (length A))"
proof -
  let ?w = "tr_writer st"
  from assms(1) obtain all lead where inv:
    "turn_ok (max 0 (int n - int (length A)), 0 < n \<and> n \<le> length A \<and> filter snd all = [], int (length lead)) all ?w"
    "drop n A = lead @ map fst (filter snd all)" by (auto simp: carry_ok_def)
  then obtain k where k: "turn_ok k all ?w" "snd (snd k) = int (length lead)" by fastforce
  have "length A = n + length (drop n A)" using assms(2) by (simp add: boundary_def)
  then have A: "length A = n + length lead + length (filter snd all)" using inv(2) by simp
  have lead: "wr_lead_trimmed ?w = int (length lead)" using turn_ok_skip [OF k(1)] k(2) by simp
  from k(1) obtain dn where "wr_appended_len ?w = int (length (filter snd dn))" "prefix dn all"
    by (auto simp: turn_ok_def delivered_part_def landed_def)
  then have "wr_appended_len ?w \<le> int (length (filter snd all))" by (auto simp: prefix_def)
  moreover have "wr_appended_len ?w = int (length (filter snd all))"
    if "wr_queue ?w = []" "\<not> wr_stopped ?w" "\<not> wr_failed ?w"
    using k(1) that by (auto simp: turn_ok_def holds_def landed_def)
  ultimately show ?thesis using A lead by auto
qed

text \<open>The run of a turn, from the first delta to the exit status.\<close>

lemma run_turn_ok:
  assumes "names_message (ev_slack ev)" and "\<forall>e \<in> set es. event_ok e" and "carry_ok n [] st"
    and "\<not> wr_ran (tr_writer st)" and "boundary (answer_text es) n"
  obtains r st' where "run_turn ev t es st = Some (r, st')" and "carry_ok n (answer_text es) st'"
    and "r = None \<longleftrightarrow> ending es = None"
    and "r = Some RunOk \<Longrightarrow> \<exists>e. ending es = Some e \<and> completes e \<Longrightarrow> drained (tr_writer st')"
proof -
  have start: "carry_ok n [] (start_run ev t st)" by (rule start_run_ok [OF assms(3,4)])
  obtain r st1 where
    r: "run_events ev es (start_run ev t st) = Some (r, st1)" "carry_ok n (answer_text es) st1"
    "r = None \<longleftrightarrow> ending es = None"
    "r = Some RunOk \<longrightarrow> (\<exists>e. ending es = Some e \<and> completes e) \<longrightarrow> drained (tr_writer st1)"
    using run_events_ok [OF assms(1,2) start, unfolded append_Nil, OF assms(5)]
    by (elim exE conjE) (rule that, assumption+)
  show thesis
  proof (cases r)
    case None
    with r that [of None st1] show thesis by (simp add: run_turn_def)
  next
    case (Some x)
    obtain st2 where "leave_run ev st1 = Some st2" "carry_ok n (answer_text es) st2"
      "drained (tr_writer st1) \<longrightarrow> stream_kept (tr_writer st1) (tr_writer st2)"
      by (rule leave_run_ok [OF assms(1) r(2)])
    note run = this
    show thesis
    proof (rule that [of r st2])
      show "run_turn ev t es st = Some (r, st2)" using r(1) run(1) Some by (simp add: run_turn_def)
      show "drained (tr_writer st2)" if "r = Some RunOk" "\<exists>e. ending es = Some e \<and> completes e"
        using run(3) r(4) that by (auto simp: drained_def stream_kept_def)
    qed (use run r in auto)
  qed
qed

end
