(* ===== verification/Inspect.thy ===== *)
theory Inspect
  imports ToolLog
begin

section \<open>The inspection of a thread's tool calls\<close>

text \<open>
  The rendering half of \<open>inspect.go\<close> and \<open>toolnames.go\<close>: the blocks of the "Agent steps"
  modal. Slack refuses a modal of more than 100 blocks; the lemmas show that no log reaches that, and
  that the calls left out are counted in the line above the others. \<open>unicode.ToUpper\<close> is the
  parameter \<open>upper\<close>.
\<close>

subsection \<open>Titles\<close>

definition tool_title_max :: nat where
  "tool_title_max = 256"

definition meta_tool_titles :: "(string \<times> string) list" where
  "meta_tool_titles =
     [(''filter_tools'', ''Finding the right tool''),
      (''describe_tool'', ''Reading a tool'' @ [CHR 0x27] @ ''s schema''),
      (''list_tools'', ''Listing the available tools'')]"

definition strip_namespace :: "string \<Rightarrow> string" where
  "strip_namespace s =
     (if trim_prefix s ''x_'' \<noteq> s then trim_prefix s ''x_'' else trim_prefix s ''workflow_'')"

definition humanise_tool_name :: "(rune \<Rightarrow> rune) \<Rightarrow> string \<Rightarrow> string" where
  "humanise_tool_name upper name =
     (let s = collapse_space (replace_all ''_'' '' '' (strip_namespace (trim_space_bytes name)))
      in if s = [] then ''Running a tool''
         else let (r, size) = decode_rune (map of_char s) in of_runes [upper r] @ drop size s)"

definition tool_title :: "(rune \<Rightarrow> rune) \<Rightarrow> string \<Rightarrow> string" where
  "tool_title upper name =
     (let title = (case map_of meta_tool_titles name of Some s \<Rightarrow> s | None \<Rightarrow> humanise_tool_name upper name)
      in truncate_runes (collapse_space (escape_mrkdwn title)) tool_title_max)"

subsection \<open>One call\<close>

text \<open>The cut of escaped text backs off to an ampersand among its last four runes.\<close>

fun back_off_entity :: "nat \<Rightarrow> rune list \<Rightarrow> rune list option" where
  "back_off_entity 0 rev_kept = None"
| "back_off_entity (Suc n) [] = None"
| "back_off_entity (Suc n) (r # rs) =
     (if r = 0x3B then None else if r = 0x26 then Some rs else back_off_entity n rs)"

definition cut_escaped :: "string \<Rightarrow> nat \<Rightarrow> string" where
  "cut_escaped s mx =
     (let r = runes_of s
      in if length r \<le> mx then s
         else let kept = take (mx - 1) r
              in of_runes (case back_off_entity 4 (rev kept) of Some rs \<Rightarrow> rev rs | None \<Rightarrow> kept) @ ellipsis)"

definition code_block :: "string \<Rightarrow> nat \<Rightarrow> string" where
  "code_block s mx = fence @ replace_all ''`'' [CHR 0x27] (cut_escaped (escape_mrkdwn s) mx) @ fence"

definition tool_state_icon :: "tool_state \<Rightarrow> string" where
  "tool_state_icon s =
     of_runes (case s of ToolDone \<Rightarrow> [0x2705] | ToolFailed \<Rightarrow> [0x274C] | ToolAwaitingApproval \<Rightarrow> [0x23F8]
       | ToolRunning \<Rightarrow> [0x23F3])"

definition call_headline :: "(rune \<Rightarrow> rune) \<Rightarrow> tool_log_entry \<Rightarrow> string" where
  "call_headline upper e =
     tool_state_icon (tl_state e) @ '' *'' @ replace_all ''`'' [CHR 0x27] (tool_title upper (tl_name e)) @
     ''*  '' @ of_runes [0xB7] @ ''  `'' @ code_span_safe (cut_escaped (escape_mrkdwn (tl_name e)) 120) @ ''`'' @
     (if tl_via_muster e then ''  via muster'' else [])"

definition call_section_text :: "(rune \<Rightarrow> rune) \<Rightarrow> tool_log_entry \<Rightarrow> string" where
  "call_section_text upper e =
     call_headline upper e @
     (if \<not> tl_called e then newline # ''_The call itself was not recorded._''
      else if tl_args e = [] then newline # ''_No arguments._''
      else newline # ''*Arguments*'' @ newline # code_block (tl_args e) 1400) @
     (case tl_state e of
        ToolRunning \<Rightarrow> newline # ''_No result yet._''
      | ToolAwaitingApproval \<Rightarrow>
          newline # ''_Asked for approval. If it was approved, the call and its result are in a later turn._''
      | st \<Rightarrow>
          (let label = (if st = ToolFailed then ''*Error*'' else ''*Result*'')
           in if tl_result e = [] then newline # label @ '': _no output._''
              else newline # label @ newline # code_block (tl_result e) 900))"

subsection \<open>The blocks\<close>

datatype slack_block =
    ContextBlock string
  | DividerBlock
  | HeaderBlock string
  | SectionBlock string "(string \<times> nat) option"

definition max_inspect_blocks :: nat where
  "max_inspect_blocks = 100"

fun turns_after :: "nat option \<Rightarrow> tool_log_entry list \<Rightarrow> nat" where
  "turns_after turn [] = 0"
| "turns_after turn (e # es) =
     (if turn = Some (tl_turn e) then 0 else 1) + turns_after (Some (tl_turn e)) es"

definition count_turns :: "tool_log_entry list \<Rightarrow> nat" where
  "count_turns es = turns_after None es"

fun fit_blocks :: "tool_log_entry list \<Rightarrow> nat \<Rightarrow> tool_log_entry list \<times> nat" where
  "fit_blocks [] dropped = ([], dropped)"
| "fit_blocks (e # es) dropped =
     (if 1 + length (e # es) + 2 * count_turns (e # es) > max_inspect_blocks
      then fit_blocks es (dropped + 1) else (e # es, dropped))"

definition plural :: "nat \<Rightarrow> string \<Rightarrow> string \<Rightarrow> string" where
  "plural n one many = (if n = 1 then one else many)"

definition middle_dot :: string where
  "middle_dot = '' '' @ of_runes [0xB7] @ '' ''"

definition scope_line :: "nat \<Rightarrow> string" where
  "scope_line dropped =
     ''Visible only to you'' @ middle_dot @ ''the last '' @ decimal max_tool_log_entries @
     '' calls of this thread, kept for 24 hours'' @
     (if dropped > 0
      then middle_dot @ decimal dropped @ '' earlier '' @ plural dropped ''call is'' ''calls are'' @ '' not shown''
      else [])"

definition call_block :: "(rune \<Rightarrow> rune) \<Rightarrow> nat list \<Rightarrow> bool \<Rightarrow> tool_log_entry \<Rightarrow> slack_block" where
  "call_block upper expanded interactive e =
     (if \<not> interactive then SectionBlock (call_section_text upper e) None
      else if tl_id e \<in> set expanded
           then SectionBlock (call_section_text upper e) (Some (''Hide'', tl_id e))
           else SectionBlock (call_headline upper e) (Some (''Show details'', tl_id e)))"

function turn_blocks :: "(rune \<Rightarrow> rune) \<Rightarrow> nat list \<Rightarrow> bool \<Rightarrow> tool_log_entry list \<Rightarrow> slack_block list" where
  "turn_blocks upper expanded interactive [] = []"
| "turn_blocks upper expanded interactive (e # es) =
     (let run = e # takeWhile (\<lambda>d. tl_turn d = tl_turn e) es;
          n = length run
      in [DividerBlock,
          HeaderBlock (''Turn '' @ decimal (tl_turn e) @ middle_dot @ decimal n @ '' '' @ plural n ''call'' ''calls'')] @
         map (call_block upper expanded interactive) run @
         turn_blocks upper expanded interactive (dropWhile (\<lambda>d. tl_turn d = tl_turn e) es))"
  by pat_completeness auto
termination
  by (relation "measure (\<lambda>(_, _, _, es). length es)") (auto simp: le_imp_less_Suc length_dropWhile_le)

definition inspection_blocks ::
  "(rune \<Rightarrow> rune) \<Rightarrow> tool_log_entry list \<Rightarrow> nat \<Rightarrow> nat list \<Rightarrow> bool \<Rightarrow> slack_block list"
where
  "inspection_blocks upper entries dropped expanded interactive =
     (let (shown, left_out) = fit_blocks entries dropped
      in ContextBlock (scope_line left_out) # turn_blocks upper expanded interactive shown)"

text \<open>A click opens or closes one call's details.\<close>

definition toggle_expanded :: "nat list \<Rightarrow> nat \<Rightarrow> nat list" where
  "toggle_expanded expanded i = (if i \<in> set expanded then remove1 i expanded else expanded @ [i])"

subsection \<open>A modal never outgrows Slack's limit\<close>

lemma turns_after_run:
  "turns_after (Some k) es = turns_after (Some k) (dropWhile (\<lambda>d. tl_turn d = k) es)"
  by (induction es) auto

lemma turns_after_other: "(es \<noteq> [] \<Longrightarrow> tl_turn (hd es) \<noteq> k) \<Longrightarrow> turns_after (Some k) es = turns_after None es"
  by (cases es) auto

lemma count_turns_run:
  "count_turns (e # es) = 1 + count_turns (dropWhile (\<lambda>d. tl_turn d = tl_turn e) es)"
proof -
  let ?r = "dropWhile (\<lambda>d. tl_turn d = tl_turn e) es"
  have "?r \<noteq> [] \<Longrightarrow> tl_turn (hd ?r) \<noteq> tl_turn e" using hd_dropWhile by blast
  then show ?thesis using turns_after_run [of "tl_turn e" es] turns_after_other [of ?r "tl_turn e"]
    by (simp add: count_turns_def)
qed

lemma turn_blocks_length:
  "length (turn_blocks upper expanded interactive es) = length es + 2 * count_turns es"
proof (induction upper expanded interactive es rule: turn_blocks.induct)
  case (2 upper expanded interactive e es)
  let ?P = "\<lambda>d. tl_turn d = tl_turn e"
  have "length (takeWhile ?P es) + length (dropWhile ?P es) = length es"
    by (metis length_append takeWhile_dropWhile_id)
  with 2 show ?case by (simp add: count_turns_run [of e es] Let_def)
qed (simp add: count_turns_def)

lemma fit_blocks_spec:
  "fit_blocks es d = (shown, d') \<Longrightarrow>
   (shown = [] \<or> 1 + length shown + 2 * count_turns shown \<le> max_inspect_blocks) \<and> suffix shown es \<and>
   d' + length shown = d + length es"
  by (induction es d rule: fit_blocks.induct) (auto split: if_splits simp: suffix_ConsI)

lemma inspection_blocks_bounded: "length (inspection_blocks upper es d expanded interactive) \<le> 100"
proof -
  obtain shown d' where f: "fit_blocks es d = (shown, d')" by fastforce
  from fit_blocks_spec [OF f] f show ?thesis
    by (auto simp: inspection_blocks_def turn_blocks_length max_inspect_blocks_def count_turns_def)
qed

text \<open>No call is lost without being counted.\<close>

lemma inspection_counts:
  "fit_blocks es d = (shown, d') \<Longrightarrow> suffix shown es \<and> d' + length shown = d + length es"
  using fit_blocks_spec by blast

end
