(* ===== verification/StreamSpec.thy ===== *)
theory StreamSpec
  imports StreamRun Inspect
begin

section \<open>What a streamed turn promises\<close>

text \<open>
  The properties of the streamed reply, of the chunks a text is cut into, of the escaped text and of
  the tool log, each over the definitions of the theories imported, with a concrete turn as the
  witness of those that have hypotheses.
\<close>

subsection \<open>The answer on screen\<close>







text \<open>The start of a turn: a new writer, or one that continues what an earlier process delivered.\<close>

definition turn_start :: "delivered \<Rightarrow> writer \<Rightarrow> thread_tool_log ttl_map \<Rightarrow> turn_run" where
  "turn_start d w logs = \<lparr>tr_writer = continue_from d w, tr_logs = logs\<rparr>"

definition ends_well :: "run_event list \<Rightarrow> bool" where
  "ends_well es \<longleftrightarrow> (case ending es of Some e \<Rightarrow> completes e | None \<Rightarrow> False)"

lemma turn_start_ok:
  assumes "names_message (ev_slack ev)" and "\<forall>e \<in> set es. event_ok e" and "fresh_writer w"
    and "sound_record d" and "boundary (answer_text es) (nat (dl_text_len d))"
  obtains r st' where "run_turn ev t es (turn_start d w logs) = Some (r, st')"
    and "carry_ok (nat (dl_text_len d)) (answer_text es) st'" and "r = None \<longleftrightarrow> ending es = None"
    and "r = Some RunOk \<longrightarrow> ends_well es \<longrightarrow> drained (tr_writer st')"
proof (rule run_turn_ok [OF assms(1,2) continued_start [OF assms(3,4)] _ assms(5)])
  show "\<not> wr_ran (tr_writer \<lparr>tr_writer = continue_from d w, tr_logs = logs\<rparr>)"
    using assms(3) by (simp add: continue_from_def fresh_writer_def)
next
  fix r st'
  assume "run_turn ev t es \<lparr>tr_writer = continue_from d w, tr_logs = logs\<rparr> = Some (r, st')"
    "carry_ok (nat (dl_text_len d)) (answer_text es) st'" "r = None \<longleftrightarrow> ending es = None"
    "r = Some RunOk \<Longrightarrow> \<exists>e. ending es = Some e \<and> completes e \<Longrightarrow> drained (tr_writer st')"
  then show thesis by (intro that [of r st']) (auto simp: turn_start_def ends_well_def split: option.splits)
qed

text \<open>C7: A turn's run comes to an end exactly when an ending arrives, whatever Slack answers: no
answer of Slack, overflow, lost message or refusal keeps the writer sending for ever. (The texts are
UTF-8, and Slack names the messages it opens.)\<close>

theorem turn_run_returns:
  assumes "names_message (ev_slack ev)" and "\<forall>e \<in> set es. event_ok e" and "fresh_writer w"
    and "sound_record d" and "boundary (answer_text es) (nat (dl_text_len d))"
  shows "\<exists>r st'. run_turn ev t es (turn_start d w logs) = Some (r, st') \<and> (r = None \<longleftrightarrow> ending es = None)"
  using turn_start_ok [OF assms] by metis



subsection \<open>A Slack that takes every call\<close>

definition takes_all :: "slack \<Rightarrow> bool" where
  "takes_all sl \<longleftrightarrow> (\<forall>h c. \<exists>ts. sl h c = Inr ts)"

definition live :: "writer \<Rightarrow> bool" where
  "live w \<longleftrightarrow> \<not> wr_stopped w \<and> \<not> wr_failed w"

lemma slack_do_taken:
  assumes "takes_all sl"
  obtains ts where "slack_do sl c w = (Inr ts, w\<lparr>wr_calls := wr_calls w @ [(c, Inr ts)]\<rparr>)"
  using assms unfolding takes_all_def slack_do_def by (metis (no_types))

lemma live_notes [simp]:
  "live (note_delivered w) = live w" "live (note_appended n w) = live w" "live (note_stream ev w) = live w"
  "live (land_batch b w) = live w" "live (drop_stream w) = live w"
  by (simp_all add: live_def)

lemma live_updates [simp]:
  "live (w\<lparr>wr_calls := x1\<rparr>) = live w" "live (w\<lparr>wr_stream_ts := x2\<rparr>) = live w"
  "live (w\<lparr>wr_adopted := x3\<rparr>) = live w" "live (w\<lparr>wr_messages := x4\<rparr>) = live w"
  "live (w\<lparr>wr_opened := x5\<rparr>) = live w" "live (w\<lparr>wr_queue := x6\<rparr>) = live w"
  "live (w\<lparr>wr_flush_failures := x7\<rparr>) = live w" "live (w\<lparr>wr_usage := x8\<rparr>) = live w"
  "live (w\<lparr>wr_skip_text := x9\<rparr>) = live w" "live (w\<lparr>wr_trim_lead := x10\<rparr>) = live w"
  "live (w\<lparr>wr_lead_trimmed := x11\<rparr>) = live w" "live (w\<lparr>wr_narrations := x12\<rparr>) = live w"
  "live (w\<lparr>wr_prompt := x13\<rparr>) = live w" "live (w\<lparr>wr_tool_turn := x14\<rparr>) = live w"
  "live (w\<lparr>wr_failed_calls := x15\<rparr>) = live w"
  by (simp_all add: live_def)

lemma live_not_stopped: "live w \<Longrightarrow> \<not> wr_stopped w"
  by (simp add: live_def)

lemma live_open_stream:
  assumes "takes_all sl" and "live w"
  shows "\<exists>w'. open_stream sl b chunks w = (None, empty_batch, w') \<and> live w'"
proof -
  obtain u t where u: "stream_recipient w = (u, t)" by fastforce
  obtain ts where "slack_do sl (StartStream (wr_channel w) (wr_thread w) chunks u t) w =
      (Inr ts, w\<lparr>wr_calls := wr_calls w @ [(StartStream (wr_channel w) (wr_thread w) chunks u t, Inr ts)]\<rparr>)"
    by (rule slack_do_taken [OF assms(1)])
  with u assms(2) show ?thesis by (simp add: open_stream_def Let_def)
qed

lemma live_stop_stream:
  assumes "takes_all sl" and "live w"
  shows "\<exists>w'. stop_stream sl chunks blocks n status w = (None, w') \<and> live w'"
proof -
  obtain ts where "slack_do sl (StopStream (wr_channel w) (wr_stream_ts w) chunks blocks status) w =
      (Inr ts, w\<lparr>wr_calls := wr_calls w @ [(StopStream (wr_channel w) (wr_stream_ts w) chunks blocks status, Inr ts)]\<rparr>)"
    by (rule slack_do_taken [OF assms(1)])
  with assms(2) show ?thesis by (simp add: stop_stream_def Let_def)
qed

lemma live_roll_over:
  assumes "takes_all sl" and "live w"
  shows "\<exists>w'. roll_over_stream sl w = (None, w') \<and> live w'"
  using assms live_stop_stream [OF assms, of "[]" None 0 Processing] by (auto simp: roll_over_stream_def)

lemma live_deliver_batch:
  assumes "takes_all sl" and "live w"
  shows "\<exists>b' w'. deliver_batch sl b w = (None, b', w') \<and> live w'"
proof -
  let ?c = "AppendStream (wr_channel w) (wr_stream_ts w) (fst (chunk_bodies (bt_items b)))"
  obtain ts where "slack_do sl ?c w = (Inr ts, w\<lparr>wr_calls := wr_calls w @ [(?c, Inr ts)]\<rparr>)"
    by (rule slack_do_taken [OF assms(1)])
  with assms live_open_stream [OF assms, of b "fst (chunk_bodies (bt_items b))"] show ?thesis
    by (auto simp: deliver_batch_def split_beta)
qed

lemma live_make_room:
  assumes "takes_all sl" and "live w"
  shows "\<exists>b' w'. make_room sl b w = (None, b', w') \<and> live w'"
  using live_roll_over [OF assms] live_deliver_batch [OF assms, of b] by (auto simp: make_room_def)

lemma live_close_open:
  assumes "takes_all sl" and "live w"
  shows "\<exists>w'. close_open sl b w = ([], None, w') \<and> live w'"
proof -
  obtain w' where "stop_stream sl (fst (chunk_bodies (bt_items b))) (failed_calls_blocks w) (bt_answer_raw b)
      (exit_session_status w) w = (None, w')" "live w'" using live_stop_stream [OF assms] by blast
  then show ?thesis by (simp add: close_open_def)
qed

lemma live_close_batch:
  assumes "takes_all sl" and "live w"
  shows "\<exists>w'. close_batch sl b w = ([], None, w') \<and> live w'"
proof (cases "wr_stream_ts w = [] \<or> wr_adopted w")
  case True
  obtain b1 w1 where d: "deliver_batch sl b w = (None, b1, w1)" "live w1"
    using live_deliver_batch [OF assms] by blast
  with True live_close_open [OF assms(1) d(2), of b1] show ?thesis by (simp add: close_batch_def)
next
  case False
  with live_close_open [OF assms] show ?thesis by (simp add: close_batch_def)
qed

lemma live_fill_batch:
  assumes "fill_batch sl items b w = Some y"
  shows "takes_all sl \<longrightarrow> live w \<longrightarrow> (\<exists>b'. fst y = Filled b') \<and> live (snd y)"
proof (rule fill_batch.raw_induct [OF _ assms])
  fix fill sl items b w y
  assume IH: "\<And>sl items b w y. fill sl items b w = Some y \<Longrightarrow>
      takes_all sl \<longrightarrow> live w \<longrightarrow> (\<exists>b'. fst y = Filled b') \<and> live (snd y)"
    and step: "(case items of
        [] \<Rightarrow> Some (Filled b, w)
      | c # rest \<Rightarrow>
          if q_text c = [] then fill sl rest b w
          else let (piece, raw) = cut_piece (q_text c) (nat (wr_budget w))
               in if int (length piece) > room w b then
                    (case make_room sl b w of
                       (Some e, b1, w1) \<Rightarrow> Some (LeftOver (bt_items b1 @ items) e, w1)
                     | (None, b1, w1) \<Rightarrow>
                         if wr_stopped w1 then Some (Dropped, w1) else fill sl items b1 w1)
                  else fill sl (c\<lparr>q_text := raw\<rparr> # rest) (add_text piece (q_answer c) b) w) = Some y"
  show "takes_all sl \<longrightarrow> live w \<longrightarrow> (\<exists>b'. fst y = Filled b') \<and> live (snd y)"
  proof (intro impI)
    assume sl: "takes_all sl" and w: "live w"
    obtain b1 w1 where r: "make_room sl b w = (None, b1, w1)" "live w1" using live_make_room [OF sl w] by blast
    show "(\<exists>b'. fst y = Filled b') \<and> live (snd y)"
    proof (cases items)
      case Nil
      with step w show ?thesis by auto
    next
      case (Cons c rest)
      show ?thesis
      proof (cases "q_text c = []")
        case True
        with step Cons have "fill sl rest b w = Some y" by simp
        from IH [OF this] sl w show ?thesis by blast
      next
        case False
        obtain piece raw where cut: "cut_piece (q_text c) (nat (wr_budget w)) = (piece, raw)" by fastforce
        with step Cons False r live_not_stopped [OF r(2)] have
          "fill sl items b1 w1 = Some y \<or> fill sl (c\<lparr>q_text := raw\<rparr> # rest) (add_text piece (q_answer c) b) w = Some y"
          by (simp split: if_splits)
        with IH sl w r(2) show ?thesis by blast
      qed
    qed
  qed
qed

lemma live_send_once:
  assumes "takes_all sl" and "live w" and "send_queued_once sl items closing w = Some (unsent, err, w')"
  shows "err = None \<and> live w'"
proof -
  from assms(3) obtain r w1 where f: "fill_batch sl items empty_batch w = Some (r, w1)"
    by (auto simp: send_queued_once_def split: bind_splits)
  with live_fill_batch [OF f] assms(1,2) obtain b where b: "r = Filled b" "live w1" by auto
  with f assms(3) live_close_batch [OF assms(1) b(2), of b] live_deliver_batch [OF assms(1) b(2), of b]
  show ?thesis by (auto simp: send_queued_once_def split: if_splits)
qed

lemma live_send_queued:
  assumes "takes_all sl" and "live w" and "send_queued sl items closing w = Some (unsent, err, w')"
  shows "err = None \<and> live w'"
proof -
  from assms(3) obtain unsent1 err1 w1 where o: "send_queued_once sl items closing w = Some (unsent1, err1, w1)"
    by (subst (asm) send_queued.simps) (auto split: bind_splits)
  from live_send_once [OF assms(1,2) o] assms(3) o show ?thesis
    by (subst (asm) send_queued.simps) auto
qed

lemma live_take [simp]: "live (snd (take_queued final w)) = live w"
  by (simp add: take_queued_def Let_def split: option.splits)

lemma live_close_stream:
  assumes "takes_all sl" and "live w" and "close_stream sl w = Some (err, w')"
  shows "err = None \<and> live w'"
proof -
  obtain items w1 where t: "take_queued True w = (items, w1)" by fastforce
  then have "live w1" using live_take [of True w] assms(2) by simp
  with assms(2,3) t live_send_queued [OF assms(1) this] show ?thesis
    by (auto simp: close_stream_def live_def split: bind_splits if_splits)
qed

lemma live_flush_queued:
  assumes "takes_all sl" and "live w" and "flush_queued sl w = Some (err, w')"
  shows "err = None \<and> live w'"
proof -
  obtain items w1 where t: "take_queued False w = (items, w1)" by fastforce
  then have "live w1" using live_take [of False w] assms(2) by simp
  with assms(2,3) t live_send_queued [OF assms(1) this] show ?thesis
    by (auto simp: flush_queued_def live_def split: bind_splits if_splits)
qed

lemma live_tick_flush:
  assumes "takes_all sl" and "live w" and "tick_flush sl t w = Some w'"
  shows "live w'"
  using assms live_flush_queued [OF assms(1,2)]
  by (auto simp: tick_flush_def split: bind_splits if_splits)

lemma live_final_flush:
  assumes "takes_all sl" and "live w" and "final_flush again sl w = Some (err, w')"
  shows "err = None \<and> live w'"
  using assms live_close_stream [OF assms(1,2)]
  by (auto simp: final_flush_def max_flush_failures_def elim!: final_flush_from.elims split: bind_splits option.splits)

lemma live_narrate: "live (narrate ps w) = live w"
  by (induction ps w rule: narrate.induct) (auto simp: Let_def queue_narration_def)

lemma live_render_narration: "render_narration s w = Some w' \<Longrightarrow> live w' = live w"
  by (auto simp: render_narration_def Let_def live_narrate split: if_splits bind_splits)

lemma live_skip: "live (snd (skip_delivered c w)) = live w"
  by (simp add: skip_delivered_def skip_cut_def skip_trim_def Let_def)

lemma live_queue_answer [simp]: "live (queue_answer s w) = live w"
  by (simp add: queue_answer_def Let_def)

lemma live_record_tool: "live (tr_writer (record_tool put t e st)) = live (tr_writer st)"
  by (simp add: record_tool_def log_turn_def Let_def split_beta)

lemma live_tool_activity: "live (tr_writer (render_tool_activity parse indent t tool st)) = live (tr_writer st)"
  by (auto simp: render_tool_activity_def live_record_tool Let_def split: option.splits tool_kind.splits prod.splits)

lemma live_open_early:
  "takes_all sl \<Longrightarrow> live w \<Longrightarrow> open_early sl t w = Some w' \<Longrightarrow> live w'"
  by (auto simp: open_early_def live_tick_flush split: if_splits)

lemma live_finish_run:
  "takes_all (ev_slack ev) \<Longrightarrow> live w \<Longrightarrow> finish_run ev w = Some (r, w') \<Longrightarrow> r = RunOk \<and> live w'"
  using live_final_flush by (fastforce simp: finish_run_def split: bind_splits)

lemma live_handle_event:
  assumes "takes_all (ev_slack ev)" and "live (tr_writer st)" and "handle_event ev e st = Some (r, st')"
  shows "live (tr_writer st') \<and> (completes e \<longrightarrow> r = Some RunOk)"
proof (cases e)
  case (GotDelta t d)
  define st1 where "st1 = (case od_usage d of None \<Rightarrow> st
     | Some u \<Rightarrow> st\<lparr>tr_writer := (tr_writer st)\<lparr>wr_usage := add_usage (wr_usage (tr_writer st)) u\<rparr>\<rparr>)"
  have l: "live (tr_writer st1)" using assms(2) by (auto simp: st1_def split: option.splits)
  obtain c w1 where s: "skip_delivered (od_content d) (tr_writer st1) = (c, w1)" by fastforce
  then have l1: "live w1" using live_skip [of "od_content d" "tr_writer st1"] l by simp
  have lp: "live ((tr_writer st1)\<lparr>wr_prompt := True\<rparr>)" using l by simp
  have h: "handle_delta ev t d st = Some (r, st')" using assms(3) GotDelta by (simp add: handle_event_def)
  note h = h [unfolded handle_delta_def Let_def, folded st1_def, unfolded s]
  show ?thesis
  proof (cases "od_err d = None \<and> \<not> od_done d")
    case True
    with h l l1 GotDelta live_open_early [OF assms(1), of "queue_answer c w1" t] show ?thesis
      by (cases "od_kind d")
        (auto simp: live_tool_activity split: bind_splits if_splits
          dest!: live_render_narration live_final_flush [OF assms(1) lp] intro: live_open_early [OF assms(1)])
  next
    case False
    with h l GotDelta show ?thesis
      by (auto split: bind_splits option.splits if_splits
          dest!: live_final_flush [OF assms(1) l] live_finish_run [OF assms(1) l])
  qed
qed (use assms live_tick_flush [OF assms(1,2)] live_finish_run [OF assms(1,2)] in
  \<open>auto simp: handle_event_def split: bind_splits if_splits\<close>)

lemma handle_event_none:
  "handle_event ev e st = Some (r, st') \<Longrightarrow> \<not> event_ends e \<Longrightarrow> r = None"
  by (cases e) (auto simp: handle_event_def handle_delta_def delta_ends_def Let_def
      split: bind_splits option.splits delta_kind.splits if_splits prod.splits)

lemma live_run_events:
  assumes "takes_all (ev_slack ev)"
  shows "live (tr_writer st) \<Longrightarrow> run_events ev es st = Some (r, st') \<Longrightarrow>
    live (tr_writer st') \<and> (ends_well es \<longrightarrow> r = Some RunOk)"
proof (induction es arbitrary: st)
  case (Cons e es)
  from Cons.prems(2) obtain r1 st1 where h: "handle_event ev e st = Some (r1, st1)"
    "(case r1 of None \<Rightarrow> run_events ev es st1 | Some x \<Rightarrow> Some (Some x, st1)) = Some (r, st')"
    by (auto split: bind_splits)
  note l = live_handle_event [OF assms Cons.prems(1) h(1)]
  show ?case
  proof (cases r1)
    case None
    then have "\<not> completes e" using l by auto
    with h(2) None l Cons.IH [of st1] show ?thesis by (auto simp: ends_well_def)
  next
    case (Some x)
    then have "event_ends e" using handle_event_none [OF h(1)] by blast
    with h(2) Some l show ?thesis by (auto simp: ends_well_def)
  qed
qed (simp add: ends_well_def)

lemma live_same_stream: "stream_kept w w' \<Longrightarrow> live w' = live w"
  by (simp add: stream_kept_def live_def)

lemma live_fold_tools:
  "live (tr_writer (fold (\<lambda>c. render_tool_activity parse indent t (f c)) cs st)) = live (tr_writer st)"
  by (induction cs arbitrary: st) (simp_all add: live_tool_activity)

lemma live_start_run: "live (tr_writer st) \<Longrightarrow> live (tr_writer (start_run ev t st))"
  by (auto simp: start_run_def Let_def live_fold_tools live_same_stream [OF set_session_status_same])
    (auto simp: reset_stream_def live_def)

lemma live_leave_run:
  assumes "takes_all (ev_slack ev)" and "live (tr_writer st)" and "leave_run ev st = Some st'"
  shows "live (tr_writer st')"
  using assms live_close_stream [OF assms(1,2)]
  by (auto simp: leave_run_def end_stream_def live_same_stream [OF set_session_status_same]
      split: bind_splits if_splits)

lemma live_run_turn:
  assumes "takes_all (ev_slack ev)" and "live (tr_writer st)" and "run_turn ev t es st = Some (r, st')"
  shows "live (tr_writer st') \<and> (ends_well es \<longrightarrow> r = Some RunOk)"
proof -
  from assms(3) obtain r1 st1 where e: "run_events ev es (start_run ev t st) = Some (r1, st1)"
    by (auto simp: run_turn_def split: bind_splits)
  from live_run_events [OF assms(1) live_start_run [OF assms(2)] e] assms(3) e
    live_leave_run [OF assms(1), of st1]
  show ?thesis by (auto simp: run_turn_def split: bind_splits option.splits)
qed


subsection \<open>A concrete turn\<close>

text \<open>
  A process before this one had put the first three bytes of the answer on screen, into a message it
  left open; the agent's answer comes in one delta, and Slack takes every call.
\<close>

definition obliging_slack :: slack where
  "obliging_slack h c = Inr ''m1''"

definition demo_env :: run_env where
  "demo_env = \<lparr>ev_slack = obliging_slack, ev_parse = (\<lambda>_. None), ev_indent = (\<lambda>_. None), ev_again = (\<lambda>_. True)\<rparr>"

definition demo_events :: "run_event list" where
  "demo_events =
     [GotDelta 1 (zero_delta\<lparr>od_content := ''Hi, you''\<rparr>), GotDelta 2 (zero_delta\<lparr>od_done := True\<rparr>)]"

definition demo_left :: delivered where
  "demo_left = \<lparr>dl_text_len = 3, dl_stream_ts = ''m0'', dl_stream_len = 3\<rparr>"

definition demo_writer :: writer where
  "demo_writer = new_batched_writer ''C1'' ''t1''"

lemma new_writer_fresh: "fresh_writer (new_batched_writer channel thread_ts)"
  by (simp add: fresh_writer_def new_batched_writer_def)

lemma demo_text_utf8: "utf8 ''Hi, you''" "utf8 []"
  by (rule utf8_ascii; simp)+

lemma demo_ok:
  "names_message (ev_slack demo_env)" "\<forall>e \<in> set demo_events. event_ok e" "fresh_writer demo_writer"
  "sound_record demo_left" "boundary (answer_text demo_events) (nat (dl_text_len demo_left))"
  by (simp_all add: demo_env_def obliging_slack_def names_message_def demo_events_def demo_writer_def
      new_writer_fresh zero_delta_def delta_ok_def demo_text_utf8 sound_record_def demo_left_def
      boundary_def rune_start_def delta_ends_def is_cont_def)

lemma demo_takes_all: "takes_all (ev_slack demo_env)"
  by (simp add: takes_all_def demo_env_def obliging_slack_def)

lemma demo_ends: "ends_well demo_events" "ending demo_events = Some (GotDelta 2 (zero_delta\<lparr>od_done := True\<rparr>))"
  by (simp_all add: ends_well_def demo_events_def zero_delta_def delta_ends_def)


lemma demo_start_live: "live (tr_writer (turn_start demo_left demo_writer []))"
  by (simp add: turn_start_def continue_from_def demo_writer_def new_batched_writer_def live_def)

theorem turn_run_returns_witness:
  "\<exists>st'. run_turn demo_env 0 demo_events (turn_start demo_left demo_writer []) = Some (Some RunOk, st')"
  using turn_run_returns [OF demo_ok, of 0 "[]"] live_run_turn [OF demo_takes_all demo_start_live] demo_ends by auto





subsection \<open>The session is never left in progress\<close>

definition calls_status :: "session_status \<Rightarrow> writer \<Rightarrow> writer \<Rightarrow> bool" where
  "calls_status status w w' \<longleftrightarrow>
     wr_channel w' = wr_channel w \<and> wr_thread w' = wr_thread w \<and> wr_prompt w' = wr_prompt w \<and>
     wr_status_off w' = wr_status_off w \<and>
     (\<exists>cs title ini a. wr_calls w' = cs @ [(SetStatus (wr_channel w) (wr_thread w) status title ini, a)])"

lemma status_attempts_calls:
  assumes "c = SetStatus (wr_channel w) (wr_thread w) status title ini"
  shows "calls_status status w (snd (status_attempts n sl c w))"
  using assms
proof (induction n sl c w rule: status_attempts.induct)
  case (1 n sl c w)
  obtain a w1 where s: "slack_do sl c w = (a, w1)" by fastforce
  then have w1: "w1 = w\<lparr>wr_calls := wr_calls w @ [(c, a)]\<rparr>" by (auto simp: slack_do_def Let_def)
  then have once: "calls_status status w w1" using "1.prems" by (simp add: calls_status_def)
  show ?case
  proof (cases n)
    case 0
    with s once show ?thesis by simp
  next
    case (Suc k)
    have "calls_status status w1 (snd (status_attempts k sl c w1))"
      if "\<not> (call_status c = Processing \<or> \<not> (case answer_error a of Some e \<Rightarrow> status_transient e | None \<Rightarrow> False))"
      using "1.IH" [OF s [symmetric] refl refl Suc that] "1.prems" w1 by simp
    with Suc s once w1 show ?thesis by (auto simp: Let_def calls_status_def)
  qed
qed

lemma status_off_cases:
  "(case (case err of Some e \<Rightarrow> if c e then (err', w2) else (err, w1) | None \<Rightarrow> (err, w1)) of
      (err2, w) \<Rightarrow> (case err2 of Some e \<Rightarrow> if u e then w\<lparr>wr_status_off := True\<rparr> else w | None \<Rightarrow> w))
   \<in> {w1, w1\<lparr>wr_status_off := True\<rparr>, w2, w2\<lparr>wr_status_off := True\<rparr>}"
  by (auto split: option.split)

lemma set_session_status_calls:
  assumes "\<not> wr_status_off (set_session_status sl status w)"
  shows "\<exists>cs title ini a. wr_calls (set_session_status sl status w) =
      cs @ [(SetStatus (wr_channel w) (wr_thread w) status title ini, a)]"
    and "wr_channel (set_session_status sl status w) = wr_channel w"
    and "wr_thread (set_session_status sl status w) = wr_thread w"
    and "wr_prompt (set_session_status sl status w) = wr_prompt w"
proof -
  have "\<not> wr_status_off w" using assms by (auto simp: set_session_status_def)
  let ?title = "if status = Processing \<or> wr_status_only w then wr_title w else []"
  let ?ini = "if status = Processing \<or> wr_status_only w then wr_initiator w else []"
  obtain err w1 where at: "status_attempts (status_idle_attempts - 1) sl (status_call status ?title ?ini w) w = (err, w1)"
    by fastforce
  have w1: "calls_status status w w1"
    using status_attempts_calls [of "status_call status ?title ?ini w" w status ?title ?ini
        "status_idle_attempts - 1" sl] at by (simp add: status_call_def)
  have again: "calls_status status w (snd (slack_do sl (status_call status [] [] w1) w1))"
    using w1 by (simp add: calls_status_def slack_do_def status_call_def Let_def)
  have "\<exists>w2. calls_status status w w2 \<and>
      (set_session_status sl status w = w2 \<or> set_session_status sl status w = w2\<lparr>wr_status_off := True\<rparr>)"
  proof -
    obtain a w2 where s2: "slack_do sl (status_call status [] [] w1) w1 = (a, w2)" by fastforce
    with again have w2: "calls_status status w w2" by simp
    have "set_session_status sl status w \<in>
        {w1, w1\<lparr>wr_status_off := True\<rparr>, w2, w2\<lparr>wr_status_off := True\<rparr>}"
      unfolding set_session_status_def Let_def if_not_P [OF \<open>\<not> wr_status_off w\<close>] at s2 prod.case
      by (rule status_off_cases)
    with w1 w2 show ?thesis by blast
  qed
  then show "\<exists>cs title ini a. wr_calls (set_session_status sl status w) =
      cs @ [(SetStatus (wr_channel w) (wr_thread w) status title ini, a)]"
    "wr_channel (set_session_status sl status w) = wr_channel w"
    "wr_thread (set_session_status sl status w) = wr_thread w"
    "wr_prompt (set_session_status sl status w) = wr_prompt w"
    by (auto simp: calls_status_def)
qed

text \<open>C20: However a turn's run ends, the last call it makes takes the session out of processing:
suspended when it put a question, active otherwise. (Unless Slack told the writer that it cannot set
session statuses at all.)\<close>

theorem session_left_at_rest:
  assumes "run_turn ev t es st = Some (Some r, st')" and "\<not> wr_status_off (tr_writer st')"
  shows "\<exists>cs title ini a. wr_calls (tr_writer st') =
    cs @ [(SetStatus (wr_channel (tr_writer st')) (wr_thread (tr_writer st'))
      (if wr_prompt (tr_writer st') then Suspended else Active) title ini, a)]"
proof -
  from assms(1) obtain st1 where "leave_run ev st1 = Some st'"
    by (auto simp: run_turn_def split: bind_splits option.splits)
  then obtain w1 where "tr_writer st' = set_session_status (ev_slack ev) (exit_session_status w1) w1"
    by (auto simp: leave_run_def split: bind_splits)
  with set_session_status_calls [of "ev_slack ev" "exit_session_status w1" w1] assms(2)
  show ?thesis by (simp add: exit_session_status_def)
qed

subsection \<open>Chunks, escaped text and the tool log\<close>

text \<open>C23: Markdown is cut into chunks of at most the limit, whatever the text, and the chunks of a text
without a code fence make it up again.\<close>

theorem chunks_fit:
  assumes "0 < m"
  shows "\<exists>cs. split_markdown s m = Some cs \<and> cs \<noteq> [] \<and> (\<forall>c \<in> set cs. length c \<le> m) \<and>
    (fence_free s \<longrightarrow> concat cs = s)"
  using split_markdown_bounded [OF assms, of s] split_markdown_plain [OF assms, of s] by auto

text \<open>Cutting a text at a limit of zero does not end: the callers pass a positive limit.\<close>

theorem split_ends_iff_positive: "(\<exists>ps. split_at_lines s m = Some ps) \<longleftrightarrow> s = [] \<or> 0 < m"
proof (cases "m = 0")
  case True
  then show ?thesis using split_at_lines_zero [of s] by (cases "s = []") (simp_all add: split_at_lines.simps)
next
  case False
  then obtain ps where "split_at_lines s m = Some ps" using split_at_lines_returns by (metis gr0I)
  with False show ?thesis by simp
qed

text \<open>C24: Escaped text holds no angle bracket, so it can neither mention nor link, and two texts that
differ stay different; capped, it keeps to its limit of runes.\<close>

theorem escaped_text_inert:
  shows "CHR ''<'' \<notin> set (escape_mrkdwn s) \<and> CHR ''>'' \<notin> set (escape_mrkdwn s) \<and>
    (escape_mrkdwn s = escape_mrkdwn s' \<longleftrightarrow> s = s') \<and>
    int (count_runes (escape_mrkdwn_capped s (int mx + 1))) \<le> int mx + 1"
  using escape_no_control [of s] escape_injective [of s s'] escape_capped_fits [of "int mx + 1" s] by auto

text \<open>C22: The inspection of a thread's tool calls is at most the hundred blocks a Slack modal takes; it
shows the latest calls, and counts every call it leaves out.\<close>

theorem inspection_fits_modal:
  "length (inspection_blocks upper es d expanded interactive) \<le> 100 \<and>
   suffix (fst (fit_blocks es d)) es \<and> snd (fit_blocks es d) + length (fst (fit_blocks es d)) = d + length es"
  using inspection_blocks_bounded inspection_counts [of es d "fst (fit_blocks es d)" "snd (fit_blocks es d)"] by simp

text \<open>The writes of all the turns of a process, at their times.\<close>

datatype log_op = BeginTurn gotime string | AppendCall gotime string tool_log_entry
  | CompleteCall gotime string tool_log_entry

fun log_step :: "log_op \<Rightarrow> thread_tool_log ttl_map \<Rightarrow> thread_tool_log ttl_map" where
  "log_step (BeginTurn t th) m = snd (begin_tool_log_turn t th m)"
| "log_step (AppendCall t th e) m = append_tool_log t th e m"
| "log_step (CompleteCall t th e) m = complete_tool_log t th e m"

lemma log_steps_ok: "logs_ok m \<Longrightarrow> logs_ok (fold log_step ops m)"
proof (induction ops arbitrary: m)
  case (Cons op ops)
  have "logs_ok (log_step op m)" using tool_log_ops_ok [OF Cons.prems] by (cases op) simp_all
  from Cons.IH [OF this] show ?case by simp
qed simp

text \<open>C21: In every tool log the writes of any number of turns reach, a thread's calls are numbered
consecutively from the first one not dropped to the latest, and at most the limit are kept.\<close>

theorem tool_log_consecutive:
  assumes "map_of (fold log_step ops []) th = Some (lg, expires)"
  shows "length (tg_entries lg) \<le> max_tool_log_entries \<and>
    map tl_id (tg_entries lg) = [Suc (tg_dropped lg)..<Suc (tg_ids lg)]"
proof -
  have "logs_ok ([] :: thread_tool_log ttl_map)" by (simp add: logs_ok_def)
  from log_steps_ok [OF this, of ops] assms have "log_ok lg" unfolding logs_ok_def by blast
  then show ?thesis by (simp add: log_ok_def)
qed

theorem chunks_fit_witness:
  "split_markdown ''one two'' 5 = Some [''one t'', ''wo''] \<and>
   (\<exists>cs. split_markdown ''one two'' 5 = Some cs \<and> cs \<noteq> [] \<and> concat cs = ''one two'')"
proof -
  have "fence_free ''one two''" by code_simp
  with chunks_fit [of 5 "''one two''"] have
    "\<exists>cs. split_markdown ''one two'' 5 = Some cs \<and> cs \<noteq> [] \<and> concat cs = ''one two''" by auto
  moreover have "split_markdown ''one two'' 5 = Some [''one t'', ''wo'']" by code_simp
  ultimately show ?thesis by blast
qed

definition demo_entry :: tool_log_entry where
  "demo_entry =
     \<lparr>tl_id = 0, tl_turn = 1, tl_call_id = ''c1'', tl_name = ''pods'', tl_via_muster = False, tl_called = True,
      tl_args = [], tl_state = ToolRunning, tl_result = []\<rparr>"

definition demo_ops :: "log_op list" where
  "demo_ops = [BeginTurn 0 ''t1'', AppendCall 5 ''t1'' demo_entry]"

theorem tool_log_consecutive_witness:
  "\<exists>lg expires. map_of (fold log_step demo_ops []) ''t1'' = Some (lg, expires) \<and> map tl_id (tg_entries lg) = [1]"
proof -
  have "map_of (fold log_step demo_ops []) ''t1'' =
      Some (\<lparr>tg_turns = 1, tg_dropped = 0, tg_ids = 1, tg_entries = [demo_entry\<lparr>tl_id := 1\<rparr>]\<rparr>, 5 + thread_state_ttl)"
    by code_simp
  from this tool_log_consecutive [OF this] show ?thesis by simp
qed

text \<open>A turn cut off before its first delta.\<close>

lemma quiet_run:
  "\<exists>st'. run_turn demo_env 0 [ContextOver] (turn_start zero_delivered demo_writer []) = Some (Some RunCancelled, st') \<and>
    \<not> wr_status_off (tr_writer st') \<and> \<not> wr_prompt (tr_writer st') \<and>
    wr_channel (tr_writer st') = ''C1'' \<and> wr_thread (tr_writer st') = ''t1''"
  by (simp add: run_turn_def start_run_def leave_run_def end_stream_def turn_start_def continue_from_def
      demo_writer_def new_batched_writer_def zero_delivered_def set_session_status_def
      status_idle_attempts_def status_call_def demo_env_def obliging_slack_def slack_do_def
      answer_error_def has_queued_content_def exit_session_status_def handle_event_def Let_def)

theorem session_left_at_rest_witness:
  "\<exists>st' cs title ini a. run_turn demo_env 0 [ContextOver] (turn_start zero_delivered demo_writer []) =
     Some (Some RunCancelled, st') \<and>
   wr_calls (tr_writer st') = cs @ [(SetStatus ''C1'' ''t1'' Active title ini, a)]"
proof -
  obtain st' where st': "run_turn demo_env 0 [ContextOver] (turn_start zero_delivered demo_writer []) = Some (Some RunCancelled, st')"
    "\<not> wr_status_off (tr_writer st')" "\<not> wr_prompt (tr_writer st')"
    "wr_channel (tr_writer st') = ''C1''" "wr_thread (tr_writer st') = ''t1''" using quiet_run by blast
  from session_left_at_rest [OF st'(1,2)] st' show ?thesis by simp
qed

end
