(* ===== verification/Validate.thy ===== *)
theory Validate
  imports Parts
begin

section \<open>What the API accepts\<close>

text \<open>
  The \<open>Validate\<close> methods of \<open>pkg/channels/decision.go\<close>,
  \<open>pkg/channels/teamreview.go\<close> and \<open>pkg/channels/conversation.go\<close>: the requests a
  review, a decision or a conversation is opened with. An error is the check that refused, with
  the field it names. \<open>url_parse\<close> is \<open>url.Parse\<close>'s scheme and host; the Slack channel
  pattern is the regular expression written out.
\<close>

datatype invalid =
    Required string
  | TooLong string int
  | NotOneLine string
  | NotOneAddressee
  | NotAnEmail
  | ChannelForPerson
  | NotAChannel string
  | TooMany string int
  | NoSuchOption
  | DueMissing
  | DueInPast
  | NotALink string
  | Blank string
  | SameChannel
  | ReservedArgument string
  | NotAnOutcome

record tool_invocation =
  ti_tool :: string
  ti_arguments :: json_map

fun first_error :: "(bool \<times> invalid) list \<Rightarrow> invalid option" where
  "first_error [] = None"
| "first_error ((bad, e) # rest) = (if bad then Some e else first_error rest)"

lemma first_error_None: "first_error cs = None \<longleftrightarrow> (\<forall>(bad, e)\<in>set cs. \<not> bad)"
  by (induction cs rule: first_error.induct) auto

definition or_else :: "invalid option \<Rightarrow> invalid option \<Rightarrow> invalid option" where
  "or_else a b = (case a of Some e \<Rightarrow> Some e | None \<Rightarrow> b)"

lemma or_else_None [simp]: "or_else a b = None \<longleftrightarrow> a = None \<and> b = None"
  by (simp add: or_else_def split: option.split)

fun first_of :: "('a \<Rightarrow> invalid option) \<Rightarrow> 'a list \<Rightarrow> invalid option" where
  "first_of f [] = None"
| "first_of f (x # xs) = or_else (f x) (first_of f xs)"

lemma first_of_None [simp]: "first_of f xs = None \<longleftrightarrow> (\<forall>x\<in>set xs. f x = None)"
  by (induction xs) auto

subsection \<open>Text fields\<close>

definition rune_count :: "string \<Rightarrow> int" where
  "rune_count s = int (length (runes_of s))"

definition is_blank :: "string \<Rightarrow> bool" where
  "is_blank s \<longleftrightarrow> list_all is_space (runes_of s)"

definition required :: "string \<Rightarrow> string \<Rightarrow> int \<Rightarrow> invalid option" where
  "required field v limit =
     (if is_blank v then Some (Required field)
      else if rune_count v > limit then Some (TooLong field limit) else None)"

definition required_line :: "string \<Rightarrow> string \<Rightarrow> int \<Rightarrow> invalid option" where
  "required_line field v limit =
     or_else (required field v limit)
       (if CHR 0x0D \<in> set v \<or> newline \<in> set v then Some (NotOneLine field) else None)"

definition is_upper_or_digit :: "char \<Rightarrow> bool" where
  "is_upper_or_digit c \<longleftrightarrow>
     (65 \<le> (of_char c :: nat) \<and> (of_char c :: nat) \<le> 90) \<or>
     (48 \<le> (of_char c :: nat) \<and> (of_char c :: nat) \<le> 57)"

definition slack_channel_id :: "string \<Rightarrow> bool" where
  "slack_channel_id s =
     (case s of
        [] \<Rightarrow> False
      | c # rest \<Rightarrow>
          c \<in> set ''CDG'' \<and> 5 \<le> length rest \<and> list_all is_upper_or_digit rest)"

definition validate_link ::
  "(string \<Rightarrow> (string \<times> string) option) \<Rightarrow> string \<Rightarrow> string \<Rightarrow> invalid option" where
  "validate_link url_parse field link =
     (if link = [] then None
      else
        (case url_parse link of
           None \<Rightarrow> Some (NotALink field)
         | Some (scheme, host) \<Rightarrow>
             if (scheme \<noteq> ''https'' \<and> scheme \<noteq> ''http'') \<or> host = [] then Some (NotALink field)
             else None))"

subsection \<open>Decisions\<close>

record decision_request =
  dr_person :: string
  dr_team :: string
  dr_channel :: string
  dr_note :: string
  dr_question :: string
  dr_status_quo :: string
  dr_options :: "decision_option list"
  dr_recommend :: int
  dr_due :: gotime
  dr_default :: string
  dr_asked_by :: string
  dr_answer :: tool_invocation

definition validate_option :: "decision_option \<Rightarrow> invalid option" where
  "validate_option x =
     or_else (required_line ''options.label'' (do_label x) 75)
       (if rune_count (do_consequence x) > 2800 then Some (TooLong ''options.consequence'' 2800) else None)"

definition validate_decision :: "gotime \<Rightarrow> decision_request \<Rightarrow> invalid option" where
  "validate_decision now d =
     or_else (first_error
       [((dr_person d = []) = (dr_team d = []), NotOneAddressee),
        (dr_person d \<noteq> [] \<and> CHR 0x40 \<notin> set (dr_person d), NotAnEmail),
        (dr_person d \<noteq> [] \<and> dr_channel d \<noteq> [], ChannelForPerson),
        (dr_team d \<noteq> [] \<and> \<not> slack_channel_id (dr_channel d), NotAChannel ''channel'')])
     (or_else (required_line ''question'' (dr_question d) 150)
     (or_else (required ''statusQuo'' (dr_status_quo d) 3000)
     (or_else (if length (dr_options d) > 10 then Some (TooMany ''options'' 10) else None)
     (or_else (first_of validate_option (dr_options d))
     (or_else (first_error
       [(dr_recommend d < 0 \<or> dr_recommend d > int (length (dr_options d)), NoSuchOption),
        (dr_due d = 0, DueMissing),
        (\<not> now < dr_due d, DueInPast),
        (ti_tool (dr_answer d) = [], Required ''answer.tool''),
        (rune_count (dr_note d) > 100, TooLong ''note'' 100)])
     (or_else (required ''default'' (dr_default d) 1000)
       (required_line ''askedBy'' (dr_asked_by d) 200)))))))"

definition decision_answered :: string where "decision_answered = ''answered''"
definition decision_defaulted :: string where "decision_defaulted = ''defaulted''"
definition decision_withdrawn :: string where "decision_withdrawn = ''withdrawn''"

definition validate_decision_close :: "string \<Rightarrow> string \<Rightarrow> invalid option" where
  "validate_decision_close outcome body =
     (if outcome \<noteq> decision_answered \<and> outcome \<noteq> decision_defaulted \<and> outcome \<noteq> decision_withdrawn
      then Some NotAnOutcome
      else if rune_count body > 3000 then Some (TooLong ''text'' 3000) else None)"

subsection \<open>Team reviews\<close>

record team_review =
  tw_team :: string
  tw_channel :: string
  tw_text :: string
  tw_link :: string
  tw_actor :: string
  tw_pull_requests :: "string list"
  tw_approve :: tool_invocation
  tw_deny :: tool_invocation
  tw_notice_channel :: string

definition team_text_max :: int where "team_text_max = 3000"
definition team_pull_requests_max :: int where "team_pull_requests_max = 25"

definition validate_pull_request ::
  "(string \<Rightarrow> (string \<times> string) option) \<Rightarrow> string \<Rightarrow> invalid option" where
  "validate_pull_request url_parse pr =
     (if pr = [] then Some (Blank ''pullRequests'')
      else validate_link url_parse ''pullRequests entry'' pr)"

definition validate_team_message ::
  "(string \<Rightarrow> (string \<times> string) option) \<Rightarrow> string \<Rightarrow> string \<Rightarrow> string \<Rightarrow> string \<Rightarrow> string list \<Rightarrow>
   invalid option" where
  "validate_team_message url_parse team channel body link prs =
     or_else (first_error
       [(team = [], Required ''team''),
        (\<not> slack_channel_id channel, NotAChannel ''channel''),
        (body = [], Required ''text''),
        (int (length body) > team_text_max, TooLong ''text'' team_text_max),
        (int (length prs) > team_pull_requests_max, TooMany ''pullRequests'' team_pull_requests_max)])
     (or_else (validate_link url_parse ''link'' link)
       (first_of (validate_pull_request url_parse) prs))"

definition validate_team_review ::
  "(string \<Rightarrow> (string \<times> string) option) \<Rightarrow> team_review \<Rightarrow> invalid option" where
  "validate_team_review url_parse r =
     or_else (validate_team_message url_parse (tw_team r) (tw_channel r) (tw_text r) (tw_link r)
                (tw_pull_requests r))
       (first_error
         [(ti_tool (tw_approve r) = [], Required ''approve.tool''),
          (ti_tool (tw_deny r) = [] \<and> ti_arguments (tw_deny r) \<noteq> [], Required ''deny.tool''),
          (tw_actor r \<noteq> [] \<and> is_blank (tw_actor r), Blank ''actor''),
          (tw_notice_channel r \<noteq> [] \<and> \<not> slack_channel_id (tw_notice_channel r),
           NotAChannel ''noticeChannel''),
          (tw_notice_channel r = tw_channel r, SameChannel)])"

definition validate_review_result ::
  "(string \<Rightarrow> (string \<times> string) option) \<Rightarrow> string \<Rightarrow> string \<Rightarrow> invalid option" where
  "validate_review_result url_parse body link =
     (if body = [] then Some (Required ''text'')
      else if int (length body) > team_text_max then Some (TooLong ''text'' team_text_max)
      else validate_link url_parse ''link'' link)"

subsection \<open>Conversations\<close>

record conversation_request =
  cr_person :: string
  cr_from :: string
  cr_text :: string
  cr_reply :: tool_invocation

definition validate_conversation :: "conversation_request \<Rightarrow> invalid option" where
  "validate_conversation c =
     (if CHR 0x40 \<notin> set (cr_person c) then Some NotAnEmail
      else
        or_else (required_line ''from'' (cr_from c) 200)
        (or_else (required ''text'' (cr_text c) 12000)
          (first_error
            [(ti_tool (cr_reply c) = [], Required ''reply.tool''),
             (map_of (ti_arguments (cr_reply c)) ''message'' \<noteq> None, ReservedArgument ''message'')])))"

definition validate_conversation_message :: "string \<Rightarrow> invalid option" where
  "validate_conversation_message body = required ''text'' body 12000"

subsection \<open>What passes\<close>

lemma required_ok: "required f v n = None \<longleftrightarrow> \<not> is_blank v \<and> rune_count v \<le> n"
  by (auto simp: required_def)

lemma required_line_ok:
  "required_line f v n = None \<longleftrightarrow>
   \<not> is_blank v \<and> rune_count v \<le> n \<and> CHR 0x0D \<notin> set v \<and> newline \<notin> set v"
  by (auto simp: required_line_def required_ok)

lemma validate_decision_ok:
  "validate_decision now d = None \<longleftrightarrow>
     (if dr_person d = [] then dr_team d \<noteq> [] \<and> slack_channel_id (dr_channel d)
      else dr_team d = [] \<and> CHR 0x40 \<in> set (dr_person d) \<and> dr_channel d = []) \<and>
     required_line ''question'' (dr_question d) 150 = None \<and>
     required ''statusQuo'' (dr_status_quo d) 3000 = None \<and>
     length (dr_options d) \<le> 10 \<and> (\<forall>x\<in>set (dr_options d). validate_option x = None) \<and>
     0 \<le> dr_recommend d \<and> dr_recommend d \<le> int (length (dr_options d)) \<and>
     dr_due d \<noteq> 0 \<and> now < dr_due d \<and> ti_tool (dr_answer d) \<noteq> [] \<and> rune_count (dr_note d) \<le> 100 \<and>
     required ''default'' (dr_default d) 1000 = None \<and>
     required_line ''askedBy'' (dr_asked_by d) 200 = None"
  by (auto simp: validate_decision_def)

lemma slack_channel_id_plain:
  "slack_channel_id s \<Longrightarrow> 6 \<le> length s \<and> (\<forall>c\<in>set s. is_upper_or_digit c)"
  by (auto simp: slack_channel_id_def list_all_iff is_upper_or_digit_def split: list.splits)

definition web_link :: "(string \<Rightarrow> (string \<times> string) option) \<Rightarrow> string \<Rightarrow> bool" where
  "web_link url_parse l \<longleftrightarrow>
     (case url_parse l of None \<Rightarrow> False
      | Some (scheme, host) \<Rightarrow> (scheme = ''http'' \<or> scheme = ''https'') \<and> host \<noteq> [])"

lemma validate_link_ok: "validate_link up f l = None \<longleftrightarrow> l = [] \<or> web_link up l"
  by (auto simp: validate_link_def web_link_def split: option.splits)

lemma validate_pull_request_ok: "validate_pull_request up l = None \<longleftrightarrow> l \<noteq> [] \<and> web_link up l"
  by (auto simp: validate_pull_request_def validate_link_ok)

lemma validate_team_message_ok:
  "validate_team_message up team channel body link prs = None \<longleftrightarrow>
   team \<noteq> [] \<and> slack_channel_id channel \<and> body \<noteq> [] \<and> int (length body) \<le> team_text_max \<and>
   int (length prs) \<le> team_pull_requests_max \<and> (link = [] \<or> web_link up link) \<and>
   (\<forall>l\<in>set prs. l \<noteq> [] \<and> web_link up l)"
  by (auto simp: validate_team_message_def validate_link_ok validate_pull_request_ok)

lemma validate_team_review_ok:
  "validate_team_review up r = None \<longleftrightarrow>
   validate_team_message up (tw_team r) (tw_channel r) (tw_text r) (tw_link r)
     (tw_pull_requests r) = None \<and>
   ti_tool (tw_approve r) \<noteq> [] \<and> (ti_tool (tw_deny r) = [] \<longrightarrow> ti_arguments (tw_deny r) = []) \<and>
   (tw_actor r = [] \<or> \<not> is_blank (tw_actor r)) \<and>
   (tw_notice_channel r = [] \<or> slack_channel_id (tw_notice_channel r)) \<and>
   tw_notice_channel r \<noteq> tw_channel r"
  by (auto simp: validate_team_review_def)

text \<open>The text limit of a review counts bytes: one of half as many letters is refused.\<close>

lemma umlauts: "rune_count (concat (replicate n [CHR 0xC3, CHR 0xA4])) = int n"
proof -
  have nil: "decode_bytes [] = []" by (simp add: decode_bytes.simps)
  have two: "decode_bytes (0xC3 # 0xA4 # xs) = 0xE4 # decode_bytes xs" for xs
    by (subst decode_bytes.simps) (simp add: is_cont_def)
  have "length (decode_bytes (concat (replicate n [0xC3, 0xA4]))) = n"
    by (induction n) (simp_all add: nil two)
  moreover have "map of_char (concat (replicate n [CHR 0xC3, CHR 0xA4])) =
      concat (replicate n [0xC3, 0xA4 :: nat])"
    by (induction n) simp_all
  ultimately show ?thesis by (simp add: rune_count_def runes_of_def)
qed

subsection \<open>Properties\<close>

text \<open>A decision request is accepted exactly when it names either a team and a Slack
  channel or a person by address, its question, status quo, default and author are there and
  within their lengths, its recommendation is one of at most ten valid options or none, it is due
  in the future, it has an answer tool and its note is short.\<close>

theorem decision_accepted_iff:
  "validate_decision now d = None \<longleftrightarrow>
     (if dr_person d = [] then dr_team d \<noteq> [] \<and> slack_channel_id (dr_channel d)
      else dr_team d = [] \<and> CHR 0x40 \<in> set (dr_person d) \<and> dr_channel d = []) \<and>
     required_line ''question'' (dr_question d) 150 = None \<and>
     required ''statusQuo'' (dr_status_quo d) 3000 = None \<and>
     length (dr_options d) \<le> 10 \<and> list_all (\<lambda>x. validate_option x = None) (dr_options d) \<and>
     0 \<le> dr_recommend d \<and> dr_recommend d \<le> int (length (dr_options d)) \<and>
     dr_due d \<noteq> 0 \<and> now < dr_due d \<and> ti_tool (dr_answer d) \<noteq> [] \<and> rune_count (dr_note d) \<le> 100 \<and>
     required ''default'' (dr_default d) 1000 = None \<and>
     required_line ''askedBy'' (dr_asked_by d) 200 = None"
  by (simp add: validate_decision_ok list_all_iff)

text \<open>The limit on a team message counts bytes: 1501 letters of two bytes each are refused,
  although they are half of the 3000 characters the interface documents.\<close>

theorem team_text_limit_counts_bytes:
  assumes "1500 < n"
  shows "rune_count (concat (replicate n [CHR 0xC3, CHR 0xA4])) = int n \<and>
    validate_team_message up team channel (concat (replicate n [CHR 0xC3, CHR 0xA4])) link prs \<noteq> None"
proof -
  have "length (concat (replicate n [CHR 0xC3, CHR 0xA4])) = 2 * n"
    by (induction n) simp_all
  with assms have "team_text_max < int (length (concat (replicate n [CHR 0xC3, CHR 0xA4])))"
    by (simp add: team_text_max_def)
  then show ?thesis by (auto simp: umlauts validate_team_message_ok)
qed

theorem team_text_limit_counts_bytes_witness:
  "rune_count (concat (replicate 1501 [CHR 0xC3, CHR 0xA4])) = 1501 \<and>
   validate_team_message (\<lambda>_. None) ''t'' ''C12345'' (concat (replicate 1501 [CHR 0xC3, CHR 0xA4])) [] [] \<noteq> None"
  using team_text_limit_counts_bytes [of 1501 "\<lambda>_. None" "''t''" "''C12345''" "[]" "[]"] by simp

end
