(* ===== verification/BoltStore.thy ===== *)
theory BoltStore
  imports MemoryStore
begin

section \<open>The bbolt store\<close>

text \<open>
  \<open>pkg/routing/store/bolt/bolt.go\<close>. The database is a third-party library: the record
  \<open>bolt_db\<close> holds the operations the store calls, over an abstract database state, and
  \<open>bolt_laws\<close> what bbolt documents of them: a bucket is a map, \<open>ForEach\<close> visits its
  pairs, a write transaction commits as a whole or leaves the database as it was. Its failures
  (a key it refuses, a commit the disk refuses, a closed database) are answers of the record.

  \<open>json.Marshal\<close> and \<open>json.Unmarshal\<close> of a row are the record \<open>codec\<close>, and
  \<open>codec_laws\<close> the round trip of \<open>encoding/json\<close> on the struct's tags, which brings a row
  back as \<open>json_norm\<close> of it (for text that is UTF-8 and times JSON can write). Bytes another
  program wrote may not decode.
\<close>

subsection \<open>The codec\<close>

record 'b codec =
  enc_entry :: "entry \<Rightarrow> 'b"
  dec_entry :: "'b \<Rightarrow> entry option"
  enc_review :: "review \<Rightarrow> 'b"
  dec_review :: "'b \<Rightarrow> review option"

definition codec_laws :: "'b codec \<Rightarrow> bool" where
  "codec_laws C \<longleftrightarrow>
     (\<forall>e. dec_entry C (enc_entry C e) = Some (json_norm e)) \<and>
     (\<forall>r. dec_review C (enc_review C r) = Some r)"

text \<open>A codec that keeps the decoded value.\<close>

datatype stored = StoredEntry entry | StoredReview review | Garbage string

definition plain_codec :: "stored codec" where
  "plain_codec =
     \<lparr>enc_entry = (\<lambda>e. StoredEntry (json_norm e)),
      dec_entry = (\<lambda>b. case b of StoredEntry e \<Rightarrow> Some e | _ \<Rightarrow> None),
      enc_review = StoredReview,
      dec_review = (\<lambda>b. case b of StoredReview r \<Rightarrow> Some r | _ \<Rightarrow> None)\<rparr>"

lemma plain_codec_laws: "codec_laws plain_codec"
  by (simp add: codec_laws_def plain_codec_def)

subsection \<open>The database\<close>

record ('d, 'b) bolt_db =
  bd_get :: "string \<Rightarrow> string \<Rightarrow> 'd \<Rightarrow> 'b option"
  bd_each :: "string \<Rightarrow> 'd \<Rightarrow> (string \<times> 'b) list"
  bd_put :: "string \<Rightarrow> string \<Rightarrow> 'b \<Rightarrow> 'd \<Rightarrow> 'd reply"
  bd_delete :: "string \<Rightarrow> string \<Rightarrow> 'd \<Rightarrow> 'd reply"
  bd_view :: "'d \<Rightarrow> store_error option"
  bd_commit :: "'d \<Rightarrow> 'd \<Rightarrow> store_error option \<times> 'd"

definition bolt_laws :: "('d, 'b) bolt_db \<Rightarrow> bool" where
  "bolt_laws db \<longleftrightarrow>
     (\<forall>b k v d d'. bd_put db b k v d = Inr d' \<longrightarrow>
        (\<forall>b' k'. bd_get db b' k' d' = (if b' = b \<and> k' = k then Some v else bd_get db b' k' d))) \<and>
     (\<forall>b k d d'. bd_delete db b k d = Inr d' \<longrightarrow>
        (\<forall>b' k'. bd_get db b' k' d' = (if b' = b \<and> k' = k then None else bd_get db b' k' d))) \<and>
     (\<forall>b d. set (bd_each db b d) = {(k, v). bd_get db b k d = Some v}) \<and>
     (\<forall>d d1 err d2. bd_commit db d d1 = (err, d2) \<longrightarrow>
        (\<forall>b k. bd_get db b k d2 = bd_get db b k (if err = None then d1 else d)))"

definition routes_bucket :: string where "routes_bucket = ''routes''"
definition reviews_bucket :: string where "reviews_bucket = ''reviews''"

lemma buckets_distinct [simp]:
  "routes_bucket \<noteq> reviews_bucket" "reviews_bucket \<noteq> routes_bucket"
  by (simp_all add: routes_bucket_def reviews_bucket_def)

text \<open>\<open>db.Update\<close>: the transaction's result, committed; an error rolls back.\<close>

definition bolt_tx ::
  "('d, 'b) bolt_db \<Rightarrow> ('d \<Rightarrow> 'a \<times> 'd reply) \<Rightarrow> 'd \<Rightarrow> 'a \<times> store_error option \<times> 'd" where
  "bolt_tx db tx d =
     (case tx d of
        (x, Inl err) \<Rightarrow> (x, Some err, d)
      | (x, Inr d') \<Rightarrow> (let (err, d'') = bd_commit db d d' in (x, err, d'')))"

subsection \<open>The operations\<close>

definition bolt_get ::
  "('d, 'b) bolt_db \<Rightarrow> 'b codec \<Rightarrow> gotime \<Rightarrow> key \<Rightarrow> 'd \<Rightarrow> entry option reply" where
  "bolt_get db C now k d =
     (case bd_view db d of
        Some err \<Rightarrow> Inl err
      | None \<Rightarrow>
          (case bd_get db routes_bucket (key_string k) d of
             None \<Rightarrow> Inr None
           | Some v \<Rightarrow>
               (case dec_entry C v of
                  None \<Rightarrow> Inl ''json''
                | Some e \<Rightarrow> if entry_expired e now then Inr None else Inr (Some e))))"

definition bolt_update ::
  "('d, 'b) bolt_db \<Rightarrow> 'b codec \<Rightarrow> gotime \<Rightarrow> key \<Rightarrow> mutate \<Rightarrow> 'd \<Rightarrow> 'd updated" where
  "bolt_update db C now k mutate =
     bolt_tx db (\<lambda>d.
       case (case bd_get db routes_bucket (key_string k) d of
               None \<Rightarrow> Inr (zero_entry, False)
             | Some v \<Rightarrow>
                 (case dec_entry C v of
                    None \<Rightarrow> Inl ''json''
                  | Some e \<Rightarrow> if entry_expired e now then Inr (zero_entry, False) else Inr (e, True))) of
         Inl err \<Rightarrow> (None, Inl err)
       | Inr (e, found) \<Rightarrow>
           (Some (e, found),
            (case mutate e found of
               None \<Rightarrow> Inr d
             | Some e' \<Rightarrow> bd_put db routes_bucket (key_string k) (enc_entry C e') d)))"

fun bolt_list_rows ::
  "'b codec \<Rightarrow> gotime \<Rightarrow> (string \<times> 'b) list \<Rightarrow> (key \<times> entry) list reply" where
  "bolt_list_rows C now [] = Inr []"
| "bolt_list_rows C now ((ks, v) # rows) =
     (case dec_entry C v of
        None \<Rightarrow> Inl ''json''
      | Some e \<Rightarrow>
          (case bolt_list_rows C now rows of
             Inl err \<Rightarrow> Inl err
           | Inr xs \<Rightarrow>
               if entry_expired e now then Inr xs
               else (case parse_key ks of None \<Rightarrow> Inr xs | Some k \<Rightarrow> Inr ((k, e) # xs))))"

definition bolt_list ::
  "('d, 'b) bolt_db \<Rightarrow> 'b codec \<Rightarrow> gotime \<Rightarrow> 'd \<Rightarrow> (key \<times> entry) list reply" where
  "bolt_list db C now d =
     (case bd_view db d of
        Some err \<Rightarrow> Inl err
      | None \<Rightarrow> bolt_list_rows C now (bd_each db routes_bucket d))"

definition bolt_put_review ::
  "('d, 'b) bolt_db \<Rightarrow> 'b codec \<Rightarrow> gotime \<Rightarrow> review \<Rightarrow> 'd \<Rightarrow> store_error option \<times> 'd" where
  "bolt_put_review db C now r d =
     snd (bolt_tx db (\<lambda>d. ((),
       if review_expired r now then bd_delete db reviews_bucket (r_id r) d
       else bd_put db reviews_bucket (r_id r) (enc_review C r) d)) d)"

definition bolt_get_review ::
  "('d, 'b) bolt_db \<Rightarrow> 'b codec \<Rightarrow> gotime \<Rightarrow> string \<Rightarrow> 'd \<Rightarrow> review option reply" where
  "bolt_get_review db C now i d =
     (case bd_view db d of
        Some err \<Rightarrow> Inl err
      | None \<Rightarrow>
          (case bd_get db reviews_bucket i d of
             None \<Rightarrow> Inr None
           | Some v \<Rightarrow>
               (case dec_review C v of
                  None \<Rightarrow> Inl ''json''
                | Some r \<Rightarrow> if review_expired r now then Inr None else Inr (Some r))))"

definition bolt_update_review ::
  "('d, 'b) bolt_db \<Rightarrow> 'b codec \<Rightarrow> gotime \<Rightarrow> string \<Rightarrow> (review \<Rightarrow> review option) \<Rightarrow> 'd \<Rightarrow>
   (bool \<times> review option \<times> store_error option) \<times> 'd" where
  "bolt_update_review db C now i mutate d =
     (let (seen, err, d') =
        bolt_tx db (\<lambda>d.
          case bd_get db reviews_bucket i d of
            None \<Rightarrow> (None, Inr d)
          | Some v \<Rightarrow>
              (case dec_review C v of
                 None \<Rightarrow> (None, Inl ''json'')
               | Some r \<Rightarrow>
                   if review_expired r now then (None, Inr d)
                   else
                     (Some r,
                      case mutate r of
                        None \<Rightarrow> Inr d
                      | Some r' \<Rightarrow> bd_put db reviews_bucket i (enc_review C r') d))) d
      in ((seen \<noteq> None, seen, err), d'))"

text \<open>
  One eviction pass over a bucket: the stale keys are collected in a read transaction and deleted
  in a write transaction after it; \<open>meanwhile\<close> is what was committed in between.
\<close>

fun stale_keys :: "('b \<Rightarrow> bool option) \<Rightarrow> (string \<times> 'b) list \<Rightarrow> string list reply" where
  "stale_keys expired [] = Inr []"
| "stale_keys expired ((k, v) # rows) =
     (case expired v of
        None \<Rightarrow> Inl ''json''
      | Some stale \<Rightarrow>
          (case stale_keys expired rows of
             Inl err \<Rightarrow> Inl err
           | Inr ks \<Rightarrow> Inr (if stale then k # ks else ks)))"

fun delete_keys :: "('d, 'b) bolt_db \<Rightarrow> string \<Rightarrow> string list \<Rightarrow> 'd \<Rightarrow> 'd reply" where
  "delete_keys db bucket [] d = Inr d"
| "delete_keys db bucket (k # ks) d =
     (case bd_delete db bucket k d of Inl err \<Rightarrow> Inl err | Inr d' \<Rightarrow> delete_keys db bucket ks d')"

definition bolt_evict_bucket ::
  "('d, 'b) bolt_db \<Rightarrow> string \<Rightarrow> ('b \<Rightarrow> bool option) \<Rightarrow> ('d \<Rightarrow> 'd) \<Rightarrow> 'd \<Rightarrow>
   store_error option \<times> 'd" where
  "bolt_evict_bucket db bucket expired meanwhile d =
     (case bd_view db d of
        Some err \<Rightarrow> (Some err, meanwhile d)
      | None \<Rightarrow>
          (case stale_keys expired (bd_each db bucket d) of
             Inl err \<Rightarrow> (Some err, meanwhile d)
           | Inr [] \<Rightarrow> (None, meanwhile d)
           | Inr ks \<Rightarrow> snd (bolt_tx db (\<lambda>d. ((), delete_keys db bucket ks d)) (meanwhile d))))"

definition bolt_evict ::
  "('d, 'b) bolt_db \<Rightarrow> 'b codec \<Rightarrow> gotime \<Rightarrow> ('d \<Rightarrow> 'd) \<Rightarrow> ('d \<Rightarrow> 'd) \<Rightarrow> 'd \<Rightarrow>
   store_error option \<times> 'd" where
  "bolt_evict db C now meanwhile meanwhile' d =
     (case bolt_evict_bucket db routes_bucket
             (\<lambda>v. map_option (\<lambda>e. entry_expired e now) (dec_entry C v)) meanwhile d of
        (Some err, d') \<Rightarrow> (Some err, d')
      | (None, d') \<Rightarrow>
          bolt_evict_bucket db reviews_bucket
            (\<lambda>v. map_option (\<lambda>r. review_expired r now) (dec_review C v)) meanwhile' d')"

definition bolt_routes :: "('d, 'b) bolt_db \<Rightarrow> 'b codec \<Rightarrow> 'd routes" where
  "bolt_routes db C =
     \<lparr>rt_get = bolt_get db C, rt_list = bolt_list db C, rt_update = bolt_update db C\<rparr>"

definition bolt_reviews :: "('d, 'b) bolt_db \<Rightarrow> 'b codec \<Rightarrow> 'd reviews" where
  "bolt_reviews db C =
     \<lparr>rv_get = bolt_get_review db C, rv_put = bolt_put_review db C,
      rv_update = bolt_update_review db C\<rparr>"

subsection \<open>What readers see\<close>

definition decoded :: "('b \<Rightarrow> 'a option) \<Rightarrow> ('a \<Rightarrow> gotime \<Rightarrow> bool) \<Rightarrow> gotime \<Rightarrow> 'b option \<Rightarrow> 'a option" where
  "decoded dec expired now v =
     (case v of
        None \<Rightarrow> None
      | Some b \<Rightarrow>
          (case dec b of None \<Rightarrow> None | Some x \<Rightarrow> if expired x now then None else Some x))"

definition bolt_live :: "('d, 'b) bolt_db \<Rightarrow> 'b codec \<Rightarrow> gotime \<Rightarrow> 'd \<Rightarrow> key \<Rightarrow> entry option" where
  "bolt_live db C now d k =
     decoded (dec_entry C) entry_expired now (bd_get db routes_bucket (key_string k) d)"

definition bolt_live_review ::
  "('d, 'b) bolt_db \<Rightarrow> 'b codec \<Rightarrow> gotime \<Rightarrow> 'd \<Rightarrow> string \<Rightarrow> review option" where
  "bolt_live_review db C now d i =
     decoded (dec_review C) review_expired now (bd_get db reviews_bucket i d)"

text \<open>
  A key of the routes bucket that parses is the serialised form of a key; one of an older layout
  does not parse.
\<close>

definition bolt_inv :: "('d, 'b) bolt_db \<Rightarrow> 'd \<Rightarrow> bool" where
  "bolt_inv db d \<longleftrightarrow>
     (\<forall>ks. bd_get db routes_bucket ks d \<noteq> None \<longrightarrow> parse_key ks = None \<or> (\<exists>k. ks = key_string k))"

lemma decoded_Some:
  "decoded dec expired now v = Some x \<longleftrightarrow> (\<exists>b. v = Some b \<and> dec b = Some x \<and> \<not> expired x now)"
  by (auto simp: decoded_def split: option.splits)


subsection \<open>The contract\<close>

locale bolt_backend =
  fixes db :: "('d, 'b) bolt_db" and C :: "'b codec"
  assumes db_laws: "bolt_laws db" and c_laws: "codec_laws C"
begin

lemma dec_enc [simp]:
  "dec_entry C (enc_entry C e) = Some (json_norm e)" "dec_review C (enc_review C r) = Some r"
  using c_laws by (simp_all add: codec_laws_def)

lemma get_put:
  "bd_put db b k v d = Inr d' \<Longrightarrow>
   bd_get db b' k' d' = (if b' = b \<and> k' = k then Some v else bd_get db b' k' d)"
  using db_laws unfolding bolt_laws_def by (elim conjE) metis

lemma get_delete:
  "bd_delete db b k d = Inr d' \<Longrightarrow>
   bd_get db b' k' d' = (if b' = b \<and> k' = k then None else bd_get db b' k' d)"
  using db_laws unfolding bolt_laws_def by (elim conjE) metis

lemma each_set: "set (bd_each db b d) = {(k, v). bd_get db b k d = Some v}"
  using db_laws unfolding bolt_laws_def by (elim conjE) metis

lemma get_commit:
  "bd_commit db d d1 = (err, d2) \<Longrightarrow>
   bd_get db b k d2 = bd_get db b k (if err = None then d1 else d)"
  using db_laws unfolding bolt_laws_def by (elim conjE) metis

text \<open>A transaction leaves the database as its body made it, or as it was.\<close>

lemma tx_get:
  assumes "bolt_tx db tx d = (x, err, d')"
  shows "case err of
      None \<Rightarrow> \<exists>d1. tx d = (x, Inr d1) \<and> (\<forall>b k. bd_get db b k d' = bd_get db b k d1)
    | Some _ \<Rightarrow> \<forall>b k. bd_get db b k d' = bd_get db b k d"
  using assms get_commit
  by (auto simp: bolt_tx_def split: prod.splits sum.splits option.splits)

lemma live_cong:
  assumes "\<And>b k. bd_get db b k d' = bd_get db b k d"
  shows "bolt_live db C t d' = bolt_live db C t d"
    and "bolt_live_review db C t d' = bolt_live_review db C t d" and "bolt_inv db d' = bolt_inv db d"
  using assms by (auto simp: bolt_live_def bolt_live_review_def bolt_inv_def fun_eq_iff)

lemma update_cases:
  assumes "bolt_update db C now k f d = (seen, err, d')"
  obtains (failed) e where "err = Some e" "\<And>b x. bd_get db b x d' = bd_get db b x d"
    | (skipped) "err = None" "seen = Some (shown (bolt_live db C now d k))"
        "case_prod f (shown (bolt_live db C now d k)) = None"
        "\<And>b x. bd_get db b x d' = bd_get db b x d"
    | (written) e where "err = None" "seen = Some (shown (bolt_live db C now d k))"
        "case_prod f (shown (bolt_live db C now d k)) = Some e"
        "\<And>b x. bd_get db b x d' = (if b = routes_bucket \<and> x = key_string k
           then Some (enc_entry C e) else bd_get db b x d)"
proof (cases err)
  case (Some e)
  with tx_get [OF assms [unfolded bolt_update_def]] failed show ?thesis by auto
next
  case None
  let ?row = "bd_get db routes_bucket (key_string k) d"
  have sh: "(case ?row of None \<Rightarrow> Inr (zero_entry, False)
      | Some v \<Rightarrow> (case dec_entry C v of None \<Rightarrow> Inl ''json''
          | Some e \<Rightarrow> if entry_expired e now then Inr (zero_entry, False) else Inr (e, True))) =
      (if \<exists>v. ?row = Some v \<and> dec_entry C v = None then Inl ''json''
       else Inr (shown (bolt_live db C now d k)))"
    by (auto simp: bolt_live_def decoded_def split: option.splits)
  obtain e found where e: "shown (bolt_live db C now d k) = (e, found)" by fastforce
  from tx_get [OF assms [unfolded bolt_update_def]] None obtain d1 where
    d1: "(case (if \<exists>v. ?row = Some v \<and> dec_entry C v = None then Inl ''json'' else Inr (e, found)) of
         Inl err \<Rightarrow> (None, Inl err)
       | Inr (e, found) \<Rightarrow>
           (Some (e, found),
            (case f e found of
               None \<Rightarrow> Inr d
             | Some e' \<Rightarrow> bd_put db routes_bucket (key_string k) (enc_entry C e') d))) = (seen, Inr d1)"
      "\<And>b x. bd_get db b x d' = bd_get db b x d1"
    unfolding sh e by auto
  show ?thesis
  proof (cases "f e found")
    case None
    with d1 \<open>err = None\<close> e show ?thesis by (intro skipped) (auto split: if_splits)
  next
    case (Some e')
    with d1(1) have "bd_put db routes_bucket (key_string k) (enc_entry C e') d = Inr d1"
      and "seen = Some (e, found)" by (auto split: if_splits)
    with d1(2) get_put Some \<open>err = None\<close> e show ?thesis by (intro written [of e']) auto
  qed
qed

lemma list_rows:
  "bolt_list_rows C now rows = Inr xs \<Longrightarrow>
   (k, e) \<in> set xs \<longleftrightarrow> (\<exists>(ks, v)\<in>set rows. dec_entry C v = Some e \<and>
     \<not> entry_expired e now \<and> parse_key ks = Some k)"
proof (induction rows arbitrary: xs)
  case (Cons r rows)
  obtain ks v where r: "r = (ks, v)" by fastforce
  from Cons.prems r obtain e1 xs1 where "dec_entry C v = Some e1" "bolt_list_rows C now rows = Inr xs1"
    by (auto split: option.splits sum.splits)
  with Cons.IH [of xs1] Cons.prems r show ?case
    by (cases "entry_expired e1 now"; cases "parse_key ks") auto
qed simp

lemma list_live_rows:
  assumes "bolt_inv db d" and "bolt_list db C now d = Inr xs"
  shows "set xs = {(listed_key k, e) | k e. bolt_live db C now d k = Some e}"
proof -
  from assms(2) have "bolt_list_rows C now (bd_each db routes_bucket d) = Inr xs"
    by (auto simp: bolt_list_def split: option.splits)
  note xs = list_rows [OF this, unfolded each_set]
  show ?thesis
  proof (intro set_eqI iffI)
    fix x assume mem: "x \<in> set xs"
    obtain k1 e1 where x1: "x = (k1, e1)" by fastforce
    from mem obtain ks v k e where x: "x = (k, e)" "bd_get db routes_bucket ks d = Some v"
      "dec_entry C v = Some e" "\<not> entry_expired e now" "parse_key ks = Some k"
      unfolding x1 xs by auto
    with assms(1) obtain k0 where "ks = key_string k0" unfolding bolt_inv_def
      by (metis option.distinct(1))
    with x have "bolt_live db C now d k0 = Some e" "k = listed_key k0"
      by (simp_all add: bolt_live_def decoded_Some parse_key_listed)
    with x(1) show "x \<in> {(listed_key k, e) | k e. bolt_live db C now d k = Some e}" by blast
  next
    fix x assume "x \<in> {(listed_key k, e) | k e. bolt_live db C now d k = Some e}"
    then obtain k e v where "x = (listed_key k, e)" "bd_get db routes_bucket (key_string k) d = Some v"
      "dec_entry C v = Some e" "\<not> entry_expired e now"
      by (auto simp: bolt_live_def decoded_Some)
    with parse_key_listed [of k] show "x \<in> set xs" by (auto simp: xs)
  qed
qed

end

sublocale bolt_backend \<subseteq> routes: thread_store "bolt_routes db C" "bolt_inv db" "bolt_live db C" json_norm 0
proof (unfold_locales, goal_cases)
  case 1 show ?case by simp
next
  case 2 show ?case by simp
next
  case (3 s now k e) then show ?case by (auto simp: bolt_live_def decoded_Some)
next
  case (4 s now k r) then show ?case
    by (auto simp: bolt_routes_def bolt_get_def bolt_live_def decoded_def split: option.splits if_splits)
next
  case (5 s now xs) then show ?case by (simp add: bolt_routes_def list_live_rows)
next
  case (6 s now k f seen err s')
  then have u: "bolt_update db C now k f s = (seen, err, s')" by (simp add: bolt_routes_def)
  show ?case using update_cases [OF u] 6(1) by (cases rule: update_cases [OF u]) (auto simp: bolt_inv_def)
next
  case (7 s now k f seen err s' k' t)
  then have u: "bolt_update db C now k f s = (seen, err, s')" by (simp add: bolt_routes_def)
  from u show ?case
    by (cases rule: update_cases) (auto simp: bolt_live_def key_string_inj 7(3))
next
  case (8 s now k f seen s')
  then have u: "bolt_update db C now k f s = (seen, None, s')" by (simp add: bolt_routes_def)
  from u show ?case by (cases rule: update_cases) auto
next
  case (9 s now k f seen s' t)
  then have u: "bolt_update db C now k f s = (seen, None, s')" by (simp add: bolt_routes_def)
  from u 9(3) show ?case by (cases rule: update_cases) (auto simp: bolt_live_def)
next
  case (10 s now k f seen s' e t)
  then have u: "bolt_update db C now k f s = (seen, None, s')" by (simp add: bolt_routes_def)
  from u 10(3,6) show ?case by (cases rule: update_cases) (auto simp: bolt_live_def decoded_def)
next
  case (11 s now k f seen s' e t)
  then have u: "bolt_update db C now k f s = (seen, None, s')" by (simp add: bolt_routes_def)
  from u 11(3,5) show ?case by (cases rule: update_cases) (auto simp: bolt_live_def decoded_def)
qed


context bolt_backend begin

lemma update_review_cases:
  assumes "bolt_update_review db C now i f d = ((found, seen, err), d')"
  obtains (failed) e where "err = Some e" "\<And>b x. bd_get db b x d' = bd_get db b x d"
    | (absent) "err = None" "\<not> found" "bolt_live_review db C now d i = None"
        "\<And>b x. bd_get db b x d' = bd_get db b x d"
    | (skipped) r where "err = None" "found" "seen = Some r"
        "bolt_live_review db C now d i = Some r" "f r = None"
        "\<And>b x. bd_get db b x d' = bd_get db b x d"
    | (written) r r' where "err = None" "found" "seen = Some r"
        "bolt_live_review db C now d i = Some r" "f r = Some r'"
        "\<And>b x. bd_get db b x d' = (if b = reviews_bucket \<and> x = i
           then Some (enc_review C r') else bd_get db b x d)"
proof -
  let ?tx = "\<lambda>d. case bd_get db reviews_bucket i d of
            None \<Rightarrow> (None, Inr d)
          | Some v \<Rightarrow>
              (case dec_review C v of
                 None \<Rightarrow> (None, Inl ''json'')
               | Some r \<Rightarrow>
                   if review_expired r now then (None, Inr d)
                   else
                     (Some r,
                      case f r of
                        None \<Rightarrow> Inr d
                      | Some r' \<Rightarrow> bd_put db reviews_bucket i (enc_review C r') d))"
  from assms have tx: "bolt_tx db ?tx d = (seen, err, d')" and found: "found = (seen \<noteq> None)"
    by (auto simp: bolt_update_review_def Let_def split: prod.splits)
  show ?thesis
  proof (cases err)
    case (Some e)
    with tx_get [OF tx] failed show ?thesis by auto
  next
    case None
    with tx_get [OF tx] obtain d1 where d1: "?tx d = (seen, Inr d1)"
      "\<And>b x. bd_get db b x d' = bd_get db b x d1" by auto
    show ?thesis
    proof (cases "bolt_live_review db C now d i")
      case no: None
      with d1(1) have "seen = None" "d1 = d"
        by (auto simp: bolt_live_review_def decoded_def split: option.splits if_splits)
      with no None found d1(2) show ?thesis by (intro absent) auto
    next
      case (Some r)
      then obtain v where v: "bd_get db reviews_bucket i d = Some v" "dec_review C v = Some r"
        "\<not> review_expired r now" by (auto simp: bolt_live_review_def decoded_Some)
      show ?thesis
      proof (cases "f r")
        case skip: None
        with v d1 have "seen = Some r" "d1 = d" by auto
        with skip Some None found d1(2) show ?thesis by (intro skipped [of r]) auto
      next
        case put: (Some r')
        with v d1 have "seen = Some r" "bd_put db reviews_bucket i (enc_review C r') d = Inr d1"
          by auto
        with put Some None found d1(2) get_put show ?thesis by (intro written [of r r']) auto
      qed
    qed
  qed
qed

lemma put_review_cases:
  assumes "bolt_put_review db C now r d = (err, d')"
  shows "bd_get db b x d' =
    (if err = None \<and> b = reviews_bucket \<and> x = r_id r
     then (if review_expired r now then None else Some (enc_review C r)) else bd_get db b x d)"
proof -
  let ?tx = "\<lambda>d. ((), if review_expired r now then bd_delete db reviews_bucket (r_id r) d
       else bd_put db reviews_bucket (r_id r) (enc_review C r) d)"
  from assms have tx: "bolt_tx db ?tx d = ((), err, d')"
    by (cases "bolt_tx db ?tx d") (simp add: bolt_put_review_def)
  from tx_get [OF tx] show ?thesis
    by (cases err) (auto simp: get_put get_delete split: if_splits)
qed

end

sublocale bolt_backend \<subseteq>
  revs: review_store "bolt_reviews db C" "bolt_inv db" "bolt_live_review db C" "\<lambda>r. r" 0
proof (unfold_locales, goal_cases)
  case (1 s now i x) then show ?case
    by (auto simp: bolt_reviews_def bolt_get_review_def bolt_live_review_def decoded_def
        split: option.splits if_splits)
next
  case (2 s now i r) then show ?case by (auto simp: bolt_live_review_def decoded_Some)
next
  case (3 s now r err s')
  then have "bolt_put_review db C now r s = (err, s')" by (simp add: bolt_reviews_def)
  from put_review_cases [OF this] 3(1) show ?case by (auto simp: bolt_inv_def)
next
  case (4 s now r s' t)
  then have "bolt_put_review db C now r s = (None, s')" by (simp add: bolt_reviews_def)
  from put_review_cases [OF this] 4(3) show ?case
    by (auto simp: bolt_live_review_def decoded_def review_kept_def dest: review_expired_mono)
next
  case (5 s now r err s' i t)
  then have "bolt_put_review db C now r s = (err, s')" by (simp add: bolt_reviews_def)
  from put_review_cases [OF this] 5(3) show ?case by (auto simp: bolt_live_review_def)
next
  case (6 s now i f found seen err s')
  then have "bolt_update_review db C now i f s = ((found, seen, err), s')"
    by (simp add: bolt_reviews_def)
  then show ?case using 6(1) by (cases rule: update_review_cases) (auto simp: bolt_inv_def)
next
  case (7 s now i f found seen err s' j t)
  then have "bolt_update_review db C now i f s = ((found, seen, err), s')"
    by (simp add: bolt_reviews_def)
  then show ?case using 7(3) by (cases rule: update_review_cases) (auto simp: bolt_live_review_def)
next
  case (8 s now i f seen s')
  then have "bolt_update_review db C now i f s = ((False, seen, None), s')"
    by (simp add: bolt_reviews_def)
  then show ?case by (cases rule: update_review_cases) (auto simp: bolt_live_review_def)
next
  case (9 s now i f seen s')
  then have "bolt_update_review db C now i f s = ((True, seen, None), s')"
    by (simp add: bolt_reviews_def)
  then show ?case by (cases rule: update_review_cases) auto
next
  case (10 s now i f r s' t)
  then have "bolt_update_review db C now i f s = ((True, Some r, None), s')"
    by (simp add: bolt_reviews_def)
  then show ?case using 10(3)
    by (cases rule: update_review_cases) (auto simp: bolt_live_review_def)
next
  case (11 s now i f r s' r' t)
  then have "bolt_update_review db C now i f s = ((True, Some r, None), s')"
    by (simp add: bolt_reviews_def)
  then show ?case using 11(3)
    by (cases rule: update_review_cases)
      (auto simp: bolt_live_review_def decoded_def review_kept_def)
qed

subsection \<open>Eviction\<close>

context bolt_backend begin

lemma stale_keys_set:
  "stale_keys expired rows = Inr ks \<Longrightarrow>
   set ks = {k. \<exists>v. (k, v) \<in> set rows \<and> expired v = Some True}"
proof (induction rows arbitrary: ks)
  case (Cons r rows)
  obtain k v where r: "r = (k, v)" by fastforce
  from Cons.prems r obtain st ks1 where "expired v = Some st" "stale_keys expired rows = Inr ks1"
    by (auto split: option.splits sum.splits)
  with Cons.IH [of ks1] Cons.prems r show ?case by (cases st) auto
qed simp

lemma delete_keys_get:
  "delete_keys db b ks d = Inr d' \<Longrightarrow>
   bd_get db b' x d' = (if b' = b \<and> x \<in> set ks then None else bd_get db b' x d)"
proof (induction ks arbitrary: d)
  case (Cons k ks)
  then obtain d1 where "bd_delete db b k d = Inr d1" "delete_keys db b ks d1 = Inr d'"
    by (auto split: sum.splits)
  with Cons.IH [of d1] get_delete [of b k d d1] show ?case by auto
qed simp

text \<open>
  What a pass over a bucket deletes: keys that were stale when it looked. A row written in
  between goes with them.
\<close>

lemma evict_bucket_get:
  assumes "bolt_evict_bucket db b expired mid d = (err, d')"
  shows "bd_get db b' x d' = bd_get db b' x (mid d) \<or>
    bd_get db b' x d' = None \<and> b' = b \<and> (\<exists>v. bd_get db b x d = Some v \<and> expired v = Some True)"
proof (cases "stale_keys expired (bd_each db b d)")
  case (Inl e)
  with assms show ?thesis by (auto simp: bolt_evict_bucket_def split: option.splits)
next
  case (Inr ks)
  note stale = stale_keys_set [OF Inr, unfolded each_set]
  show ?thesis
  proof (cases "bd_view db d = None \<and> ks \<noteq> []")
    case False
    with assms Inr show ?thesis
      by (auto simp: bolt_evict_bucket_def split: option.splits list.splits)
  next
    case True
    with assms Inr have tx: "bolt_tx db (\<lambda>d. ((), delete_keys db b ks d)) (mid d) = ((), err, d')"
      by (cases ks; cases "bolt_tx db (\<lambda>d. ((), delete_keys db b ks d)) (mid d)")
        (auto simp: bolt_evict_bucket_def)
    show ?thesis
    proof (cases err)
      case (Some e)
      with tx_get [OF tx] show ?thesis by simp
    next
      case None
      with tx_get [OF tx] obtain d1 where "delete_keys db b ks (mid d) = Inr d1"
        "\<And>b x. bd_get db b x d' = bd_get db b x d1" by auto
      with delete_keys_get [of b ks "mid d" d1 b' x] stale show ?thesis by auto
    qed
  qed
qed

lemma evict_live:
  assumes "bolt_evict db C now (\<lambda>d. d) (\<lambda>d. d) d = (err, d')" and "now \<le> t"
  shows "bolt_live db C t d' k = bolt_live db C t d k"
    and "bolt_live_review db C t d' i = bolt_live_review db C t d i"
proof -
  let ?e = "\<lambda>v. map_option (\<lambda>e. entry_expired e now) (dec_entry C v)"
  let ?r = "\<lambda>v. map_option (\<lambda>r. review_expired r now) (dec_review C v)"
  obtain err1 d1 where e1: "bolt_evict_bucket db routes_bucket ?e (\<lambda>d. d) d = (err1, d1)" by fastforce
  have keep1: "bd_get db b x d1 = bd_get db b x d \<or> bd_get db b x d1 = None \<and> b = routes_bucket \<and>
      (\<exists>v e. bd_get db b x d = Some v \<and> dec_entry C v = Some e \<and> entry_expired e now)" for b x
    using evict_bucket_get [OF e1, of b x] by auto
  have keep2: "bd_get db b x d' = bd_get db b x d1 \<or> bd_get db b x d' = None \<and> b = reviews_bucket \<and>
      (\<exists>v r. bd_get db b x d1 = Some v \<and> dec_review C v = Some r \<and> review_expired r now)" for b x
  proof (cases err1)
    case (Some e)
    with assms(1) e1 show ?thesis by (simp add: bolt_evict_def)
  next
    case None
    with assms(1) e1 have "bolt_evict_bucket db reviews_bucket ?r (\<lambda>d. d) d1 = (err, d')"
      by (simp add: bolt_evict_def)
    from evict_bucket_get [OF this, of b x] show ?thesis by auto
  qed
  show "bolt_live db C t d' k = bolt_live db C t d k"
    using keep1 [of routes_bucket "key_string k"] keep2 [of routes_bucket "key_string k"] assms(2)
    by (auto simp: bolt_live_def decoded_def dest: entry_expired_mono)
  show "bolt_live_review db C t d' i = bolt_live_review db C t d i"
    using keep1 [of reviews_bucket i] keep2 [of reviews_bucket i] assms(2)
    by (auto simp: bolt_live_review_def decoded_def dest: review_expired_mono)
qed

end

subsection \<open>A database of pairs\<close>

definition list_db :: "(((string \<times> string) \<times> 'b) list, 'b) bolt_db" where
  "list_db =
     \<lparr>bd_get = (\<lambda>b k d. map_of d (b, k)),
      bd_each = (\<lambda>b d. map (\<lambda>k. (k, the (map_of d (b, k))))
        (remdups (map (snd \<circ> fst) (filter (\<lambda>x. fst (fst x) = b) d)))),
      bd_put = (\<lambda>b k v d. Inr (AList.update (b, k) v d)),
      bd_delete = (\<lambda>b k d. Inr (AList.delete (b, k) d)),
      bd_view = (\<lambda>_. None),
      bd_commit = (\<lambda>_ d. (None, d))\<rparr>"

lemma list_db_laws: "bolt_laws list_db"
proof -
  have each: "set (map (\<lambda>k. (k, the (map_of d (b, k))))
      (remdups (map (snd \<circ> fst) (filter (\<lambda>x. fst (fst x) = b) d)))) =
      {(k, v). map_of d (b, k) = Some v}" for b and d :: "((string \<times> string) \<times> 'b) list"
  proof -
    have "k \<in> (snd \<circ> fst) ` set (filter (\<lambda>x. fst (fst x) = b) d) \<longleftrightarrow> map_of d (b, k) \<noteq> None" for k
      by (force simp: map_of_eq_None_iff image_iff)
    then show ?thesis by auto (metis option.sel weak_map_of_SomeI)
  qed
  show ?thesis
    unfolding bolt_laws_def list_db_def bolt_db.select_convs each by auto
qed

interpretation bolt_pairs: bolt_backend list_db plain_codec
  by unfold_locales (rule list_db_laws plain_codec_laws)+


subsection \<open>Reads after writes and after evictions\<close>

text \<open>A row last seen at \<open>seen\<close> that lives ten nanoseconds.\<close>

definition stale_row :: "gotime \<Rightarrow> entry" where
  "stale_row seen = zero_entry\<lparr>e_agent_ref := ''a'', e_last_seen := seen, e_ttl := 10\<rparr>"

context bolt_backend begin

lemma get_eq_live: "bolt_get db C now k d = Inr r \<Longrightarrow> r = bolt_live db C now d k"
  by (auto simp: bolt_get_def bolt_live_def decoded_def split: option.splits if_splits)

lemma update_then_get:
  assumes "bolt_update db C now k f d = (seen, None, d')" and "bolt_get db C now k d = Inr row"
    and "bolt_get db C t k' d = Inr before" and "bolt_get db C t k' d' = Inr after"
  shows "seen = Some (shown row) \<and>
    after = (case case_prod f (shown row) of
        Some e \<Rightarrow> if k' = k then (if entry_expired e t then None else Some (json_norm e)) else before
      | None \<Rightarrow> before)"
  using assms(1)
proof (cases rule: update_cases)
  case (skipped)
  note eqs = assms(2-4) [THEN get_eq_live]
  from skipped(2,3) show ?thesis by (simp add: eqs live_cong(1) [OF skipped(4)])
next
  case (written e)
  have "bolt_live db C t d' k' = (if k' = k then (if entry_expired e t then None else Some (json_norm e))
      else bolt_live db C t d k')"
    by (simp add: bolt_live_def written(4) key_string_inj decoded_def)
  moreover note eqs = assms(2-4) [THEN get_eq_live]
  ultimately show ?thesis using written(2,3) by (simp add: eqs)
qed simp

lemma evict_bucket_drops:
  assumes "bolt_evict_bucket db b expired mid d = (None, d')"
    and "bd_get db b x d = Some v" and "expired v = Some True"
  shows "bd_get db b x d' = None"
proof -
  obtain ks where ks: "stale_keys expired (bd_each db b d) = Inr ks"
    using assms(1) by (auto simp: bolt_evict_bucket_def split: option.splits sum.splits)
  from stale_keys_set [OF ks] assms(2,3) have x: "x \<in> set ks" by (auto simp: each_set)
  then have "ks \<noteq> []" by auto
  with assms(1) ks have tx: "bolt_tx db (\<lambda>d. ((), delete_keys db b ks d)) (mid d) = ((), None, d')"
    by (auto simp: bolt_evict_bucket_def split: option.splits list.splits prod.splits)
      (metis old.unit.exhaust prod.collapse)
  from tx_get [OF tx] obtain d1 where
    "delete_keys db b ks (mid d) = Inr d1" "bd_get db b x d' = bd_get db b x d1" by auto
  with delete_keys_get [of b ks "mid d" d1 b x] x show ?thesis by simp
qed

lemma evict_drops_row:
  assumes "bolt_evict db C now mid (\<lambda>d. d) d = (None, d')"
    and "bd_get db routes_bucket (key_string k) d = Some v" and "dec_entry C v = Some e"
    and "entry_expired e now"
  shows "bolt_live db C t d' k = None"
proof -
  obtain d1 where d1: "bolt_evict_bucket db routes_bucket
      (\<lambda>v. map_option (\<lambda>e. entry_expired e now) (dec_entry C v)) mid d = (None, d1)"
    and d': "bolt_evict_bucket db reviews_bucket
      (\<lambda>v. map_option (\<lambda>r. review_expired r now) (dec_review C v)) (\<lambda>d. d) d1 = (None, d')"
    using assms(1) by (auto simp: bolt_evict_def split: prod.splits option.splits)
  from evict_bucket_drops [OF d1 assms(2)] assms(3,4)
  have "bd_get db routes_bucket (key_string k) d1 = None" by simp
  with evict_bucket_get [OF d', of routes_bucket "key_string k"]
  have "bd_get db routes_bucket (key_string k) d' = None" by simp
  then show ?thesis by (simp add: bolt_live_def decoded_def)
qed

end

subsection \<open>Properties\<close>

text \<open>C27: The bbolt \<open>Update\<close> is an atomic read-modify-write of one row, like the memory
  one: the callback sees what \<open>Get\<close> answers, the written row is what later reads get while
  it is fresh (with an empty \<open>Resume\<close> map read back as none, as JSON keeps it), and every
  other thread reads what it read before.\<close>

theorem bolt_update_then_get:
  assumes "bolt_laws db" and "codec_laws C"
    and "bolt_update db C now k f d = (seen, None, d')" and "bolt_get db C now k d = Inr row"
    and "bolt_get db C t k' d = Inr before" and "bolt_get db C t k' d' = Inr after"
  shows "seen = Some (shown row) \<and>
    after = (case case_prod f (shown row) of
        Some e \<Rightarrow> if k' = k then (if entry_expired e t then None else Some (json_norm e)) else before
      | None \<Rightarrow> before)"
  using assms by (intro bolt_backend.update_then_get bolt_backend.intro)

theorem bolt_update_then_get_witness:
  "snd (snd (bolt_update list_db plain_codec 5 thread_a (\<lambda>e found. Some (e\<lparr>e_instance := ''i''\<rparr>)) [])) =
     [((routes_bucket, key_string thread_a), StoredEntry (zero_entry\<lparr>e_instance := ''i''\<rparr>))] \<and>
   bolt_get list_db plain_codec 6 thread_a
     [((routes_bucket, key_string thread_a), StoredEntry (zero_entry\<lparr>e_instance := ''i''\<rparr>))] =
     Inr (Some (zero_entry\<lparr>e_instance := ''i''\<rparr>))"
proof -
  let ?e = "zero_entry\<lparr>e_instance := ''i''\<rparr>"
  let ?d = "[((routes_bucket, key_string thread_a), StoredEntry ?e)]"
  have n: "json_norm ?e = ?e" by (simp add: json_norm_def)
  have u: "bolt_update list_db plain_codec 5 thread_a (\<lambda>e found. Some (e\<lparr>e_instance := ''i''\<rparr>)) [] =
      (Some (zero_entry, False), None, ?d)"
    by (simp add: bolt_update_def bolt_tx_def list_db_def plain_codec_def n)
  have g: "bolt_get list_db plain_codec t thread_a [] = Inr None" for t
    by (simp add: bolt_get_def list_db_def)
  have "bolt_get list_db plain_codec 6 thread_a ?d = Inr (Some ?e)"
    by (simp add: bolt_get_def list_db_def plain_codec_def entry_expired_def)
  from bolt_update_then_get [OF list_db_laws plain_codec_laws u g g this]
  show ?thesis using u by (simp add: bolt_get_def list_db_def plain_codec_def entry_expired_def)
qed

text \<open>C29: The bbolt eviction pass deletes every row that was stale when it looked, whatever
  was committed between its read transaction and its write transaction: a message that refreshed
  or recreated the row in between loses it, and the thread reads as absent.\<close>

theorem bolt_eviction_loses_update:
  assumes "bolt_laws db" and "codec_laws C"
    and "bolt_evict db C now committed (\<lambda>d. d) d = (None, d')"
    and "bd_get db routes_bucket (key_string k) d = Some v" and "dec_entry C v = Some e"
    and "entry_expired e now" and "bolt_get db C t k d' = Inr row"
  shows "row = None"
  using bolt_backend.evict_drops_row [OF bolt_backend.intro, OF assms(1-6), of t]
    bolt_backend.get_eq_live [OF bolt_backend.intro, OF assms(1,2,7)] by simp

theorem bolt_eviction_loses_update_witness:
  "bolt_get list_db plain_codec 100 thread_a
     (snd (snd (bolt_update list_db plain_codec 100 thread_a (\<lambda>_ _. Some (stale_row 100))
       [((routes_bucket, key_string thread_a), StoredEntry (stale_row 1))]))) = Inr (Some (stale_row 100)) \<and>
   bolt_get list_db plain_codec 100 thread_a
     (snd (bolt_evict list_db plain_codec 100
       (\<lambda>d. snd (snd (bolt_update list_db plain_codec 100 thread_a (\<lambda>_ _. Some (stale_row 100)) d))) (\<lambda>d. d)
       [((routes_bucket, key_string thread_a), StoredEntry (stale_row 1))])) = Inr None"
proof -
  let ?d = "[((routes_bucket, key_string thread_a), StoredEntry (stale_row 1))]"
  let ?up = "\<lambda>d. snd (snd (bolt_update list_db plain_codec 100 thread_a (\<lambda>_ _. Some (stale_row 100)) d))"
  let ?d' = "snd (bolt_evict list_db plain_codec 100 ?up (\<lambda>d. d) ?d)"
  note ev = stale_row_def bolt_update_def bolt_tx_def bolt_evict_def bolt_evict_bucket_def
    list_db_def plain_codec_def json_norm_def entry_expired_def time_sub_def bolt_get_def
    delivered_is_zero_def zero_delivered_def
  have e: "bolt_evict list_db plain_codec 100 ?up (\<lambda>d. d) ?d = (None, ?d')"
    by (simp add: ev)
  have v: "bd_get list_db routes_bucket (key_string thread_a) ?d = Some (StoredEntry (stale_row 1))"
    by (simp add: list_db_def)
  have "dec_entry plain_codec (StoredEntry (stale_row 1)) = Some (stale_row 1)"
    by (simp add: plain_codec_def)
  moreover have "entry_expired (stale_row 1) 100"
    by (simp add: ev)
  moreover obtain row where row: "bolt_get list_db plain_codec 100 thread_a ?d' = Inr row"
    by (simp add: ev)
  ultimately have "row = None"
    using bolt_eviction_loses_update [OF list_db_laws plain_codec_laws e v] by blast
  moreover have "bolt_get list_db plain_codec 100 thread_a (?up ?d) = Inr (Some (stale_row 100))"
    by (simp add: ev)
  ultimately show ?thesis using row by simp
qed

text \<open>C26: An eviction pass nothing interleaves with is invisible: no \<open>Get\<close> at or after
  its time answers differently for it.\<close>

theorem bolt_eviction_invisible:
  assumes "bolt_laws db" and "codec_laws C"
    and "bolt_evict db C now (\<lambda>d. d) (\<lambda>d. d) d = (err, d')" and "now \<le> t"
    and "bolt_get db C t k d = Inr before" and "bolt_get db C t k d' = Inr after"
  shows "after = before"
  using bolt_backend.evict_live(1) [OF bolt_backend.intro, OF assms(1-4), of k]
    bolt_backend.get_eq_live [OF bolt_backend.intro, OF assms(1,2,5)]
    bolt_backend.get_eq_live [OF bolt_backend.intro, OF assms(1,2,6)] by simp

theorem bolt_eviction_invisible_witness:
  "bolt_get list_db plain_codec 9 thread_a
     (snd (bolt_evict list_db plain_codec 8 (\<lambda>d. d) (\<lambda>d. d)
       [((routes_bucket, key_string thread_a), StoredEntry (stale_row 1))])) =
   Inr (Some (stale_row 1))"
proof -
  let ?d = "[((routes_bucket, key_string thread_a), StoredEntry (stale_row 1))]"
  let ?d' = "snd (bolt_evict list_db plain_codec 8 (\<lambda>d. d) (\<lambda>d. d) ?d)"
  note ev = stale_row_def bolt_tx_def bolt_evict_def bolt_evict_bucket_def list_db_def
    plain_codec_def entry_expired_def time_sub_def bolt_get_def
  obtain err where e: "bolt_evict list_db plain_codec 8 (\<lambda>d. d) (\<lambda>d. d) ?d = (err, ?d')"
    by (metis prod.collapse)
  have "bolt_get list_db plain_codec 9 thread_a ?d = Inr (Some (stale_row 1))" by (simp add: ev)
  moreover obtain row where "bolt_get list_db plain_codec 9 thread_a ?d' = Inr row" by (simp add: ev)
  ultimately show ?thesis
    using bolt_eviction_invisible [OF list_db_laws plain_codec_laws e, of 9 thread_a] by simp
qed

end
