(* ===== verification/ValkeyStore.thy ===== *)
theory ValkeyStore
  imports BoltStore
begin

section \<open>The Valkey store\<close>

text \<open>
  \<open>pkg/routing/store/valkey/valkey.go\<close>. The server is the record \<open>valkey\<close> of the
  commands the store sends, over an abstract server state, with \<open>vk_read\<close> the value a key
  holds at a time; \<open>vk_laws\<close> is what Valkey documents of them: SET with PX keeps the value for
  that many milliseconds, SCAN with MATCH returns every matching key that holds a value, possibly
  more than once, the compare-and-set script is one step. Any command may fail with an error. Of a
  failed write the laws say only that no other key changed.

  Each operation reads its clock once here, where the source reads it up to three times. Dialing,
  the retry of a command on a closed connection and the per-key lock are left out: one operation is
  one step of this process, and what other replicas do between the read and the compare-and-set of
  \<open>UpdateReview\<close> is its argument \<open>meanwhile\<close>.
\<close>

record ('d, 'b) valkey =
  vk_read :: "gotime \<Rightarrow> string \<Rightarrow> 'd \<Rightarrow> 'b option"
  vk_get :: "gotime \<Rightarrow> string \<Rightarrow> 'd \<Rightarrow> 'b option reply"
  vk_set :: "gotime \<Rightarrow> string \<Rightarrow> 'b \<Rightarrow> int \<Rightarrow> 'd \<Rightarrow> store_error option \<times> 'd"
  vk_del :: "gotime \<Rightarrow> string \<Rightarrow> 'd \<Rightarrow> store_error option \<times> 'd"
  vk_scan :: "gotime \<Rightarrow> string \<Rightarrow> 'd \<Rightarrow> string list list reply"
  vk_mget :: "gotime \<Rightarrow> string list \<Rightarrow> 'd \<Rightarrow> 'b option list reply"
  vk_cas :: "gotime \<Rightarrow> string \<Rightarrow> 'b \<Rightarrow> 'b \<Rightarrow> int \<Rightarrow> 'd \<Rightarrow> bool reply \<times> 'd"

text \<open>
  The glob patterns of MATCH: \<open>*\<close>, \<open>?\<close>, a backslash before a literal, and literals. The
  store sends no unescaped character class.
\<close>

fun glob_match :: "string \<Rightarrow> string \<Rightarrow> bool" where
  "glob_match [] xs = (xs = [])"
| "glob_match (p # ps) [] = (p = CHR ''*'' \<and> glob_match ps [])"
| "glob_match (p # ps) (x # xs) =
     (if p = CHR ''*'' then glob_match ps (x # xs) \<or> glob_match (p # ps) xs
      else if p = CHR ''?'' then glob_match ps xs
      else if p = bslash then (case ps of [] \<Rightarrow> False | q # qs \<Rightarrow> q = x \<and> glob_match qs xs)
      else if p = CHR ''['' then False
      else p = x \<and> glob_match ps xs)"

definition vk_written :: "gotime \<Rightarrow> int \<Rightarrow> 'b \<Rightarrow> gotime \<Rightarrow> 'b option" where
  "vk_written now px v t = (if px = 0 \<or> t < now + px * 10 ^ 6 then Some v else None)"

definition vk_laws :: "('d, 'b) valkey \<Rightarrow> bool" where
  "vk_laws V \<longleftrightarrow>
     (\<forall>now k d x. vk_get V now k d = Inr x \<longrightarrow> x = vk_read V now k d) \<and>
     (\<forall>now k v px d err d' t x. vk_set V now k v px d = (err, d') \<longrightarrow> x \<noteq> k \<longrightarrow>
        vk_read V t x d' = vk_read V t x d) \<and>
     (\<forall>now k v px d d' t. vk_set V now k v px d = (None, d') \<longrightarrow> now \<le> t \<longrightarrow>
        vk_read V t k d' = vk_written now px v t) \<and>
     (\<forall>now k d err d' t x. vk_del V now k d = (err, d') \<longrightarrow> x \<noteq> k \<longrightarrow>
        vk_read V t x d' = vk_read V t x d) \<and>
     (\<forall>now k d d' t. vk_del V now k d = (None, d') \<longrightarrow> now \<le> t \<longrightarrow> vk_read V t k d' = None) \<and>
     (\<forall>now pat d pages. vk_scan V now pat d = Inr pages \<longrightarrow>
        {x. glob_match pat x \<and> vk_read V now x d \<noteq> None} \<subseteq> set (concat pages) \<and>
        set (concat pages) \<subseteq> {x. glob_match pat x}) \<and>
     (\<forall>now ks d vs. vk_mget V now ks d = Inr vs \<longrightarrow> vs = map (\<lambda>k. vk_read V now k d) ks) \<and>
     (\<forall>now k old v px d r d' t x. vk_cas V now k old v px d = (r, d') \<longrightarrow> x \<noteq> k \<longrightarrow>
        vk_read V t x d' = vk_read V t x d) \<and>
     (\<forall>now k old v px d d'. vk_cas V now k old v px d = (Inr True, d') \<longrightarrow>
        vk_read V now k d = Some old \<and> (\<forall>t\<ge>now. vk_read V t k d' = vk_written now px v t)) \<and>
     (\<forall>now k old v px d d'. vk_cas V now k old v px d = (Inr False, d') \<longrightarrow>
        vk_read V now k d \<noteq> Some old \<and> (\<forall>t. vk_read V t k d' = vk_read V t k d))"

subsection \<open>Prefixes, patterns and expiry\<close>

definition default_key_prefix :: string where
  "default_key_prefix = ''klaus-gateway:route:''"

definition route_suffix :: string where "route_suffix = ''route:''"
definition review_suffix :: string where "review_suffix = ''review:''"

definition review_prefix :: "string \<Rightarrow> string" where
  "review_prefix p = trim_suffix p route_suffix @ review_suffix"

text \<open>
  \<open>globEscape\<close> walks the runes of the prefix; the special ones are single bytes, so on a prefix
  that is UTF-8 text, as a configured one is, this is its walk over the bytes.
\<close>

definition glob_special :: "char \<Rightarrow> bool" where
  "glob_special c \<longleftrightarrow> c \<in> {CHR ''*'', CHR ''?'', CHR ''['', CHR '']'', bslash}"

definition glob_escape :: "string \<Rightarrow> string" where
  "glob_escape s = concat (map (\<lambda>c. if glob_special c then [bslash, c] else [c]) s)"

definition min_expiry :: duration where "min_expiry = 10 ^ 6"

definition remaining :: "duration \<Rightarrow> gotime \<Rightarrow> gotime \<Rightarrow> duration" where
  "remaining ttl since now =
     (if ttl \<le> 0 then 0
      else
        (let left = wrap64 (ttl - time_sub now since);
             left = (if left > ttl then ttl else left)
         in if left < min_expiry then min_expiry else left))"

text \<open>The milliseconds a command carries.\<close>

definition remaining_ms :: "duration \<Rightarrow> gotime \<Rightarrow> gotime \<Rightarrow> int" where
  "remaining_ms ttl since now = remaining ttl since now div 10 ^ 6"

subsection \<open>The operations\<close>

definition vk_key :: "string \<Rightarrow> key \<Rightarrow> string" where
  "vk_key p k = p @ key_string k"

definition valkey_get ::
  "('d, 'b) valkey \<Rightarrow> 'b codec \<Rightarrow> string \<Rightarrow> gotime \<Rightarrow> key \<Rightarrow> 'd \<Rightarrow> entry option reply" where
  "valkey_get V C p now k d =
     (case vk_get V now (vk_key p k) d of
        Inl err \<Rightarrow> Inl err
      | Inr None \<Rightarrow> Inr None
      | Inr (Some v) \<Rightarrow>
          (case dec_entry C v of
             None \<Rightarrow> Inl ''valkey: decode entry''
           | Some e \<Rightarrow> if entry_expired e now then Inr None else Inr (Some e)))"

definition valkey_put ::
  "('d, 'b) valkey \<Rightarrow> 'b codec \<Rightarrow> string \<Rightarrow> gotime \<Rightarrow> key \<Rightarrow> entry \<Rightarrow> 'd \<Rightarrow>
   store_error option \<times> 'd" where
  "valkey_put V C p now k e d =
     (if entry_expired e now then vk_del V now (vk_key p k) d
      else vk_set V now (vk_key p k) (enc_entry C e)
             (remaining_ms (e_ttl e) (e_last_seen e) now) d)"

definition valkey_update ::
  "('d, 'b) valkey \<Rightarrow> 'b codec \<Rightarrow> string \<Rightarrow> gotime \<Rightarrow> key \<Rightarrow> mutate \<Rightarrow> 'd \<Rightarrow> 'd updated" where
  "valkey_update V C p now k mutate d =
     (case valkey_get V C p now k d of
        Inl err \<Rightarrow> (None, Some err, d)
      | Inr row \<Rightarrow>
          (let (e, found) = shown row
           in case mutate e found of
                None \<Rightarrow> (Some (e, found), None, d)
              | Some e' \<Rightarrow>
                  (let (err, d') = valkey_put V C p now k e' d in (Some (e, found), err, d'))))"

text \<open>\<open>scan\<close>: the pages' keys, each once, in the order they came.\<close>

fun dedup :: "string list \<Rightarrow> string list \<Rightarrow> string list" where
  "dedup seen [] = []"
| "dedup seen (k # ks) = (if k \<in> set seen then dedup seen ks else k # dedup (k # seen) ks)"

definition valkey_scan :: "('d, 'b) valkey \<Rightarrow> string \<Rightarrow> gotime \<Rightarrow> 'd \<Rightarrow> string list reply" where
  "valkey_scan V p now d =
     (case vk_scan V now (glob_escape p @ ''*'') d of
        Inl err \<Rightarrow> Inl err
      | Inr pages \<Rightarrow> Inr (dedup [] (concat pages)))"

fun valkey_rows ::
  "'b codec \<Rightarrow> string \<Rightarrow> gotime \<Rightarrow> (string \<times> 'b option) list \<Rightarrow> (key \<times> entry) list reply" where
  "valkey_rows C p now [] = Inr []"
| "valkey_rows C p now ((x, None) # rows) = valkey_rows C p now rows"
| "valkey_rows C p now ((x, Some v) # rows) =
     (case dec_entry C v of
        None \<Rightarrow> Inl ''valkey: decode entry''
      | Some e \<Rightarrow>
          (case valkey_rows C p now rows of
             Inl err \<Rightarrow> Inl err
           | Inr xs \<Rightarrow>
               if entry_expired e now then Inr xs
               else (case parse_key (trim_prefix x p) of
                       None \<Rightarrow> Inr xs
                     | Some k \<Rightarrow> Inr ((k, e) # xs))))"

definition mget_batch :: nat where "mget_batch = 128"

function valkey_batches ::
  "('d, 'b) valkey \<Rightarrow> 'b codec \<Rightarrow> string \<Rightarrow> gotime \<Rightarrow> string list \<Rightarrow> 'd \<Rightarrow>
   (key \<times> entry) list reply" where
  "valkey_batches V C p now keys d =
     (if keys = [] then Inr []
      else
        (case vk_mget V now (take mget_batch keys) d of
           Inl err \<Rightarrow> Inl err
         | Inr vs \<Rightarrow>
             (case valkey_rows C p now (zip (take mget_batch keys) vs) of
                Inl err \<Rightarrow> Inl err
              | Inr xs \<Rightarrow>
                  (case valkey_batches V C p now (drop mget_batch keys) d of
                     Inl err \<Rightarrow> Inl err
                   | Inr ys \<Rightarrow> Inr (xs @ ys)))))"
  by pat_completeness auto
termination
  by (relation "measure (\<lambda>(V, C, p, now, keys, d). length keys)") (auto simp: mget_batch_def)

declare valkey_batches.simps [simp del]

definition valkey_list ::
  "('d, 'b) valkey \<Rightarrow> 'b codec \<Rightarrow> string \<Rightarrow> gotime \<Rightarrow> 'd \<Rightarrow> (key \<times> entry) list reply" where
  "valkey_list V C p now d =
     (case valkey_scan V p now d of
        Inl err \<Rightarrow> Inl err
      | Inr keys \<Rightarrow> valkey_batches V C p now keys d)"

definition valkey_put_review ::
  "('d, 'b) valkey \<Rightarrow> 'b codec \<Rightarrow> string \<Rightarrow> gotime \<Rightarrow> review \<Rightarrow> 'd \<Rightarrow> store_error option \<times> 'd" where
  "valkey_put_review V C p now r d =
     (if review_expired r now then vk_del V now (review_prefix p @ r_id r) d
      else vk_set V now (review_prefix p @ r_id r) (enc_review C r)
             (remaining_ms (r_ttl r) (r_posted_at r) now) d)"

definition valkey_read_review ::
  "('d, 'b) valkey \<Rightarrow> 'b codec \<Rightarrow> string \<Rightarrow> gotime \<Rightarrow> string \<Rightarrow> 'd \<Rightarrow> ('b \<times> review) option reply" where
  "valkey_read_review V C p now i d =
     (case vk_get V now (review_prefix p @ i) d of
        Inl err \<Rightarrow> Inl err
      | Inr None \<Rightarrow> Inr None
      | Inr (Some v) \<Rightarrow>
          (case dec_review C v of
             None \<Rightarrow> Inl ''valkey: decode review''
           | Some r \<Rightarrow> if review_expired r now then Inr None else Inr (Some (v, r))))"

definition valkey_get_review ::
  "('d, 'b) valkey \<Rightarrow> 'b codec \<Rightarrow> string \<Rightarrow> gotime \<Rightarrow> string \<Rightarrow> 'd \<Rightarrow> review option reply" where
  "valkey_get_review V C p now i d =
     map_sum id (map_option snd) (valkey_read_review V C p now i d)"

definition review_update_attempts :: nat where "review_update_attempts = 8"

text \<open>
  \<open>meanwhile n\<close> is what other replicas do between the read and the compare-and-set of the
  attempt with \<open>n\<close> attempts left after it.
\<close>

fun valkey_review_attempts ::
  "nat \<Rightarrow> ('d, 'b) valkey \<Rightarrow> 'b codec \<Rightarrow> string \<Rightarrow> (nat \<Rightarrow> 'd \<Rightarrow> 'd) \<Rightarrow> gotime \<Rightarrow> string \<Rightarrow>
   (review \<Rightarrow> review option) \<Rightarrow> 'd \<Rightarrow> (bool \<times> review option \<times> store_error option) \<times> 'd" where
  "valkey_review_attempts 0 V C p meanwhile now i f d =
     ((True, None, Some ''valkey: review kept changing''), d)"
| "valkey_review_attempts (Suc n) V C p meanwhile now i f d =
     (case valkey_read_review V C p now i d of
        Inl err \<Rightarrow> ((False, None, Some err), d)
      | Inr None \<Rightarrow> ((False, None, None), d)
      | Inr (Some (raw, r)) \<Rightarrow>
          (case f r of
             None \<Rightarrow> ((True, Some r, None), d)
           | Some r' \<Rightarrow>
               (let (ans, d') = vk_cas V now (review_prefix p @ i) raw (enc_review C r')
                      (remaining_ms (r_ttl r') (r_posted_at r') now) (meanwhile n d)
                in case ans of
                     Inl err \<Rightarrow> ((True, Some r, Some err), d')
                   | Inr True \<Rightarrow> ((True, Some r, None), d')
                   | Inr False \<Rightarrow> valkey_review_attempts n V C p meanwhile now i f d')))"

definition valkey_update_review ::
  "('d, 'b) valkey \<Rightarrow> 'b codec \<Rightarrow> string \<Rightarrow> (nat \<Rightarrow> 'd \<Rightarrow> 'd) \<Rightarrow> gotime \<Rightarrow> string \<Rightarrow>
   (review \<Rightarrow> review option) \<Rightarrow> 'd \<Rightarrow> (bool \<times> review option \<times> store_error option) \<times> 'd" where
  "valkey_update_review = valkey_review_attempts review_update_attempts"

definition valkey_routes :: "('d, 'b) valkey \<Rightarrow> 'b codec \<Rightarrow> string \<Rightarrow> 'd routes" where
  "valkey_routes V C p =
     \<lparr>rt_get = valkey_get V C p, rt_list = valkey_list V C p, rt_update = valkey_update V C p\<rparr>"

definition valkey_reviews :: "('d, 'b) valkey \<Rightarrow> 'b codec \<Rightarrow> string \<Rightarrow> 'd reviews" where
  "valkey_reviews V C p =
     \<lparr>rv_get = valkey_get_review V C p, rv_put = valkey_put_review V C p,
      rv_update = valkey_update_review V C p (\<lambda>_ d. d)\<rparr>"

text \<open>
  What the update of a record edits: the database the other replicas made by the end of the first
  attempt they left the record alone in, every write of theirs before that included. Two databases
  are the same for a reader when every key reads the same at all times.
\<close>

fun review_window ::
  "nat \<Rightarrow> ('d, 'b) valkey \<Rightarrow> (nat \<Rightarrow> 'd \<Rightarrow> 'd) \<Rightarrow> gotime \<Rightarrow> string \<Rightarrow> 'd \<Rightarrow> 'd" where
  "review_window 0 V others now x d = d"
| "review_window (Suc n) V others now x d =
     (if vk_read V now x (others n d) = vk_read V now x d then others n d
      else review_window n V others now x (others n d))"

definition same_reads :: "('d, 'b) valkey \<Rightarrow> 'd \<Rightarrow> 'd \<Rightarrow> bool" where
  "same_reads V d d' \<longleftrightarrow> (\<forall>t x. vk_read V t x d = vk_read V t x d')"

definition by_reads :: "('d, 'b) valkey \<Rightarrow> (nat \<Rightarrow> 'd \<Rightarrow> 'd) \<Rightarrow> bool" where
  "by_reads V others \<longleftrightarrow>
     (\<forall>n d d'. same_reads V d d' \<longrightarrow> same_reads V (others n d) (others n d'))"

lemma review_window_same:
  "by_reads V others \<Longrightarrow> same_reads V d d' \<Longrightarrow>
   same_reads V (review_window n V others now x d) (review_window n V others now x d')"
proof (induction n arbitrary: d d')
  case (Suc n)
  from Suc.prems have o: "same_reads V (others n d) (others n d')" by (simp add: by_reads_def)
  from Suc.IH [OF Suc.prems(1) o] o Suc.prems(2) show ?case by (auto simp: same_reads_def)
qed simp

subsection \<open>What readers see\<close>

definition valkey_live ::
  "('d, 'b) valkey \<Rightarrow> 'b codec \<Rightarrow> string \<Rightarrow> gotime \<Rightarrow> 'd \<Rightarrow> key \<Rightarrow> entry option" where
  "valkey_live V C p now d k =
     decoded (dec_entry C) entry_expired now (vk_read V now (vk_key p k) d)"

definition valkey_live_review ::
  "('d, 'b) valkey \<Rightarrow> 'b codec \<Rightarrow> string \<Rightarrow> gotime \<Rightarrow> 'd \<Rightarrow> string \<Rightarrow> review option" where
  "valkey_live_review V C p now d i =
     decoded (dec_review C) review_expired now (vk_read V now (review_prefix p @ i) d)"

definition valkey_inv :: "('d, 'b) valkey \<Rightarrow> string \<Rightarrow> 'd \<Rightarrow> bool" where
  "valkey_inv V p d \<longleftrightarrow>
     (\<forall>t x. vk_read V t (p @ x) d \<noteq> None \<longrightarrow> parse_key x = None \<or> (\<exists>k. x = key_string k))"


subsection \<open>The pattern finds exactly the prefix\<close>

lemma glob_star: "glob_match ''*'' x"
  by (induction x) simp_all

lemma glob_escape_Cons:
  "glob_escape (c # s) = (if glob_special c then [bslash, c] else [c]) @ glob_escape s"
  by (simp add: glob_escape_def)

lemma glob_escape_match: "glob_match (glob_escape p @ pat) x \<longleftrightarrow> (\<exists>y. x = p @ y \<and> glob_match pat y)"
proof (induction p arbitrary: x)
  case Nil
  then show ?case by (simp add: glob_escape_def)
next
  case (Cons c p)
  show ?case
  proof (cases x)
    case Nil
    then show ?thesis by (auto simp: glob_escape_Cons glob_special_def)
  next
    case (Cons a y)
    then show ?thesis
      using Cons.IH [of y] by (cases "glob_special c") (auto simp: glob_escape_Cons glob_special_def)
  qed
qed

lemma scan_pattern: "glob_match (glob_escape p @ ''*'') x \<longleftrightarrow> prefix p x"
  by (auto simp: glob_escape_match glob_star prefix_def)

lemma dedup_set: "set (dedup seen ks) = set ks - set seen"
  by (induction seen ks rule: dedup.induct) auto

lemma dedup_distinct: "distinct (dedup seen ks)"
  by (induction seen ks rule: dedup.induct) (auto simp: dedup_set)

text \<open>Where the review keys lie: beside the routing keys exactly under a prefix ending in route.\<close>

lemma review_prefix_beside:
  assumes "suffix route_suffix p"
  shows "\<not> prefix p (review_prefix p @ i)"
proof -
  from assms obtain b where b: "p = b @ ''route:''" by (auto simp: suffix_def route_suffix_def)
  then have "review_prefix p = b @ ''review:''"
    by (simp add: review_prefix_def trim_suffix_def suffix_def route_suffix_def review_suffix_def)
  with b show ?thesis by simp
qed

lemma review_prefix_under:
  "\<not> suffix route_suffix p \<Longrightarrow> prefix p (review_prefix p @ i)"
  by (simp add: review_prefix_def trim_suffix_def)

subsection \<open>The expiry a row is written with\<close>

lemma remaining_bounds:
  "0 < ttl \<Longrightarrow> 10 ^ 6 \<le> ttl \<Longrightarrow> 10 ^ 6 \<le> remaining ttl since now \<and> remaining ttl since now \<le> ttl"
  by (auto simp: remaining_def min_expiry_def Let_def)

lemma remaining_ms_kept:
  assumes "0 < ttl" and "ttl < 2 ^ 63 - 1" and "since \<le> now" and "now \<le> t"
    and "\<not> time_sub (t + 10 ^ 6) since > ttl"
  shows "t < now + remaining_ms ttl since now * 10 ^ 6" and "remaining_ms ttl since now \<noteq> 0"
proof -
  have age: "t + 10 ^ 6 - since \<le> ttl"
    using assms(2,5) by (auto simp: time_sub_def)
  then have sub: "time_sub now since = now - since"
    using assms(2-4) by (intro time_sub_exact) (auto simp: in_int64_def)
  have "in_int64 (ttl - (now - since))"
    using age assms(1-4) by (auto simp: in_int64_def)
  then have rem: "remaining ttl since now = ttl - (now - since)"
    using age assms(1,3,4) by (simp add: remaining_def sub wrap64_id min_expiry_def)
  have "ttl - (now - since) - 10 ^ 6 < (ttl - (now - since)) div 10 ^ 6 * 10 ^ 6"
    by (simp add: minus_mod_eq_div_mult [symmetric])
  with age show lt: "t < now + remaining_ms ttl since now * 10 ^ 6"
    by (simp add: remaining_ms_def rem)
  with assms(4) show "remaining_ms ttl since now \<noteq> 0" by auto
qed

lemma written_kept:
  assumes "ttl \<le> 0 \<or> ttl < 2 ^ 63 - 1 \<and> since \<le> now \<and> \<not> time_sub (t + 10 ^ 6) since > ttl"
    and "now \<le> t"
  shows "vk_written now (remaining_ms ttl since now) v t = Some v"
proof (cases "ttl \<le> 0")
  case True
  then show ?thesis by (simp add: vk_written_def remaining_ms_def remaining_def)
next
  case False
  with assms remaining_ms_kept [of ttl since now t] show ?thesis by (simp add: vk_written_def)
qed

lemma entry_fresh_slack:
  "\<not> entry_expired e (t + 10 ^ 6) \<Longrightarrow> e_last_seen e \<le> now \<Longrightarrow> e_ttl e < 2 ^ 63 - 1 \<Longrightarrow>
   e_ttl e \<le> 0 \<or> e_ttl e < 2 ^ 63 - 1 \<and> e_last_seen e \<le> now \<and>
     \<not> time_sub (t + 10 ^ 6) (e_last_seen e) > e_ttl e"
  by (auto simp: entry_expired_def split: if_splits)

lemma review_fresh_slack:
  "\<not> review_expired r (t + 10 ^ 6) \<Longrightarrow> r_posted_at r \<le> now \<Longrightarrow> r_ttl r < 2 ^ 63 - 1 \<Longrightarrow>
   r_ttl r \<le> 0 \<or> r_ttl r < 2 ^ 63 - 1 \<and> r_posted_at r \<le> now \<and>
     \<not> time_sub (t + 10 ^ 6) (r_posted_at r) > r_ttl r"
  by (auto simp: review_expired_def split: if_splits)

subsection \<open>The contract\<close>

locale valkey_backend =
  fixes V :: "('d, 'b) valkey" and C :: "'b codec" and p :: string
  assumes v_laws: "vk_laws V" and c_laws: "codec_laws C" and beside: "suffix route_suffix p"
begin

lemma dec_enc [simp]:
  "dec_entry C (enc_entry C e) = Some (json_norm e)" "dec_review C (enc_review C r) = Some r"
  using c_laws by (simp_all add: codec_laws_def)

lemma get_read: "vk_get V now k d = Inr x \<Longrightarrow> x = vk_read V now k d"
  using v_laws unfolding vk_laws_def by (elim conjE) metis

lemma set_other: "vk_set V now k v px d = (err, d') \<Longrightarrow> x \<noteq> k \<Longrightarrow> vk_read V t x d' = vk_read V t x d"
  using v_laws unfolding vk_laws_def by (elim conjE) metis

lemma set_read: "vk_set V now k v px d = (None, d') \<Longrightarrow> now \<le> t \<Longrightarrow>
   vk_read V t k d' = vk_written now px v t"
  using v_laws unfolding vk_laws_def by (elim conjE) metis

lemma del_other: "vk_del V now k d = (err, d') \<Longrightarrow> x \<noteq> k \<Longrightarrow> vk_read V t x d' = vk_read V t x d"
  using v_laws unfolding vk_laws_def by (elim conjE) metis

lemma del_read: "vk_del V now k d = (None, d') \<Longrightarrow> now \<le> t \<Longrightarrow> vk_read V t k d' = None"
  using v_laws unfolding vk_laws_def by (elim conjE) metis

lemma scan_pages:
  assumes "vk_scan V now (glob_escape q @ ''*'') d = Inr pages"
  shows "prefix q x \<Longrightarrow> vk_read V now x d \<noteq> None \<Longrightarrow> x \<in> set (concat pages)"
    and "x \<in> set (concat pages) \<Longrightarrow> prefix q x"
proof -
  have "\<forall>now pat d pages. vk_scan V now pat d = Inr pages \<longrightarrow>
        {x. glob_match pat x \<and> vk_read V now x d \<noteq> None} \<subseteq> set (concat pages) \<and>
        set (concat pages) \<subseteq> {x. glob_match pat x}"
    using v_laws unfolding vk_laws_def by (elim conjE) assumption
  from this [rule_format, OF assms]
  have "{x. glob_match (glob_escape q @ ''*'') x \<and> vk_read V now x d \<noteq> None} \<subseteq> set (concat pages) \<and>
        set (concat pages) \<subseteq> {x. glob_match (glob_escape q @ ''*'') x}" .
  then show "prefix q x \<Longrightarrow> vk_read V now x d \<noteq> None \<Longrightarrow> x \<in> set (concat pages)"
    and "x \<in> set (concat pages) \<Longrightarrow> prefix q x" by (auto simp: scan_pattern)
qed

lemma mget_read: "vk_mget V now ks d = Inr vs \<Longrightarrow> vs = map (\<lambda>k. vk_read V now k d) ks"
  using v_laws unfolding vk_laws_def by (elim conjE) metis

lemma cas_other: "vk_cas V now k old v px d = (r, d') \<Longrightarrow> x \<noteq> k \<Longrightarrow> vk_read V t x d' = vk_read V t x d"
  using v_laws unfolding vk_laws_def by (elim conjE) metis

lemma cas_true:
  assumes "vk_cas V now k old v px d = (Inr True, d')"
  shows "vk_read V now k d = Some old" and "now \<le> t \<Longrightarrow> vk_read V t k d' = vk_written now px v t"
  using v_laws assms unfolding vk_laws_def by (elim conjE; blast)+

lemma cas_false:
  assumes "vk_cas V now k old v px d = (Inr False, d')"
  shows "vk_read V now k d \<noteq> Some old" and "vk_read V t k d' = vk_read V t k d"
  using v_laws assms unfolding vk_laws_def by (elim conjE; blast)+


lemma read_written:
  "decoded (dec_entry C) entry_expired t (vk_written now px (enc_entry C e) t) =
     (if vk_written now px (enc_entry C e) t = None \<or> entry_expired e t then None
      else Some (json_norm e))"
  by (auto simp: decoded_def vk_written_def)

lemma get_live: "valkey_get V C p now k d = Inr r \<Longrightarrow> r = valkey_live V C p now d k"
  by (auto simp: valkey_get_def valkey_live_def decoded_def dest!: get_read
      split: sum.splits option.splits if_splits)

lemma put_other:
  "valkey_put V C p now k e d = (err, d') \<Longrightarrow> x \<noteq> vk_key p k \<Longrightarrow> vk_read V t x d' = vk_read V t x d"
  by (auto simp: valkey_put_def set_other del_other split: if_splits)

lemma put_live:
  assumes "valkey_put V C p now k e d = (None, d')" and "now \<le> t"
  shows "entry_expired e t \<Longrightarrow> valkey_live V C p t d' k = None"
    and "e_last_seen e \<le> now \<Longrightarrow> e_ttl e < 2 ^ 63 - 1 \<Longrightarrow> \<not> entry_expired e (t + 10 ^ 6) \<Longrightarrow>
      valkey_live V C p t d' k = Some (json_norm e)"
proof -
  show "entry_expired e t \<Longrightarrow> valkey_live V C p t d' k = None"
    using assms by (auto simp: valkey_put_def valkey_live_def decoded_def vk_written_def set_read del_read
        split: if_splits)
  assume le: "e_last_seen e \<le> now" and ttl: "e_ttl e < 2 ^ 63 - 1"
    and fresh: "\<not> entry_expired e (t + 10 ^ 6)"
  from fresh assms(2) have now: "\<not> entry_expired e now" and at: "\<not> entry_expired e t"
    using entry_expired_mono [of now "t + 10 ^ 6" e] entry_expired_mono [of t "t + 10 ^ 6" e] by auto
  from assms(1) now have "vk_set V now (vk_key p k) (enc_entry C e)
      (remaining_ms (e_ttl e) (e_last_seen e) now) d = (None, d')" by (simp add: valkey_put_def)
  from set_read [OF this assms(2)]
    written_kept [OF entry_fresh_slack [OF fresh le ttl] assms(2), of "enc_entry C e"]
  have "vk_read V t (vk_key p k) d' = Some (enc_entry C e)" by simp
  with at show "valkey_live V C p t d' k = Some (json_norm e)"
    by (simp add: valkey_live_def decoded_def)
qed

lemma update_cases:
  assumes "valkey_update V C p now k f d = (seen, err, d')"
  obtains (failed) e where "err = Some e" "d' = d"
    | (skipped) "err = None" "seen = Some (shown (valkey_live V C p now d k))"
        "case_prod f (shown (valkey_live V C p now d k)) = None" "d' = d"
    | (written) e where "seen = Some (shown (valkey_live V C p now d k))"
        "case_prod f (shown (valkey_live V C p now d k)) = Some e"
        "valkey_put V C p now k e d = (err, d')"
proof (cases "valkey_get V C p now k d")
  case (Inl e)
  with assms show ?thesis by (intro failed) (auto simp: valkey_update_def)
next
  case (Inr row)
  from get_live [OF Inr] have row: "row = valkey_live V C p now d k" .
  obtain e found where e: "shown row = (e, found)" by fastforce
  show ?thesis
  proof (cases "f e found")
    case None
    with assms Inr e row show ?thesis by (intro skipped) (auto simp: valkey_update_def)
  next
    case (Some e')
    with assms Inr e row show ?thesis
      by (intro written [of e']) (auto simp: valkey_update_def split: prod.splits)
  qed
qed

lemma inv_other:
  assumes "valkey_inv V p d" and "\<And>t x. x \<noteq> p @ key_string k \<Longrightarrow> vk_read V t x d' = vk_read V t x d"
  shows "valkey_inv V p d'"
  unfolding valkey_inv_def
proof (intro allI impI)
  fix t x assume r: "vk_read V t (p @ x) d' \<noteq> None"
  show "parse_key x = None \<or> (\<exists>k. x = key_string k)"
  proof (cases "x = key_string k")
    case False
    with r assms(2) [of "p @ x" t] assms(1) show ?thesis by (auto simp: valkey_inv_def)
  qed blast
qed

lemma inv_review:
  assumes "valkey_inv V p d"
    and "\<And>t x. x \<noteq> review_prefix p @ i \<Longrightarrow> vk_read V t x d' = vk_read V t x d"
  shows "valkey_inv V p d'"
proof -
  have "p @ x \<noteq> review_prefix p @ i" for x
    using review_prefix_beside [OF beside, of i] by (metis prefixI)
  with assms show ?thesis by (simp add: valkey_inv_def)
qed

lemma routes_reviews_apart: "vk_key p k \<noteq> review_prefix p @ i"
  unfolding vk_key_def using review_prefix_beside [OF beside, of i] by (metis prefixI)

subsection \<open>Listing\<close>

lemma rows_iff:
  "valkey_rows C p now rows = Inr xs \<Longrightarrow>
   (k, e) \<in> set xs \<longleftrightarrow> (\<exists>(x, w)\<in>set rows. decoded (dec_entry C) entry_expired now w = Some e \<and>
     parse_key (trim_prefix x p) = Some k)"
proof (induction rows arbitrary: xs)
  case (Cons r rows)
  obtain x w where r: "r = (x, w)" by fastforce
  show ?case
  proof (cases w)
    case None
    with Cons r show ?thesis by (simp add: decoded_def)
  next
    case (Some v)
    with Cons.prems r obtain e1 xs1 where "dec_entry C v = Some e1" "valkey_rows C p now rows = Inr xs1"
      by (auto split: option.splits sum.splits)
    with Cons.IH [of xs1] Cons.prems r Some show ?thesis
      by (cases "entry_expired e1 now"; cases "parse_key (trim_prefix x p)") (auto simp: decoded_def)
  qed
qed simp

lemma batches_iff:
  "valkey_batches V C p now keys d = Inr xs \<Longrightarrow>
   (k, e) \<in> set xs \<longleftrightarrow> (\<exists>x\<in>set keys. decoded (dec_entry C) entry_expired now (vk_read V now x d) = Some e \<and>
     parse_key (trim_prefix x p) = Some k)"
proof (induction "length keys" arbitrary: keys xs rule: less_induct)
  case less
  show ?case
  proof (cases "keys = []")
    case True
    with less.prems show ?thesis by (simp add: valkey_batches.simps)
  next
    case False
    let ?now = "take mget_batch keys" let ?rest = "drop mget_batch keys"
    from False less.prems obtain vs as bs where
      vs: "vk_mget V now ?now d = Inr vs" and as: "valkey_rows C p now (zip ?now vs) = Inr as"
      and bs: "valkey_batches V C p now ?rest d = Inr bs" and xs: "xs = as @ bs"
      by (subst (asm) valkey_batches.simps) (auto split: sum.splits)
    have len: "length ?rest < length keys" using False by (simp add: mget_batch_def)
    have zip: "zip ?now vs = map (\<lambda>x. (x, vk_read V now x d)) ?now"
      unfolding mget_read [OF vs] by (simp add: zip_map2 zip_same_conv_map)
    have "(k, e) \<in> set as \<longleftrightarrow> (\<exists>x\<in>set ?now.
        decoded (dec_entry C) entry_expired now (vk_read V now x d) = Some e \<and>
        parse_key (trim_prefix x p) = Some k)"
      unfolding rows_iff [OF as] zip by auto
    moreover have "set keys = set ?now \<union> set ?rest"
      by (metis append_take_drop_id set_append)
    ultimately show ?thesis using less.hyps [OF len bs] xs by auto
  qed
qed

lemma list_live_rows:
  assumes "valkey_inv V p d" and "valkey_list V C p now d = Inr xs"
  shows "set xs = {(listed_key k, e) | k e. valkey_live V C p now d k = Some e}"
proof -
  from assms(2) obtain pages where pages: "vk_scan V now (glob_escape p @ ''*'') d = Inr pages"
    and b: "valkey_batches V C p now (dedup [] (concat pages)) d = Inr xs"
    by (auto simp: valkey_list_def valkey_scan_def split: sum.splits)
  have row: "(k, e) \<in> set xs \<longleftrightarrow> (\<exists>x\<in>set (concat pages).
      decoded (dec_entry C) entry_expired now (vk_read V now x d) = Some e \<and>
      parse_key (trim_prefix x p) = Some k)" for k e
    using batches_iff [OF b] by (simp add: dedup_set)
  show ?thesis
  proof (intro set_eqI iffI)
    fix y assume y: "y \<in> set xs"
    obtain k e where ke: "y = (k, e)" by fastforce
    from y [unfolded ke row] obtain x where x: "x \<in> set (concat pages)"
      "decoded (dec_entry C) entry_expired now (vk_read V now x d) = Some e"
      "parse_key (trim_prefix x p) = Some k" by blast
    from scan_pages(2) [OF pages x(1)] obtain z where z: "x = p @ z" by (auto simp: prefix_def)
    from x(2) have "vk_read V now x d \<noteq> None"
      by (cases "vk_read V now x d") (simp_all add: decoded_def)
    moreover from x(3) z have "parse_key z = Some k" by simp
    ultimately obtain k0 where "z = key_string k0"
      using assms(1) z unfolding valkey_inv_def by (metis option.distinct(1))
    with x z have "valkey_live V C p now d k0 = Some e" "k = listed_key k0"
      by (simp_all add: valkey_live_def vk_key_def parse_key_listed)
    with ke show "y \<in> {(listed_key k, e) | k e. valkey_live V C p now d k = Some e}" by blast
  next
    fix y assume "y \<in> {(listed_key k, e) | k e. valkey_live V C p now d k = Some e}"
    then obtain k e where y: "y = (listed_key k, e)" "valkey_live V C p now d k = Some e" by blast
    then have "vk_read V now (vk_key p k) d \<noteq> None"
      by (cases "vk_read V now (vk_key p k) d") (simp_all add: valkey_live_def decoded_def)
    then have "vk_key p k \<in> set (concat pages)"
      by (intro scan_pages(1) [OF pages]) (auto simp: vk_key_def)
    with y show "y \<in> set xs"
      unfolding y(1) row by (intro bexI [of _ "vk_key p k"])
        (auto simp: valkey_live_def vk_key_def parse_key_listed)
  qed
qed

end

sublocale valkey_backend \<subseteq>
  routes: thread_store "valkey_routes V C p" "valkey_inv V p" "valkey_live V C p" json_norm "10 ^ 6"
proof (unfold_locales, goal_cases)
  case 1 show ?case by simp
next
  case 2 show ?case by simp
next
  case (3 s now k e) then show ?case by (auto simp: valkey_live_def decoded_Some)
next
  case (4 s now k r) then show ?case by (simp add: valkey_routes_def get_live)
next
  case (5 s now xs) then show ?case by (simp add: valkey_routes_def list_live_rows)
next
  case (6 s now k f seen err s')
  then have u: "valkey_update V C p now k f s = (seen, err, s')" by (simp add: valkey_routes_def)
  from u show ?case
  proof (cases rule: update_cases)
    case (written e)
    from put_other [OF written(3)] show ?thesis
      by (intro inv_other [OF 6(1), of k]) (simp add: vk_key_def)
  qed (use 6(1) in simp_all)
next
  case (7 s now k f seen err s' k' t)
  then have u: "valkey_update V C p now k f s = (seen, err, s')" by (simp add: valkey_routes_def)
  from u show ?case
  proof (cases rule: update_cases)
    case (written e)
    from 7(3) have "vk_key p k' \<noteq> vk_key p k" by (simp add: vk_key_def key_string_inj)
    with put_other [OF written(3)] show ?thesis by (simp add: valkey_live_def)
  qed simp_all
next
  case (8 s now k f seen s')
  then have u: "valkey_update V C p now k f s = (seen, None, s')" by (simp add: valkey_routes_def)
  from u show ?case by (cases rule: update_cases) auto
next
  case (9 s now k f seen s' t)
  then have u: "valkey_update V C p now k f s = (seen, None, s')" by (simp add: valkey_routes_def)
  from u 9(3) show ?case by (cases rule: update_cases) auto
next
  case (10 s now k f seen s' e t)
  then have u: "valkey_update V C p now k f s = (seen, None, s')" by (simp add: valkey_routes_def)
  from u 10(3-) show ?case
    by (cases rule: update_cases) (auto intro: put_live(2))
next
  case (11 s now k f seen s' e t)
  then have u: "valkey_update V C p now k f s = (seen, None, s')" by (simp add: valkey_routes_def)
  from u 11(3-) show ?case
    by (cases rule: update_cases) (auto intro: put_live(1))
qed


subsection \<open>Reviews\<close>

context valkey_backend begin

lemma read_review:
  "valkey_read_review V C p now i d = Inr x \<Longrightarrow>
   case x of None \<Rightarrow> valkey_live_review V C p now d i = None
   | Some (raw, r) \<Rightarrow> vk_read V now (review_prefix p @ i) d = Some raw \<and> dec_review C raw = Some r \<and>
       valkey_live_review V C p now d i = Some r"
  by (auto simp: valkey_read_review_def valkey_live_review_def decoded_def dest!: get_read
      split: sum.splits option.splits if_splits)

lemma written_review:
  assumes "now \<le> t" and "x = vk_written now (remaining_ms (r_ttl r) (r_posted_at r) now) (enc_review C r) t"
  shows "review_kept (10 ^ 6) now (\<lambda>r. r) r t (decoded (dec_review C) review_expired t x)"
proof (cases "review_expired r t")
  case True
  then show ?thesis unfolding assms(2) by (simp add: review_kept_def decoded_def vk_written_def)
next
  case False
  then have some: "decoded (dec_review C) review_expired t x = (if x = None then None else Some r)"
    unfolding assms(2) by (simp add: decoded_def vk_written_def)
  show ?thesis
  proof (cases "review_expired r (t + 10 ^ 6) \<or> now < r_posted_at r \<or> 2 ^ 63 - 1 \<le> r_ttl r")
    case True
    with False some show ?thesis by (auto simp: review_kept_def)
  next
    case fresh: False
    then have "x = Some (enc_review C r)"
      unfolding assms(2) by (intro written_kept review_fresh_slack assms(1)) auto
    with False some show ?thesis by (simp add: review_kept_def)
  qed
qed

lemma put_review_other:
  "valkey_put_review V C p now r d = (err, d') \<Longrightarrow> x \<noteq> review_prefix p @ r_id r \<Longrightarrow>
   vk_read V t x d' = vk_read V t x d"
  by (auto simp: valkey_put_review_def set_other del_other split: if_splits)

lemma put_review_live:
  assumes "valkey_put_review V C p now r d = (None, d')" and "now \<le> t"
  shows "review_kept (10 ^ 6) now (\<lambda>r. r) r t (valkey_live_review V C p t d' (r_id r))"
proof (cases "review_expired r now")
  case True
  with assms have "vk_read V t (review_prefix p @ r_id r) d' = None"
    by (auto simp: valkey_put_review_def del_read)
  with True assms(2) show ?thesis
    by (auto simp: valkey_live_review_def decoded_def review_kept_def dest: review_expired_mono)
next
  case False
  with assms have "vk_read V t (review_prefix p @ r_id r) d' =
      vk_written now (remaining_ms (r_ttl r) (r_posted_at r) now) (enc_review C r) t"
    by (auto simp: valkey_put_review_def dest: set_read)
  with written_review [OF assms(2)] show ?thesis by (simp add: valkey_live_review_def)
qed

text \<open>
  Whatever other replicas do meanwhile, an update that reports success with a write replaced
  exactly the record its callback ran on, in the database of its window.
\<close>

lemma review_attempts_atomic:
  assumes "valkey_review_attempts n V C p mid now i f d = ((True, Some r, None), d')"
    and "f r = Some r'" and "by_reads V mid"
  shows "\<exists>d1 raw. same_reads V d1 (review_window n V mid now (review_prefix p @ i) d) \<and>
    vk_read V now (review_prefix p @ i) d1 = Some raw \<and> dec_review C raw = Some r \<and>
    vk_cas V now (review_prefix p @ i) raw (enc_review C r')
      (remaining_ms (r_ttl r') (r_posted_at r') now) d1 = (Inr True, d')"
  using assms(1,2)
proof (induction n arbitrary: d)
  case (Suc n)
  let ?x = "review_prefix p @ i"
  obtain x where x: "valkey_read_review V C p now i d = Inr x"
    using Suc.prems(1) by (auto split: sum.splits)
  with Suc.prems(1) obtain raw r0 where raw: "x = Some (raw, r0)"
    by (cases x) auto
  show ?case
  proof (cases "f r0")
    case None
    with Suc.prems x raw show ?thesis by auto
  next
    case (Some r1)
    obtain ans d1 where cas: "vk_cas V now ?x raw (enc_review C r1)
        (remaining_ms (r_ttl r1) (r_posted_at r1) now) (mid n d) = (ans, d1)" by fastforce
    have rd: "vk_read V now ?x d = Some raw" "dec_review C raw = Some r0"
      using read_review [OF x] raw by auto
    show ?thesis
    proof (cases "ans = Inr False")
      case True
      with cas have f: "vk_cas V now ?x raw (enc_review C r1)
        (remaining_ms (r_ttl r1) (r_posted_at r1) now) (mid n d) = (Inr False, d1)" by simp
      have same: "same_reads V d1 (mid n d)"
        using cas_other [OF cas] cas_false(2) [OF f] unfolding same_reads_def by metis
      have "vk_read V now ?x (mid n d) \<noteq> Some raw" using cas_false(1) [OF f] .
      with rd have w: "review_window (Suc n) V mid now ?x d = review_window n V mid now ?x (mid n d)" by simp
      from Suc.prems True x raw Some cas
      have "valkey_review_attempts n V C p mid now i f d1 = ((True, Some r, None), d')" by simp
      from Suc.IH [OF this Suc.prems(2)] obtain d2 raw' where d2:
        "same_reads V d2 (review_window n V mid now ?x d1)" "vk_read V now ?x d2 = Some raw'"
        "dec_review C raw' = Some r" "vk_cas V now ?x raw' (enc_review C r')
          (remaining_ms (r_ttl r') (r_posted_at r') now) d2 = (Inr True, d')"
        by blast
      from review_window_same [OF assms(3) same, of n now ?x] d2(1)
      have "same_reads V d2 (review_window (Suc n) V mid now ?x d)" unfolding w same_reads_def by metis
      with d2 show ?thesis by blast
    next
      case False
      with Suc.prems(1) x raw Some cas have "ans = Inr True" "r0 = r" "d1 = d'"
        by (auto split: sum.splits bool.splits)
      with Some Suc.prems(2) cas cas_true(1) [of now ?x raw] rd
      show ?thesis by (intro exI [of _ "mid n d"] exI [of _ raw]) (auto simp: same_reads_def)
    qed
  qed
qed simp

lemma update_review_other:
  "valkey_review_attempts n V C p (\<lambda>_ d. d) now i f d = (res, d') \<Longrightarrow> x \<noteq> review_prefix p @ i \<Longrightarrow>
   vk_read V t x d' = vk_read V t x d"
proof (induction n arbitrary: d)
  case (Suc n)
  obtain r where r: "valkey_read_review V C p now i d = r" by blast
  show ?case
  proof (cases "\<exists>raw r0 r1. r = Inr (Some (raw, r0)) \<and> f r0 = Some r1")
    case False
    with Suc.prems r show ?thesis by (auto split: sum.splits option.splits)
  next
    case True
    then obtain raw r0 r1 where e: "r = Inr (Some (raw, r0))" "f r0 = Some r1" by blast
    obtain ans d1 where cas: "vk_cas V now (review_prefix p @ i) raw (enc_review C r1)
        (remaining_ms (r_ttl r1) (r_posted_at r1) now) d = (ans, d1)" by fastforce
    from cas_other [OF cas Suc.prems(2)] have "vk_read V t x d1 = vk_read V t x d" .
    with Suc r e cas show ?thesis by (auto split: sum.splits bool.splits)
  qed
qed simp

text \<open>With no other replica the first attempt decides.\<close>

lemma update_review_cases:
  assumes "valkey_update_review V C p (\<lambda>_ d. d) now i f d = ((found, seen, err), d')"
  obtains (failed) e where "err = Some e"
    | (absent) "err = None" "\<not> found" "valkey_live_review V C p now d i = None" "d' = d"
    | (skipped) r where "err = None" "found" "seen = Some r"
        "valkey_live_review V C p now d i = Some r" "f r = None" "d' = d"
    | (written) r r' raw where "err = None" "found" "seen = Some r"
        "valkey_live_review V C p now d i = Some r" "f r = Some r'"
        "vk_cas V now (review_prefix p @ i) raw (enc_review C r')
          (remaining_ms (r_ttl r') (r_posted_at r') now) d = (Inr True, d')"
proof -
  have attempts: "review_update_attempts = Suc 7" by (simp add: review_update_attempts_def)
  from assms have u: "valkey_review_attempts (Suc 7) V C p (\<lambda>_ d. d) now i f d = ((found, seen, err), d')"
    by (simp add: valkey_update_review_def attempts)
  note u = u [unfolded valkey_review_attempts.simps(2)]
  show ?thesis
  proof (cases "valkey_read_review V C p now i d")
    case (Inl e)
    with u show ?thesis by (intro failed) auto
  next
    case (Inr x)
    note rd = read_review [OF Inr]
    show ?thesis
    proof (cases x)
      case None
      with u Inr rd show ?thesis by (intro absent) auto
    next
      case (Some y)
      then obtain raw r where y: "x = Some (raw, r)" by (cases y) auto
      show ?thesis
      proof (cases "f r")
        case None
        with u Inr rd y show ?thesis by (intro skipped [of r]) auto
      next
        case (Some r')
        obtain ans d1 where cas: "vk_cas V now (review_prefix p @ i) raw (enc_review C r')
            (remaining_ms (r_ttl r') (r_posted_at r') now) d = (ans, d1)" by fastforce
        from cas rd y cas_false(1) have "ans \<noteq> Inr False" by fastforce
        with u Inr rd y Some cas consider e where "err = Some e"
          | "ans = Inr True" "found" "seen = Some r" "err = None" "d1 = d'"
          by (auto split: sum.splits bool.splits)
        then show ?thesis
        proof cases
          case 1
          then show ?thesis by (rule failed)
        next
          case 2
          with rd y Some cas show ?thesis by (intro written [of r r' raw]) auto
        qed
      qed
    qed
  qed
qed

end

sublocale valkey_backend \<subseteq> revs: review_store "valkey_reviews V C p" "valkey_inv V p"
  "valkey_live_review V C p" "\<lambda>r. r" "10 ^ 6"
proof (unfold_locales, goal_cases)
  case (1 s now i x)
  then obtain y where y: "valkey_read_review V C p now i s = Inr y" "x = map_option snd y"
    by (cases "valkey_read_review V C p now i s") (auto simp: valkey_reviews_def valkey_get_review_def)
  from read_review [OF y(1)] y(2) show ?case by (auto split: option.splits)
next
  case (2 s now i r) then show ?case by (auto simp: valkey_live_review_def decoded_Some)
next
  case (3 s now r err s')
  then have "valkey_put_review V C p now r s = (err, s')" by (simp add: valkey_reviews_def)
  from put_review_other [OF this] show ?case by (rule inv_review [OF 3(1)])
next
  case (4 s now r s' t)
  then have "valkey_put_review V C p now r s = (None, s')" by (simp add: valkey_reviews_def)
  from put_review_live [OF this 4(3)] show ?case .
next
  case (5 s now r err s' i t)
  then have "valkey_put_review V C p now r s = (err, s')" by (simp add: valkey_reviews_def)
  from put_review_other [OF this, of "review_prefix p @ i" t] 5(3) show ?case
    by (simp add: valkey_live_review_def)
next
  case (6 s now i f found seen err s')
  then have "valkey_review_attempts review_update_attempts V C p (\<lambda>_ d. d) now i f s
      = ((found, seen, err), s')" by (simp add: valkey_reviews_def valkey_update_review_def)
  from update_review_other [OF this] show ?case by (rule inv_review [OF 6(1)])
next
  case (7 s now i f found seen err s' j t)
  then have "valkey_review_attempts review_update_attempts V C p (\<lambda>_ d. d) now i f s
      = ((found, seen, err), s')" by (simp add: valkey_reviews_def valkey_update_review_def)
  from update_review_other [OF this, of "review_prefix p @ j" t] 7(3) show ?case
    by (simp add: valkey_live_review_def)
next
  case (8 s now i f seen s')
  then have "valkey_update_review V C p (\<lambda>_ d. d) now i f s = ((False, seen, None), s')"
    by (simp add: valkey_reviews_def)
  then show ?case by (cases rule: update_review_cases) auto
next
  case (9 s now i f seen s')
  then have "valkey_update_review V C p (\<lambda>_ d. d) now i f s = ((True, seen, None), s')"
    by (simp add: valkey_reviews_def)
  then show ?case by (cases rule: update_review_cases) auto
next
  case (10 s now i f r s' t)
  then have "valkey_update_review V C p (\<lambda>_ d. d) now i f s = ((True, Some r, None), s')"
    by (simp add: valkey_reviews_def)
  then show ?case using 10(3) by (cases rule: update_review_cases) auto
next
  case (11 s now i f r s' r' t)
  then have "valkey_update_review V C p (\<lambda>_ d. d) now i f s = ((True, Some r, None), s')"
    by (simp add: valkey_reviews_def)
  then show ?case
  proof (cases rule: update_review_cases)
    case (written r0 r1 raw)
    from cas_true(2) [OF written(6) 11(4)] written(3,5) 11(3) written_review [OF 11(4) refl, of r']
    show ?thesis by (simp add: valkey_live_review_def)
  qed (use 11(3) in auto)
qed

subsection \<open>A server of pairs\<close>

text \<open>Each key with its value and the time it is dropped at, none for no expiry.\<close>

definition list_read :: "gotime \<Rightarrow> string \<Rightarrow> (string \<times> 'b \<times> gotime option) list \<Rightarrow> 'b option" where
  "list_read now k d =
     (case map_of d k of
        None \<Rightarrow> None
      | Some (v, None) \<Rightarrow> Some v
      | Some (v, Some t) \<Rightarrow> if now < t then Some v else None)"

definition list_set ::
  "gotime \<Rightarrow> string \<Rightarrow> 'b \<Rightarrow> int \<Rightarrow> (string \<times> 'b \<times> gotime option) list \<Rightarrow>
   (string \<times> 'b \<times> gotime option) list" where
  "list_set now k v px d =
     AList.update k (v, if px = 0 then None else Some (now + px * 10 ^ 6)) d"

definition list_server :: "((string \<times> 'b \<times> gotime option) list, 'b) valkey" where
  "list_server =
     \<lparr>vk_read = list_read,
      vk_get = (\<lambda>now k d. Inr (list_read now k d)),
      vk_set = (\<lambda>now k v px d. (None, list_set now k v px d)),
      vk_del = (\<lambda>now k d. (None, AList.delete k d)),
      vk_scan = (\<lambda>now pat d. Inr [filter (glob_match pat) (map fst d)]),
      vk_mget = (\<lambda>now ks d. Inr (map (\<lambda>k. list_read now k d) ks)),
      vk_cas = (\<lambda>now k old v px d.
        if list_read now k d = Some old then (Inr True, list_set now k v px d) else (Inr False, d))\<rparr>"

lemma list_read_set:
  "list_read t x (list_set now k v px d) = (if x = k then vk_written now px v t else list_read t x d)"
  by (simp add: list_read_def list_set_def vk_written_def)

lemma list_read_delete:
  "list_read t x (AList.delete k d) = (if x = k then None else list_read t x d)"
  by (simp add: list_read_def)

lemma list_read_key: "list_read t x d = Some v \<Longrightarrow> x \<in> fst ` set d"
  by (cases "map_of d x") (auto simp: list_read_def dest: map_of_SomeD intro: rev_image_eqI)

lemma list_server_laws: "vk_laws list_server"
  unfolding vk_laws_def list_server_def valkey.select_convs
  by (auto simp: list_read_set list_read_delete dest: list_read_key split: if_splits)

interpretation valkey_pairs: valkey_backend list_server plain_codec default_key_prefix
  by unfold_locales
    (simp_all add: list_server_laws plain_codec_laws default_key_prefix_def route_suffix_def suffix_def)

subsection \<open>Reads after writes\<close>

context valkey_backend begin

lemma update_then_get:
  assumes "valkey_update V C p now k f d = (seen, None, d')" and "valkey_get V C p now k d = Inr row"
    and "valkey_get V C p t k' d = Inr before" and "valkey_get V C p t k' d' = Inr after"
    and "now \<le> t"
  shows "seen = Some (shown row) \<and>
    (k' \<noteq> k \<or> case_prod f (shown row) = None \<longrightarrow> after = before) \<and>
    (\<forall>e. k' = k \<and> case_prod f (shown row) = Some e \<longrightarrow>
      (entry_expired e t \<longrightarrow> after = None) \<and>
      (e_last_seen e \<le> now \<and> e_ttl e < 2 ^ 63 - 1 \<and> \<not> entry_expired e (t + 10 ^ 6) \<longrightarrow>
        after = Some (json_norm e)))"
  using assms(1)
proof (cases rule: update_cases)
  case (skipped)
  with assms(2-4) show ?thesis by (auto dest!: get_live)
next
  case (written e)
  have other: "k' \<noteq> k \<Longrightarrow> valkey_live V C p t d' k' = valkey_live V C p t d k'"
    using put_other [OF written(3), of "vk_key p k'" t]
    by (simp add: valkey_live_def vk_key_def key_string_inj)
  note kept = put_live [OF written(3) assms(5)]
  from assms(2-4) written(1,2) other kept show ?thesis by (auto dest!: get_live)
qed simp

lemma attempts_atomic:
  assumes "valkey_update_review V C p others now i f d = ((True, Some r, None), d')"
    and "f r = Some r'" and "by_reads V others"
  shows "let x = review_prefix p @ i; d1 = review_window review_update_attempts V others now x d
    in map_option (dec_review C) (vk_read V now x d1) = Some (Some r) \<and>
      (\<forall>t\<ge>now. vk_read V t x d' =
         vk_written now (remaining_ms (r_ttl r') (r_posted_at r') now) (enc_review C r') t) \<and>
      (\<forall>t y. y \<noteq> x \<longrightarrow> vk_read V t y d' = vk_read V t y d1)"
proof -
  from review_attempts_atomic [OF assms(1) [unfolded valkey_update_review_def] assms(2,3)]
  obtain d1 raw where d1:
    "same_reads V d1 (review_window review_update_attempts V others now (review_prefix p @ i) d)"
    "vk_read V now (review_prefix p @ i) d1 = Some raw" "dec_review C raw = Some r"
    "vk_cas V now (review_prefix p @ i) raw (enc_review C r')
       (remaining_ms (r_ttl r') (r_posted_at r') now) d1 = (Inr True, d')"
    by blast
  with cas_true(2) [OF d1(4)] cas_other [OF d1(4)] show ?thesis by (simp add: Let_def same_reads_def)
qed

lemma claimed_once:
  assumes "valkey_inv V p d"
    and "valkey_update_review V C p (\<lambda>_ d. d) now i f d = ((True, Some r, None), d')"
    and "f r = Some r'" and "claimed r'" and "\<And>x. claimed x \<Longrightarrow> f x = None" and "now \<le> later"
    and "valkey_update_review V C p (\<lambda>_ d. d) later i f d' = ((True, seen, None), d'')"
  shows "\<exists>x. seen = Some x \<and> f x = None"
  using revs.claim_once [of d now i f r d' r' "\<lambda>x. \<not> claimed x" later seen d''] assms
  by (simp add: valkey_reviews_def)

end

text \<open>An open request under the id \<open>i\<close>, and the callback that claims one for \<open>who\<close>.\<close>

definition open_review :: "string \<Rightarrow> review" where
  "open_review i =
     \<lparr>r_id = i, r_channel = ''C1'', r_ts = ''1'', r_team = ''t'', r_text = ''x'', r_link = [],
      r_actor = [], r_pull_requests = [], r_tool = ''approve'', r_arguments = [], r_deny_tool = [],
      r_deny_arguments = [], r_decided_by = [], r_claimed_at = 0, r_done = False, r_denied = False,
      r_status = [], r_decision = None, r_conversation = None, r_refusal = None,
      r_posted_at = 1, r_ttl = 0\<rparr>"

definition claim_for :: "string \<Rightarrow> review \<Rightarrow> review option" where
  "claim_for who r = (if r_decided_by r = [] then Some (r\<lparr>r_decided_by := who\<rparr>) else None)"

subsection \<open>Properties\<close>

text \<open>C28: A thread's row written to Valkey is read back until it goes stale: up to one
  millisecond before its age reaches its TTL (the server expires keys in whole milliseconds), and
  never once it is stale; every other thread reads what it read before. The hypotheses are the
  documented behaviour of the server's commands and of the JSON codec, and a key prefix of the
  default's form.\<close>

theorem valkey_write_kept:
  assumes "vk_laws V" and "codec_laws C" and "suffix route_suffix p"
    and "valkey_update V C p now k f d = (seen, None, d')" and "valkey_get V C p now k d = Inr row"
    and "valkey_get V C p t k' d = Inr before" and "valkey_get V C p t k' d' = Inr after"
    and "now \<le> t"
  shows "seen = Some (shown row) \<and>
    (k' \<noteq> k \<or> case_prod f (shown row) = None \<longrightarrow> after = before) \<and>
    (\<forall>e. k' = k \<and> case_prod f (shown row) = Some e \<longrightarrow>
      (entry_expired e t \<longrightarrow> after = None) \<and>
      (e_last_seen e \<le> now \<and> e_ttl e < 2 ^ 63 - 1 \<and> \<not> entry_expired e (t + 10 ^ 6) \<longrightarrow>
        after = Some (json_norm e)))"
  using assms by (intro valkey_backend.update_then_get valkey_backend.intro)

theorem valkey_write_kept_witness:
  "valkey_get list_server plain_codec default_key_prefix 6 thread_a
     (snd (snd (valkey_update list_server plain_codec default_key_prefix 5 thread_a
        (\<lambda>_ _. Some (zero_entry\<lparr>e_agent_ref := ''a'', e_last_seen := 5, e_ttl := 10 ^ 7\<rparr>)) []))) =
   Inr (Some (zero_entry\<lparr>e_agent_ref := ''a'', e_last_seen := 5, e_ttl := 10 ^ 7\<rparr>))"
proof -
  let ?e = "zero_entry\<lparr>e_agent_ref := ''a'', e_last_seen := 5, e_ttl := 10 ^ 7\<rparr>"
  let ?u = "valkey_update list_server plain_codec default_key_prefix 5 thread_a (\<lambda>_ _. Some ?e) []"
  note ev = list_server_def list_read_def list_set_def plain_codec_def valkey_get_def
    valkey_update_def valkey_put_def entry_expired_def time_sub_def remaining_ms_def
    remaining_def min_expiry_def wrap64_def
  have suf: "suffix route_suffix default_key_prefix"
    by (simp add: default_key_prefix_def route_suffix_def suffix_def)
  have u: "?u = (Some (zero_entry, False), None, snd (snd ?u))"
    by (simp add: ev)
  have g: "valkey_get list_server plain_codec default_key_prefix t thread_a [] = Inr None" for t
    by (simp add: ev)
  obtain row where row:
    "valkey_get list_server plain_codec default_key_prefix 6 thread_a (snd (snd ?u)) = Inr row"
    by (simp add: ev)
  have "json_norm ?e = ?e" by (simp add: json_norm_def delivered_is_zero_def zero_delivered_def)
  moreover have "\<not> entry_expired ?e (6 + 10 ^ 6)" by (simp add: ev)
  ultimately have "row = Some ?e"
    using valkey_write_kept [OF list_server_laws plain_codec_laws suf u g g row] by simp
  with row show ?thesis by simp
qed

text \<open>C40: The SCAN of a \<open>List\<close> asks for exactly the keys under the configured prefix,
  whatever bytes the prefix contains.\<close>

theorem valkey_scan_exact:
  "glob_match (glob_escape p @ ''*'') x \<longleftrightarrow> (\<exists>rest. x = p @ rest)"
  by (simp add: scan_pattern prefix_def)

text \<open>C38: Every review record is outside the keys a \<open>List\<close> reads when the configured
  prefix ends in \<open>route:\<close>, and inside them when it does not: the comment of
  \<open>reviewPrefix\<close> promises the first for every prefix.\<close>

theorem valkey_reviews_outside_scan:
  "glob_match (glob_escape p @ ''*'') (review_prefix p @ i) \<longleftrightarrow> \<not> suffix route_suffix p"
  using review_prefix_beside [of p i] review_prefix_under [of p i] by (auto simp: scan_pattern)

text \<open>C25: \<open>UpdateReview\<close> is one step whatever other replicas write between the reads and the
  writes of its attempts. When it reports success for a callback that changed the record, it edited
  the database those writes made (\<open>review_window\<close>: the one at the end of the first attempt in
  which the record was left alone): the callback ran on the record that database holds, the changed
  record is what the key holds from then on, and every other key is as the other replicas left it.
  What the other replicas do depends on what the database reads, not on how it is represented.\<close>

theorem valkey_review_update_atomic:
  assumes "vk_laws V" and "codec_laws C" and "suffix route_suffix p"
    and "valkey_update_review V C p others now i f d = ((True, Some r, None), d')"
    and "f r = Some r'" and "by_reads V others"
  shows "let x = review_prefix p @ i; d1 = review_window review_update_attempts V others now x d
    in map_option (dec_review C) (vk_read V now x d1) = Some (Some r) \<and>
      (\<forall>t\<ge>now. vk_read V t x d' =
         vk_written now (remaining_ms (r_ttl r') (r_posted_at r') now) (enc_review C r') t) \<and>
      (\<forall>t y. y \<noteq> x \<longrightarrow> vk_read V t y d' = vk_read V t y d1)"
  using assms by (intro valkey_backend.attempts_atomic valkey_backend.intro)

text \<open>Another replica edits the text of the request during the first attempt, and posts another.\<close>

definition rival_review :: "nat \<Rightarrow> (string \<times> stored \<times> gotime option) list \<Rightarrow>
   (string \<times> stored \<times> gotime option) list" where
  "rival_review n d =
     (if n = 7 then
        list_set 5 (review_prefix default_key_prefix @ ''j'') (StoredReview (open_review ''j'')) 0
          (list_set 5 (review_prefix default_key_prefix @ ''i'')
             (StoredReview (open_review ''i''\<lparr>r_text := ''y''\<rparr>)) 0 d)
      else d)"

lemma rival_review_reads: "by_reads list_server rival_review"
  by (simp add: by_reads_def same_reads_def rival_review_def list_server_def list_read_set)

theorem valkey_review_update_atomic_witness:
  "let d' = snd (valkey_update_review list_server plain_codec default_key_prefix rival_review 5 ''i''
         (claim_for ''anna'') (list_set 5 (review_prefix default_key_prefix @ ''i'')
            (StoredReview (open_review ''i'')) 0 []))
   in list_read 6 (review_prefix default_key_prefix @ ''i'') d' =
        Some (StoredReview (open_review ''i''\<lparr>r_text := ''y'', r_decided_by := ''anna''\<rparr>)) \<and>
      list_read 6 (review_prefix default_key_prefix @ ''j'') d' = Some (StoredReview (open_review ''j''))"
proof -
  let ?x = "review_prefix default_key_prefix @ ''i''"
  let ?other = "open_review ''i''\<lparr>r_text := ''y''\<rparr>"
  let ?d = "list_set 5 ?x (StoredReview (open_review ''i'')) 0 []"
  let ?run = "valkey_update_review list_server plain_codec default_key_prefix rival_review 5 ''i''
      (claim_for ''anna'') ?d"
  have seven: "review_update_attempts = Suc (Suc 6)" by (simp add: review_update_attempts_def)
  note ev = list_server_def list_read_def list_set_def plain_codec_def valkey_read_review_def
    claim_for_def review_expired_def open_review_def remaining_ms_def remaining_def rival_review_def
  have u: "?run = ((True, Some ?other, None), snd ?run)"
    unfolding valkey_update_review_def seven valkey_review_attempts.simps(2) by (simp add: ev)
  have c: "claim_for ''anna'' ?other = Some (?other\<lparr>r_decided_by := ''anna''\<rparr>)"
    by (simp add: claim_for_def open_review_def)
  have suf: "suffix route_suffix default_key_prefix"
    by (simp add: default_key_prefix_def route_suffix_def suffix_def)
  have w: "review_window review_update_attempts list_server rival_review 5 ?x ?d = rival_review 7 ?d"
    unfolding seven review_window.simps(2) by (simp add: ev)
  note r = valkey_review_update_atomic [OF list_server_laws plain_codec_laws suf u c rival_review_reads,
      unfolded Let_def w]
  have "list_read 6 (review_prefix default_key_prefix @ ''j'') (rival_review 7 ?d) =
      Some (StoredReview (open_review ''j''))"
    by (simp add: rival_review_def list_read_set vk_written_def)
  with r show ?thesis
    by (simp add: Let_def list_server_def vk_written_def remaining_ms_def remaining_def open_review_def plain_codec_def)
qed

text \<open>A request is claimed once. When one claim has reported success, every later claim
  of the same request that reports a record back was declined by its own callback, for as long as
  the record is kept.\<close>

theorem valkey_review_claimed_once:
  assumes "vk_laws V" and "codec_laws C" and "suffix route_suffix p" and "valkey_inv V p d"
    and "valkey_update_review V C p (\<lambda>_ d. d) now i f d = ((True, Some r, None), d')"
    and "f r = Some r'" and "claimed r'" and "\<And>x. claimed x \<Longrightarrow> f x = None" and "now \<le> later"
    and "valkey_update_review V C p (\<lambda>_ d. d) later i f d' = ((True, seen, None), d'')"
  shows "\<exists>x. seen = Some x \<and> f x = None"
  using assms by (intro valkey_backend.claimed_once [OF valkey_backend.intro]) auto

text \<open>C28: \<open>List\<close> over Valkey gives exactly the threads whose row is live, each under the
  key \<open>ParseKey\<close> reads back, however the SCAN cut them into pages and however often it
  repeated one.\<close>

theorem valkey_list_complete:
  assumes "vk_laws V" and "codec_laws C" and "suffix route_suffix p" and "valkey_inv V p d"
    and "valkey_list V C p now d = Inr rows"
  shows "set rows = {(listed_key k, e) | k e. valkey_live V C p now d k = Some e}"
  using assms by (intro valkey_backend.list_live_rows valkey_backend.intro)

theorem valkey_review_claimed_once_witness:
  "\<exists>d' x. valkey_update_review list_server plain_codec default_key_prefix (\<lambda>_ d. d) 6 ''i''
       (claim_for ''bob'') d' = ((True, Some x, None), d') \<and> r_decided_by x = ''anna'' \<and>
     claim_for ''anna'' x = None"
proof -
  let ?x = "review_prefix default_key_prefix @ ''i''"
  let ?d = "list_set 5 ?x (StoredReview (open_review ''i'')) 0 []"
  let ?claimed = "open_review ''i''\<lparr>r_decided_by := ''anna''\<rparr>"
  let ?d' = "list_set 5 ?x (StoredReview ?claimed) 0 ?d"
  let ?again = "\<lambda>who. valkey_update_review list_server plain_codec default_key_prefix (\<lambda>_ d. d) 6 ''i''
       (claim_for who)"
  have attempts: "review_update_attempts = Suc 7" by (simp add: review_update_attempts_def)
  note ev = list_server_def list_read_def list_set_def plain_codec_def valkey_read_review_def
    claim_for_def review_expired_def open_review_def remaining_ms_def remaining_def
  have suf: "suffix route_suffix default_key_prefix"
    by (simp add: default_key_prefix_def route_suffix_def suffix_def)
  have inv: "valkey_inv list_server default_key_prefix ?d"
    using review_prefix_beside [OF suf, of "''i''"]
    by (auto simp: valkey_inv_def list_server_def list_read_def list_set_def prefix_def) metis
  have first: "valkey_update_review list_server plain_codec default_key_prefix (\<lambda>_ d. d) 5 ''i''
       (claim_for ''anna'') ?d = ((True, Some (open_review ''i''), None), ?d')"
    unfolding valkey_update_review_def attempts valkey_review_attempts.simps(2) by (simp add: ev)
  have again: "?again who ?d' = ((True, Some ?claimed, None), ?d')" for who
    unfolding valkey_update_review_def attempts valkey_review_attempts.simps(2) by (simp add: ev)
  have "claim_for ''anna'' (open_review ''i'') = Some ?claimed"
    by (simp add: claim_for_def open_review_def)
  from valkey_review_claimed_once [OF list_server_laws plain_codec_laws suf inv first this,
      of "\<lambda>x. r_decided_by x \<noteq> []" 6, OF _ _ _ again]
  have "claim_for ''anna'' ?claimed = None" by (simp add: claim_for_def)
  with again [of "''bob''"] show ?thesis by (intro exI [of _ ?d'] exI [of _ ?claimed]) simp
qed

theorem valkey_list_complete_witness:
  "set (case valkey_list list_server plain_codec default_key_prefix 5
      [(default_key_prefix @ key_string thread_a, StoredEntry (zero_entry\<lparr>e_instance := ''i''\<rparr>), None)] of
      Inr rows \<Rightarrow> rows | Inl _ \<Rightarrow> []) =
    {(listed_key k', e) | k' e. valkey_live list_server plain_codec default_key_prefix 5
      [(default_key_prefix @ key_string thread_a, StoredEntry (zero_entry\<lparr>e_instance := ''i''\<rparr>), None)] k' = Some e}"
proof -
  let ?d = "[(default_key_prefix @ key_string thread_a, StoredEntry (zero_entry\<lparr>e_instance := ''i''\<rparr>), None)]"
  have suf: "suffix route_suffix default_key_prefix"
    by (simp add: default_key_prefix_def route_suffix_def suffix_def)
  have inv: "valkey_inv list_server default_key_prefix ?d"
    by (auto simp: valkey_inv_def list_server_def list_read_def split: if_splits)
  have scan: "valkey_scan list_server default_key_prefix 5 ?d = Inr [default_key_prefix @ key_string thread_a]"
    by (simp add: valkey_scan_def list_server_def scan_pattern)
  obtain rows where rows: "valkey_list list_server plain_codec default_key_prefix 5 ?d = Inr rows"
    unfolding valkey_list_def scan by (simp add: valkey_batches.simps list_server_def list_read_def
        mget_batch_def plain_codec_def entry_expired_def parse_key_listed)
  from valkey_list_complete [OF list_server_laws plain_codec_laws suf inv rows] rows
  show ?thesis by simp
qed

end
