(* ===== verification/LinkStore.thy ===== *)
theory LinkStore
  imports BoltStore Seal
begin

section \<open>The stores of account links\<close>

text \<open>
  \<open>pkg/auth/musterlink/store.go\<close>, \<open>store_secret.go\<close> and \<open>store_import.go\<close>. A link
  ties a Slack user to a muster identity; it holds the rotating refresh token, the cached id_token
  and the refresh lease. A store answers \<open>Get\<close> with the link or with \<open>ErrNotLinked\<close>
  (here \<open>Inr None\<close>), and fails with the backend's error, \<open>StoreConflict\<close> being
  \<open>errStoreConflict\<close>. The callback of an \<open>Update\<close> answers \<open>None\<close> to leave the
  store as it is, \<open>Some None\<close> to delete the link and \<open>Some (Some l)\<close> to write \<open>l\<close>.
\<close>

record lease =
  le_holder :: string
  le_until :: gotime

record link =
  li_sub :: string
  li_email :: string
  li_refresh :: string
  li_linked_at :: gotime
  li_id_token :: string
  li_expiry :: gotime
  li_lease :: "lease option"

datatype link_error = StoreConflict | StoreDown string

type_synonym link_fn = "link option \<Rightarrow> link option option"

text \<open>The operations; \<open>lk_update\<close> also gives what the callback saw when it ran last.\<close>

record 's link_ops =
  lk_get :: "string \<Rightarrow> 's \<Rightarrow> link_error + link option"
  lk_put :: "string \<Rightarrow> link \<Rightarrow> 's \<Rightarrow> link_error option \<times> 's"
  lk_delete :: "string \<Rightarrow> 's \<Rightarrow> link_error option \<times> 's"
  lk_update :: "string \<Rightarrow> link_fn \<Rightarrow> 's \<Rightarrow> link option option \<times> link_error option \<times> 's"

text \<open>
  The contract, read off the comment of \<open>Store\<close>: \<open>cur s u\<close> is the link stored for
  \<open>u\<close>. A write that fails leaves the store as it was.
\<close>

definition apply_link :: "link option option \<Rightarrow> link option \<Rightarrow> link option" where
  "apply_link answer current = (case answer of None \<Rightarrow> current | Some next \<Rightarrow> next)"

locale link_store =
  fixes ops :: "'s link_ops" and cur :: "'s \<Rightarrow> string \<Rightarrow> link option"
  assumes get_cur: "lk_get ops u s = Inr x \<Longrightarrow> x = cur s u"
    and put_ok: "lk_put ops u l s = (None, s') \<Longrightarrow> cur s' = (cur s)(u := Some l)"
    and put_err: "lk_put ops u l s = (Some e, s') \<Longrightarrow> cur s' = cur s"
    and delete_ok: "lk_delete ops u s = (None, s') \<Longrightarrow> cur s' = (cur s)(u := None)"
    and delete_err: "lk_delete ops u s = (Some e, s') \<Longrightarrow> cur s' = cur s"
    and update_ok: "lk_update ops u fn s = (seen, None, s') \<Longrightarrow>
      seen = Some (cur s u) \<and> cur s' = (cur s)(u := apply_link (fn (cur s u)) (cur s u))"
    and update_err: "lk_update ops u fn s = (seen, Some e, s') \<Longrightarrow> cur s' = cur s"
begin

text \<open>Another user's link is nobody's business.\<close>

lemma update_frame:
  "lk_update ops u fn s = (seen, err, s') \<Longrightarrow> v \<noteq> u \<Longrightarrow> cur s' v = cur s v"
  by (cases err) (auto dest: update_ok update_err)

lemma put_frame: "lk_put ops u l s = (err, s') \<Longrightarrow> v \<noteq> u \<Longrightarrow> cur s' v = cur s v"
  by (cases err) (auto dest: put_ok put_err)

end

subsection \<open>MemStore\<close>

definition links_get :: "string \<Rightarrow> (string \<times> link) list \<Rightarrow> link_error + link option" where
  "links_get u m = (case map_of m u of None \<Rightarrow> Inr None | Some l \<Rightarrow> Inr (Some l))"

definition links_put ::
  "string \<Rightarrow> link \<Rightarrow> (string \<times> link) list \<Rightarrow> link_error option \<times> (string \<times> link) list" where
  "links_put u l m = (None, AList.update u l m)"

definition links_delete ::
  "string \<Rightarrow> (string \<times> link) list \<Rightarrow> link_error option \<times> (string \<times> link) list" where
  "links_delete u m = (None, AList.delete u m)"

definition links_update ::
  "string \<Rightarrow> link_fn \<Rightarrow> (string \<times> link) list \<Rightarrow>
   link option option \<times> link_error option \<times> (string \<times> link) list" where
  "links_update u fn m =
     (let current = map_of m u
      in case fn current of
           None \<Rightarrow> (Some current, None, m)
         | Some None \<Rightarrow> (Some current, None, AList.delete u m)
         | Some (Some l) \<Rightarrow> (Some current, None, AList.update u l m))"

definition mem_links :: "(string \<times> link) list link_ops" where
  "mem_links =
     \<lparr>lk_get = links_get, lk_put = links_put, lk_delete = links_delete, lk_update = links_update\<rparr>"

interpretation mem_lk: link_store mem_links map_of
  by unfold_locales
    (auto simp: mem_links_def links_get_def links_put_def links_delete_def links_update_def Let_def
      apply_link_def fun_eq_iff AList.delete_conv split: option.splits)

subsection \<open>linkCipher\<close>

text \<open>
  The JSON coding of a link is a parameter: \<open>enc\<close> and \<open>dec\<close> are \<open>json.Marshal\<close> and
  \<open>json.Unmarshal\<close> on a \<open>Link\<close>.
\<close>

record cipher =
  ci_aead :: aead
  ci_enc :: "link \<Rightarrow> string"
  ci_dec :: "string \<Rightarrow> link option"

definition seal_link :: "cipher \<Rightarrow> string option \<Rightarrow> link \<Rightarrow> string + string" where
  "seal_link c nonce l =
     (case nonce of
        None \<Rightarrow> Inl ''nonce''
      | Some n \<Rightarrow> Inr (n @ ae_seal (ci_aead c) n (ci_enc c l) []))"

definition open_link :: "cipher \<Rightarrow> string \<Rightarrow> string + link" where
  "open_link c rec =
     (let ns = ae_nonce_size (ci_aead c)
      in if length rec < ns then Inl ''record shorter than nonce''
         else case ae_open (ci_aead c) (take ns rec) (drop ns rec) [] of
                None \<Rightarrow> Inl ''decrypt link''
              | Some p \<Rightarrow> (case ci_dec c p of None \<Rightarrow> Inl ''unmarshal link'' | Some l \<Rightarrow> Inr l))"

definition cipher_laws :: "cipher \<Rightarrow> bool" where
  "cipher_laws c \<longleftrightarrow> aead_laws (ci_aead c) \<and> (\<forall>l. ci_dec c (ci_enc c l) = Some l)"

lemma open_seal_link:
  assumes "cipher_laws c" and "seal_link c (Some n) l = Inr rec" and "length n = ae_nonce_size (ci_aead c)"
  shows "open_link c rec = Inr l"
proof -
  from assms(1,3) have "ae_open (ci_aead c) n (ae_seal (ci_aead c) n (ci_enc c l) []) [] = Some (ci_enc c l)"
    unfolding cipher_laws_def aead_laws_def by metis
  with assms show ?thesis by (auto simp: seal_link_def open_link_def cipher_laws_def Let_def)
qed

text \<open>A record that does not decode reads as no link: a new sign-in overwrites it.\<close>

definition decoded_link :: "cipher \<Rightarrow> string option \<Rightarrow> link option" where
  "decoded_link c v =
     (case v of
        None \<Rightarrow> None
      | Some rec \<Rightarrow> (case open_link c rec of Inl _ \<Rightarrow> None | Inr l \<Rightarrow> Some l))"

end
