(* ===== verification/LinkBackends.thy ===== *)
theory LinkBackends
  imports LinkStore
begin

section \<open>The persistent link stores\<close>

text \<open>
  The bbolt file and the Kubernetes Secret of \<open>pkg/auth/musterlink\<close>, each record sealed by the
  link cipher. The bbolt database is the parameter of BoltStore. The nonce of a write is an argument.
\<close>

subsection \<open>BoltStore\<close>

definition link_bucket :: string where "link_bucket = ''musterlinks''"

definition bolt_link_get ::
  "('d, string) bolt_db \<Rightarrow> cipher \<Rightarrow> string \<Rightarrow> 'd \<Rightarrow> link_error + link option" where
  "bolt_link_get db c u d =
     (case bd_view db d of
        Some err \<Rightarrow> Inl (StoreDown err)
      | None \<Rightarrow> Inr (decoded_link c (bd_get db link_bucket u d)))"

definition down :: "string option \<Rightarrow> link_error option" where
  "down err = map_option StoreDown err"

definition bolt_link_put ::
  "('d, string) bolt_db \<Rightarrow> cipher \<Rightarrow> string option \<Rightarrow> string \<Rightarrow> link \<Rightarrow> 'd \<Rightarrow> link_error option \<times> 'd" where
  "bolt_link_put db c nonce u l d =
     (case seal_link c nonce l of
        Inl err \<Rightarrow> (Some (StoreDown err), d)
      | Inr rec \<Rightarrow>
          (let (_, err, d') = bolt_tx db (\<lambda>d. ((), bd_put db link_bucket u rec d)) d
           in (down err, d')))"

definition bolt_link_delete ::
  "('d, string) bolt_db \<Rightarrow> string \<Rightarrow> 'd \<Rightarrow> link_error option \<times> 'd" where
  "bolt_link_delete db u d =
     (let (_, err, d') = bolt_tx db (\<lambda>d. ((), bd_delete db link_bucket u d)) d in (down err, d'))"

definition bolt_link_update ::
  "('d, string) bolt_db \<Rightarrow> cipher \<Rightarrow> string option \<Rightarrow> string \<Rightarrow> link_fn \<Rightarrow> 'd \<Rightarrow>
   link option option \<times> link_error option \<times> 'd" where
  "bolt_link_update db c nonce u fn d =
     (let (seen, err, d') =
        bolt_tx db (\<lambda>d.
          let current = decoded_link c (bd_get db link_bucket u d)
          in (Some current,
              case fn current of
                None \<Rightarrow> Inr d
              | Some None \<Rightarrow> bd_delete db link_bucket u d
              | Some (Some l) \<Rightarrow>
                  (case seal_link c nonce l of
                     Inl err \<Rightarrow> Inl err
                   | Inr rec \<Rightarrow> bd_put db link_bucket u rec d))) d
      in (seen, down err, d'))"

text \<open>\<open>Each\<close>: every record that decodes, in the bucket's order.\<close>

definition bolt_link_each ::
  "('d, string) bolt_db \<Rightarrow> cipher \<Rightarrow> 'd \<Rightarrow> (string \<times> link) list" where
  "bolt_link_each db c d =
     concat (map (\<lambda>(u, rec). case open_link c rec of Inl _ \<Rightarrow> [] | Inr l \<Rightarrow> [(u, l)])
       (bd_each db link_bucket d))"

definition bolt_link_ops :: "('d, string) bolt_db \<Rightarrow> cipher \<Rightarrow> string option \<Rightarrow> 'd link_ops" where
  "bolt_link_ops db c nonce =
     \<lparr>lk_get = bolt_link_get db c, lk_put = bolt_link_put db c nonce,
      lk_delete = bolt_link_delete db, lk_update = bolt_link_update db c nonce\<rparr>"

definition bolt_link_cur :: "('d, string) bolt_db \<Rightarrow> cipher \<Rightarrow> 'd \<Rightarrow> string \<Rightarrow> link option" where
  "bolt_link_cur db c d u = decoded_link c (bd_get db link_bucket u d)"

text \<open>The nonce the random source gave, when it gave one, has the cipher's size.\<close>

definition nonce_ok :: "cipher \<Rightarrow> string option \<Rightarrow> bool" where
  "nonce_ok c nonce \<longleftrightarrow> (\<forall>n. nonce = Some n \<longrightarrow> length n = ae_nonce_size (ci_aead c))"

lemma decoded_sealed:
  assumes "cipher_laws c" and "nonce_ok c nonce" and "seal_link c nonce l = Inr rec"
  shows "decoded_link c (Some rec) = Some l"
proof -
  obtain n where n: "nonce = Some n" using assms(3) by (auto simp: seal_link_def split: option.splits)
  with assms open_seal_link [of c n l rec] show ?thesis
    by (simp add: decoded_link_def nonce_ok_def)
qed

lemma decoded_none [simp]: "decoded_link c None = None"
  by (simp add: decoded_link_def)

locale bolt_links =
  fixes db :: "('d, string) bolt_db" and c :: cipher and nonce :: "string option"
  assumes db_laws: "bolt_laws db" and ci_laws: "cipher_laws c" and nonce: "nonce_ok c nonce"
begin

lemma put_cur:
  assumes "bd_put db link_bucket u rec d = Inr d'" and "seal_link c nonce l = Inr rec"
  shows "bolt_link_cur db c d' = (bolt_link_cur db c d)(u := Some l)"
proof -
  have "bd_get db link_bucket v d' = (if v = u then Some rec else bd_get db link_bucket v d)" for v
    using db_laws assms(1) unfolding bolt_laws_def by (elim conjE) metis
  with decoded_sealed [OF ci_laws nonce assms(2)] show ?thesis
    by (auto simp: bolt_link_cur_def fun_eq_iff)
qed

lemma delete_cur:
  assumes "bd_delete db link_bucket u d = Inr d'"
  shows "bolt_link_cur db c d' = (bolt_link_cur db c d)(u := None)"
proof -
  have "bd_get db link_bucket v d' = (if v = u then None else bd_get db link_bucket v d)" for v
    using db_laws assms(1) unfolding bolt_laws_def by (elim conjE) metis
  then show ?thesis by (auto simp: bolt_link_cur_def fun_eq_iff)
qed

lemma cur_cong: "(\<And>k. bd_get db link_bucket k d' = bd_get db link_bucket k d) \<Longrightarrow>
  bolt_link_cur db c d' = bolt_link_cur db c d"
  by (auto simp: bolt_link_cur_def fun_eq_iff)

lemma tx_cur:
  assumes "bolt_tx db tx d = (x, err, d')"
  shows "err = None \<Longrightarrow> \<exists>d1. tx d = (x, Inr d1) \<and> bolt_link_cur db c d' = bolt_link_cur db c d1"
    and "err = Some e \<Longrightarrow> bolt_link_cur db c d' = bolt_link_cur db c d"
proof -
  have commit: "bd_commit db d d1 = (err, d2) \<Longrightarrow>
      bd_get db b k d2 = bd_get db b k (if err = None then d1 else d)" for d d1 d2 err b k
    using db_laws unfolding bolt_laws_def by (elim conjE) metis
  show "err = None \<Longrightarrow> \<exists>d1. tx d = (x, Inr d1) \<and> bolt_link_cur db c d' = bolt_link_cur db c d1"
    and "err = Some e \<Longrightarrow> bolt_link_cur db c d' = bolt_link_cur db c d"
    using assms commit [of d _ err d']
    by (auto simp: bolt_tx_def intro!: cur_cong split: prod.splits sum.splits)
qed

end

sublocale bolt_links \<subseteq> bolt_lk: link_store "bolt_link_ops db c nonce" "bolt_link_cur db c"
proof (unfold_locales, goal_cases)
  case (1 u s x) then show ?case
    by (auto simp: bolt_link_ops_def bolt_link_get_def bolt_link_cur_def split: option.splits)
next
  case (2 u l s s')
  then obtain rec where r: "seal_link c nonce l = Inr rec"
    "bolt_tx db (\<lambda>d. ((), bd_put db link_bucket u rec d)) s = ((), None, s')"
    by (auto simp: bolt_link_ops_def bolt_link_put_def down_def split: sum.splits prod.splits)
  from tx_cur(1) [OF r(2)] put_cur [OF _ r(1)] show ?case by auto
next
  case (3 u l s e s')
  show ?case
  proof (cases "seal_link c nonce l")
    case (Inl a) with 3 show ?thesis by (simp add: bolt_link_ops_def bolt_link_put_def)
  next
    case (Inr rec)
    with 3 obtain err where "bolt_tx db (\<lambda>d. ((), bd_put db link_bucket u rec d)) s = ((), Some err, s')"
      by (auto simp: bolt_link_ops_def bolt_link_put_def down_def split: prod.splits)
    from tx_cur(2) [OF this] show ?thesis by simp
  qed
next
  case (4 u s s')
  then have r: "bolt_tx db (\<lambda>d. ((), bd_delete db link_bucket u d)) s = ((), None, s')"
    by (auto simp: bolt_link_ops_def bolt_link_delete_def down_def split: prod.splits)
  from tx_cur(1) [OF r] delete_cur show ?case by auto
next
  case (5 u s e s')
  then obtain err where r: "bolt_tx db (\<lambda>d. ((), bd_delete db link_bucket u d)) s = ((), Some err, s')"
    by (auto simp: bolt_link_ops_def bolt_link_delete_def down_def split: prod.splits)
  from tx_cur(2) [OF r] show ?case by simp
next
  case (6 u fn s seen s')
  let ?cur = "decoded_link c (bd_get db link_bucket u s)"
  let ?tx = "\<lambda>d. let current = decoded_link c (bd_get db link_bucket u d)
          in (Some current,
              case fn current of
                None \<Rightarrow> Inr d
              | Some None \<Rightarrow> bd_delete db link_bucket u d
              | Some (Some l) \<Rightarrow>
                  (case seal_link c nonce l of
                     Inl err \<Rightarrow> Inl err
                   | Inr rec \<Rightarrow> bd_put db link_bucket u rec d))"
  from 6 have r: "bolt_tx db ?tx s = (seen, None, s')"
    by (auto simp: bolt_link_ops_def bolt_link_update_def down_def split: prod.splits)
  from tx_cur(1) [OF r] obtain d1 where d1: "?tx s = (seen, Inr d1)"
    "bolt_link_cur db c s' = bolt_link_cur db c d1" by auto
  have c: "?cur = bolt_link_cur db c s u" by (simp add: bolt_link_cur_def)
  have "bolt_link_cur db c d1 = (bolt_link_cur db c s)(u := apply_link (fn ?cur) ?cur)"
    using d1(1) by (auto simp: Let_def apply_link_def c put_cur delete_cur split: option.splits sum.splits)
  with d1 c show ?case by (simp add: Let_def)
next
  case (7 u fn s seen e s')
  then obtain err x where "bolt_tx db x s = (seen, Some err, s')"
    by (auto simp: bolt_link_ops_def bolt_link_update_def down_def split: prod.splits)
  from tx_cur(2) [OF this] show ?case by simp
qed

subsection \<open>SecretStore\<close>

text \<open>
  One Secret holds a record per user. The Kubernetes API is a parameter: \<open>sx_get\<close> reads the
  Secret with its resourceVersion, \<open>sx_update\<close> replaces its data if the version is still the
  current one and answers a conflict exactly when it is not. The version identifies the data. A
  request the server refuses, or that times out, is taken to have changed nothing, as the comments
  of \<open>mutate\<close> take it.
\<close>

datatype update_answer = Updated | Conflict | Refused string

record ('k, 'v) secret_api =
  sx_data :: "'k \<Rightarrow> (string \<times> string) list"
  sx_version :: "'k \<Rightarrow> 'v"
  sx_get :: "'k \<Rightarrow> string + 'v \<times> (string \<times> string) list"
  sx_update :: "'v \<Rightarrow> (string \<times> string) list \<Rightarrow> 'k \<Rightarrow> update_answer \<times> 'k"

definition secret_laws :: "('k, 'v) secret_api \<Rightarrow> bool" where
  "secret_laws A \<longleftrightarrow>
     (\<forall>k v d. sx_get A k = Inr (v, d) \<longrightarrow> v = sx_version A k \<and> d = sx_data A k) \<and>
     (\<forall>k k'. sx_version A k = sx_version A k' \<longrightarrow> sx_data A k = sx_data A k') \<and>
     (\<forall>k v d k'. sx_update A v d k = (Updated, k') \<longrightarrow> v = sx_version A k \<and> sx_data A k' = d) \<and>
     (\<forall>k v d k'. sx_update A v d k = (Conflict, k') \<longrightarrow> v \<noteq> sx_version A k \<and> k' = k) \<and>
     (\<forall>k v d ans k'. sx_update A v d k = (ans, k') \<longrightarrow> ans \<noteq> Updated \<longrightarrow> sx_data A k' = sx_data A k)"

text \<open>
  \<open>mutate\<close>: \<open>others n\<close> is what other processes do to the Secret between the read and the
  write of the attempt with \<open>n\<close> left after it. The callback also gives what it read.
\<close>

fun secret_mutate ::
  "nat \<Rightarrow> ('k, 'v) secret_api \<Rightarrow> (nat \<Rightarrow> 'k \<Rightarrow> 'k) \<Rightarrow>
   ((string \<times> string) list \<Rightarrow> 'x \<times> (string \<times> string) list option) \<Rightarrow> 'k \<Rightarrow>
   'x option \<times> link_error option \<times> 'k" where
  "secret_mutate 0 A others fn k = (None, Some StoreConflict, k)"
| "secret_mutate (Suc n) A others fn k =
     (case sx_get A k of
        Inl err \<Rightarrow> (None, Some (StoreDown err), k)
      | Inr (v, data) \<Rightarrow>
          (case fn data of
             (x, None) \<Rightarrow> (Some x, None, k)
           | (x, Some data') \<Rightarrow>
               (case sx_update A v data' (others n k) of
                  (Updated, k') \<Rightarrow> (Some x, None, k')
                | (Refused err, k') \<Rightarrow> (Some x, Some (StoreDown err), k')
                | (Conflict, k') \<Rightarrow> secret_mutate n A others fn k')))"

definition secret_retries :: nat where "secret_retries = 5"

definition secret_get :: "('k, 'v) secret_api \<Rightarrow> cipher \<Rightarrow> string \<Rightarrow> 'k \<Rightarrow> link_error + link option" where
  "secret_get A c u k =
     (case sx_get A k of
        Inl err \<Rightarrow> Inl (StoreDown err)
      | Inr (v, data) \<Rightarrow> Inr (decoded_link c (map_of data u)))"

definition secret_put ::
  "('k, 'v) secret_api \<Rightarrow> cipher \<Rightarrow> string option \<Rightarrow> (nat \<Rightarrow> 'k \<Rightarrow> 'k) \<Rightarrow> string \<Rightarrow> link \<Rightarrow> 'k \<Rightarrow>
   link_error option \<times> 'k" where
  "secret_put A c nonce others u l k =
     (case seal_link c nonce l of
        Inl err \<Rightarrow> (Some (StoreDown err), k)
      | Inr rec \<Rightarrow>
          snd (secret_mutate secret_retries A others (\<lambda>data. ((), Some (AList.update u rec data))) k))"

definition secret_delete ::
  "('k, 'v) secret_api \<Rightarrow> (nat \<Rightarrow> 'k \<Rightarrow> 'k) \<Rightarrow> string \<Rightarrow> 'k \<Rightarrow> link_error option \<times> 'k" where
  "secret_delete A others u k =
     snd (secret_mutate secret_retries A others (\<lambda>data. ((),
       if map_of data u = None then None else Some (AList.delete u data))) k)"

text \<open>The callback of \<open>Update\<close>: what it saw, the error sealing its answer, and the new data.\<close>

definition update_data ::
  "cipher \<Rightarrow> string option \<Rightarrow> string \<Rightarrow> link_fn \<Rightarrow> (string \<times> string) list \<Rightarrow>
   (link option \<times> string option) \<times> (string \<times> string) list option" where
  "update_data c nonce u fn data =
     (let current = decoded_link c (map_of data u)
      in case fn current of
           None \<Rightarrow> ((current, None), None)
         | Some None \<Rightarrow>
             ((current, None), if map_of data u = None then None else Some (AList.delete u data))
         | Some (Some l) \<Rightarrow>
             (case seal_link c nonce l of
                Inl err \<Rightarrow> ((current, Some err), None)
              | Inr rec \<Rightarrow> ((current, None), Some (AList.update u rec data))))"

definition secret_update ::
  "('k, 'v) secret_api \<Rightarrow> cipher \<Rightarrow> string option \<Rightarrow> (nat \<Rightarrow> 'k \<Rightarrow> 'k) \<Rightarrow> string \<Rightarrow> link_fn \<Rightarrow> 'k \<Rightarrow>
   link option option \<times> link_error option \<times> 'k" where
  "secret_update A c nonce others u fn k =
     (case secret_mutate secret_retries A others (update_data c nonce u fn) k of
        (x, Some err, k') \<Rightarrow> (map_option fst x, Some err, k')
      | (x, None, k') \<Rightarrow>
          (map_option fst x, (case x of Some (_, Some err) \<Rightarrow> Some (StoreDown err) | _ \<Rightarrow> None), k'))"

text \<open>\<open>Import\<close>: links the Secret already holds win.\<close>

fun import_data :: "(string \<times> string) list \<Rightarrow> (string \<times> string) list \<Rightarrow> nat \<times> (string \<times> string) list" where
  "import_data [] data = (0, data)"
| "import_data ((u, rec) # recs) data =
     (if map_of data u \<noteq> None then import_data recs data
      else (let (n, data') = import_data recs (AList.update u rec data) in (Suc n, data')))"

lemma import_data_map:
  "map_of (snd (import_data recs data)) u = (case map_of data u of None \<Rightarrow> map_of recs u | Some rec \<Rightarrow> Some rec)"
  by (induction recs data rule: import_data.induct)
    (auto simp: Let_def split: prod.splits option.splits if_splits)

lemma import_data_zero: "fst (import_data recs data) = 0 \<Longrightarrow> snd (import_data recs data) = data"
  by (induction recs data rule: import_data.induct) (auto simp: Let_def split: prod.splits if_splits)

text \<open>Every link is sealed, each under its own nonce, before the Secret is touched.\<close>

fun seal_all ::
  "cipher \<Rightarrow> (string \<Rightarrow> string option) \<Rightarrow> (string \<times> link) list \<Rightarrow> string + (string \<times> string) list" where
  "seal_all c nonces [] = Inr []"
| "seal_all c nonces ((u, l) # links) =
     (case seal_link c (nonces u) l of
        Inl err \<Rightarrow> Inl err
      | Inr rec \<Rightarrow> (case seal_all c nonces links of Inl err \<Rightarrow> Inl err | Inr recs \<Rightarrow> Inr ((u, rec) # recs)))"

definition secret_import ::
  "('k, 'v) secret_api \<Rightarrow> cipher \<Rightarrow> (string \<Rightarrow> string option) \<Rightarrow> (nat \<Rightarrow> 'k \<Rightarrow> 'k) \<Rightarrow>
   (string \<times> link) list \<Rightarrow> 'k \<Rightarrow> (link_error + nat) \<times> 'k" where
  "secret_import A c nonces others links k =
     (case seal_all c nonces links of
        Inl err \<Rightarrow> (Inl (StoreDown err), k)
      | Inr recs \<Rightarrow>
          (case secret_mutate secret_retries A others (\<lambda>data.
                  (fst (import_data recs data),
                   if fst (import_data recs data) > 0 then Some (snd (import_data recs data)) else None)) k of
             (_, Some err, k') \<Rightarrow> (Inl err, k')
           | (added, None, k') \<Rightarrow> (Inr (case added of Some n \<Rightarrow> n | None \<Rightarrow> 0), k')))"

text \<open>\<open>ImportBoltFile\<close>: how many links it added and how many the file holds.\<close>

definition import_bolt_file ::
  "('d, string) bolt_db \<Rightarrow> 'd \<Rightarrow> ('k, 'v) secret_api \<Rightarrow> cipher \<Rightarrow> (string \<Rightarrow> string option) \<Rightarrow>
   (nat \<Rightarrow> 'k \<Rightarrow> 'k) \<Rightarrow> 'k \<Rightarrow> (link_error + nat \<times> nat) \<times> 'k" where
  "import_bolt_file db d A c nonces others k =
     (case bd_view db d of
        Some err \<Rightarrow> (Inl (StoreDown err), k)
      | None \<Rightarrow>
          (let links = bolt_link_each db c d
           in if links = [] then (Inr (0, 0), k)
              else case secret_import A c nonces others links k of
                     (Inl err, k') \<Rightarrow> (Inl err, k')
                   | (Inr added, k') \<Rightarrow> (Inr (added, length links), k')))"

definition secret_link_ops :: "('k, 'v) secret_api \<Rightarrow> cipher \<Rightarrow> string option \<Rightarrow> 'k link_ops" where
  "secret_link_ops A c nonce =
     \<lparr>lk_get = secret_get A c, lk_put = secret_put A c nonce (\<lambda>_ k. k),
      lk_delete = secret_delete A (\<lambda>_ k. k), lk_update = secret_update A c nonce (\<lambda>_ k. k)\<rparr>"

definition secret_cur :: "('k, 'v) secret_api \<Rightarrow> cipher \<Rightarrow> 'k \<Rightarrow> string \<Rightarrow> link option" where
  "secret_cur A c k u = decoded_link c (map_of (sx_data A k) u)"

text \<open>
  The Secret a mutation of \<open>n\<close> attempts edits: what the other processes made of it by the end of
  the first attempt they left it alone in, every write of theirs before that included. A callback
  that wants no change reads it and is done.
\<close>

fun secret_window ::
  "nat \<Rightarrow> ('k, 'v) secret_api \<Rightarrow> (nat \<Rightarrow> 'k \<Rightarrow> 'k) \<Rightarrow>
   ((string \<times> string) list \<Rightarrow> 'x \<times> (string \<times> string) list option) \<Rightarrow> 'k \<Rightarrow> 'k" where
  "secret_window 0 A others fn k = k"
| "secret_window (Suc n) A others fn k =
     (if snd (fn (sx_data A k)) = None then k
      else if sx_version A (others n k) = sx_version A k then others n k
      else secret_window n A others fn (others n k))"

text \<open>
  A mutation that reports success was one step: its callback ran on the data of that Secret, and
  what it answered is what the Secret holds afterwards.
\<close>

lemma secret_mutate_atomic:
  assumes "secret_laws A" and "secret_mutate n A others fn k = (x, None, k')"
  shows "x = Some (fst (fn (sx_data A (secret_window n A others fn k)))) \<and>
    sx_data A k' = (case snd (fn (sx_data A (secret_window n A others fn k))) of
        None \<Rightarrow> sx_data A (secret_window n A others fn k)
      | Some d \<Rightarrow> d) \<and>
    (snd (fn (sx_data A (secret_window n A others fn k))) = None \<longrightarrow>
      k' = secret_window n A others fn k)"
  using assms(2)
proof (induction n arbitrary: k)
  case 0
  then show ?case by simp
next
  case (Suc n)
  obtain v data where g: "sx_get A k = Inr (v, data)"
    using Suc.prems by (auto split: sum.splits)
  with assms(1) have d: "v = sx_version A k" "data = sx_data A k"
    unfolding secret_laws_def by blast+
  obtain y w where f: "fn data = (y, w)" by fastforce
  show ?case
  proof (cases w)
    case None
    with Suc.prems g f have "x = Some y" "k' = k" by auto
    with f None d show ?thesis by auto
  next
    case (Some data')
    obtain ans k2 where u: "sx_update A v data' (others n k) = (ans, k2)" by fastforce
    show ?thesis
    proof (cases ans)
      case Updated
      with u assms(1) have v: "v = sx_version A (others n k)" "sx_data A k2 = data'"
        unfolding secret_laws_def by blast+
      with d have same: "sx_version A (others n k) = sx_version A k" by simp
      with assms(1) have "sx_data A (others n k) = sx_data A k" unfolding secret_laws_def by blast
      with Suc.prems g f Some u Updated v d same show ?thesis by auto
    next
      case Conflict
      with u assms(1) have moved: "v \<noteq> sx_version A (others n k)" "k2 = others n k"
        unfolding secret_laws_def by blast+
      with Suc.prems g f Some u Conflict have "secret_mutate n A others fn (others n k) = (x, None, k')"
        by simp
      note ih = Suc.IH [OF this]
      have "secret_window (Suc n) A others fn k = secret_window n A others fn (others n k)"
        using f Some d moved by auto
      with ih show ?thesis by presburger
    next
      case (Refused err)
      with Suc.prems g f Some u show ?thesis by simp
    qed
  qed
qed

lemma secret_mutate_failed:
  assumes "secret_laws A" and "secret_mutate n A (\<lambda>_ k. k) fn k = (x, Some e, k')"
  shows "sx_data A k' = sx_data A k"
  using assms(2)
proof (induction n arbitrary: k)
  case 0
  then show ?case by simp
next
  case (Suc n)
  have upd: "sx_update A v d k = (ans, k2) \<Longrightarrow> ans \<noteq> Updated \<Longrightarrow> sx_data A k2 = sx_data A k" for v d ans k2
    using assms(1) unfolding secret_laws_def by blast
  from Suc show ?case
    by (auto split: sum.splits prod.splits option.splits update_answer.splits dest: upd)
qed

lemma secret_mutate_alone:
  assumes "secret_laws A" and "secret_mutate n A (\<lambda>_ k. k) fn k = (x, None, k')"
  shows "x = Some (fst (fn (sx_data A k))) \<and>
    sx_data A k' = (case snd (fn (sx_data A k)) of None \<Rightarrow> sx_data A k | Some d \<Rightarrow> d)"
  using assms(2)
proof (induction n arbitrary: k)
  case 0
  then show ?case by simp
next
  case (Suc n)
  obtain v data where g: "sx_get A k = Inr (v, data)" using Suc.prems by (auto split: sum.splits)
  with assms(1) have d: "data = sx_data A k" unfolding secret_laws_def by blast
  obtain y w where f: "fn (sx_data A k) = (y, w)" by fastforce
  show ?case
  proof (cases w)
    case None
    with Suc.prems g d f show ?thesis by simp
  next
    case (Some data')
    obtain ans k2 where u: "sx_update A v data' k = (ans, k2)" by fastforce
    show ?thesis
    proof (cases ans)
      case Updated
      with u assms(1) have "sx_data A k2 = data'" unfolding secret_laws_def by blast
      with Suc.prems g d f Some u Updated show ?thesis by simp
    next
      case Conflict
      with u assms(1) have "sx_data A k2 = sx_data A k" unfolding secret_laws_def by blast
      with Suc.prems g d f Some u Conflict Suc.IH [of k2] show ?thesis by simp
    next
      case (Refused err)
      with Suc.prems g d f Some u show ?thesis by simp
    qed
  qed
qed


lemma snd_pair: "snd p = y \<Longrightarrow> \<exists>x. p = (x, y)"
  by (cases p) simp

lemma seal_all_map:
  assumes "cipher_laws c" and "\<And>u. nonce_ok c (nonces u)" and "seal_all c nonces links = Inr recs"
  shows "decoded_link c (map_of recs u) = map_of links u"
  using assms(3)
  by (induction links arbitrary: recs)
    (auto simp: decoded_sealed [OF assms(1,2)] split: sum.splits)

locale secret_links =
  fixes A :: "('k, 'v) secret_api" and c :: cipher and nonce :: "string option"
  assumes api_laws: "secret_laws A" and sc_laws: "cipher_laws c" and sc_nonce: "nonce_ok c nonce"
begin

lemma secret_read: "sx_get A k = Inr (v, data) \<Longrightarrow> data = sx_data A k"
  using api_laws unfolding secret_laws_def by blast

lemma update_data_cur:
  assumes "update_data c nonce u fn data = (x, w)"
  shows "fst x = decoded_link c (map_of data u)"
    and "snd x = None \<Longrightarrow> decoded_link c (map_of (case w of None \<Rightarrow> data | Some d \<Rightarrow> d) v) =
      (if v = u then apply_link (fn (decoded_link c (map_of data u))) (decoded_link c (map_of data u))
       else decoded_link c (map_of data v))"
    and "snd x = Some e \<Longrightarrow> w = None"
  using assms decoded_sealed [OF sc_laws sc_nonce]
  by (auto simp: update_data_def Let_def apply_link_def AList.delete_conv AList.update_conv'
      split: option.splits sum.splits if_splits)

lemma update_atomic:
  assumes "secret_update A c nonce others u fn k = (seen, None, k')"
  shows "let k1 = secret_window secret_retries A others (update_data c nonce u fn) k
    in seen = Some (secret_cur A c k1 u) \<and>
      secret_cur A c k' = (secret_cur A c k1)(u := apply_link (fn (secret_cur A c k1 u)) (secret_cur A c k1 u))"
proof -
  let ?k1 = "secret_window secret_retries A others (update_data c nonce u fn) k"
  obtain x where r: "secret_mutate secret_retries A others (update_data c nonce u fn) k = (x, None, k')"
    "seen = map_option fst x" "\<forall>err. x = Some (fst (the x), Some err) \<longrightarrow> False"
    using assms by (auto simp: secret_update_def split: prod.splits option.splits)
  have k1: "x = Some (fst (update_data c nonce u fn (sx_data A ?k1)))"
    "sx_data A k' = (case snd (update_data c nonce u fn (sx_data A ?k1)) of None \<Rightarrow> sx_data A ?k1 | Some d \<Rightarrow> d)"
    using secret_mutate_atomic [OF api_laws r(1)] by blast+
  obtain y w where d: "update_data c nonce u fn (sx_data A ?k1) = (y, w)" by fastforce
  have y: "x = Some y" "snd y = None" using k1 d r(3) by (cases y; cases "snd y"; auto)+
  with k1 d update_data_cur(1,2) [OF d] r(2) show ?thesis
    by (auto simp: Let_def secret_cur_def fun_eq_iff)
qed

end


sublocale secret_links \<subseteq> secret_lk: link_store "secret_link_ops A c nonce" "secret_cur A c"
proof (unfold_locales, goal_cases)
  case (1 u s x) then show ?case
    by (auto simp: secret_link_ops_def secret_get_def secret_cur_def dest: secret_read split: sum.splits)
next
  case (2 u l s s')
  then obtain rec x where r: "seal_link c nonce l = Inr rec"
    "secret_mutate secret_retries A (\<lambda>_ k. k) (\<lambda>data. ((), Some (AList.update u rec data))) s = (x, None, s')"
    by (auto simp: secret_link_ops_def secret_put_def split: sum.splits dest!: snd_pair)
  from secret_mutate_alone [OF api_laws r(2)] decoded_sealed [OF sc_laws sc_nonce r(1)] show ?case
    by (auto simp: secret_cur_def fun_eq_iff)
next
  case (3 u l s e s')
  show ?case
  proof (cases "seal_link c nonce l")
    case (Inl a) with 3 show ?thesis by (simp add: secret_link_ops_def secret_put_def)
  next
    case (Inr rec)
    with 3 obtain x where
      "secret_mutate secret_retries A (\<lambda>_ k. k) (\<lambda>data. ((), Some (AList.update u rec data))) s = (x, Some e, s')"
      by (auto simp: secret_link_ops_def secret_put_def dest!: snd_pair)
    from secret_mutate_failed [OF api_laws this] show ?thesis by (simp add: secret_cur_def fun_eq_iff)
  qed
next
  case (4 u s s')
  then obtain x where "secret_mutate secret_retries A (\<lambda>_ k. k) (\<lambda>data. ((),
       if map_of data u = None then None else Some (AList.delete u data))) s = (x, None, s')"
    by (auto simp: secret_link_ops_def secret_delete_def dest!: snd_pair)
  from secret_mutate_alone [OF api_laws this] show ?case
    by (auto simp: secret_cur_def fun_eq_iff split: if_splits)
next
  case (5 u s e s')
  then obtain x where "secret_mutate secret_retries A (\<lambda>_ k. k) (\<lambda>data. ((),
       if map_of data u = None then None else Some (AList.delete u data))) s = (x, Some e, s')"
    by (auto simp: secret_link_ops_def secret_delete_def dest!: snd_pair)
  from secret_mutate_failed [OF api_laws this] show ?case by (simp add: secret_cur_def fun_eq_iff)
next
  case (6 u fn s seen s')
  then obtain x where r:
    "secret_mutate secret_retries A (\<lambda>_ k. k) (update_data c nonce u fn) s = (x, None, s')"
    "seen = map_option fst x" "\<forall>err. x = Some (fst (the x), Some err) \<longrightarrow> False"
    by (auto simp: secret_link_ops_def secret_update_def split: prod.splits option.splits)
  obtain y w where d: "update_data c nonce u fn (sx_data A s) = (y, w)" by fastforce
  note alone = secret_mutate_alone [OF api_laws r(1)]
  have y: "x = Some y" "snd y = None" using alone d r(3) by (cases y; cases "snd y"; auto)+
  with alone d update_data_cur(1,2) [OF d] r(2) show ?case
    by (auto simp: secret_cur_def fun_eq_iff)
next
  case (7 u fn s seen e s')
  then consider (api) x err where
      "secret_mutate secret_retries A (\<lambda>_ k. k) (update_data c nonce u fn) s = (x, Some err, s')"
    | (seal) x err where
      "secret_mutate secret_retries A (\<lambda>_ k. k) (update_data c nonce u fn) s = (Some (x, Some err), None, s')"
    by (auto simp: secret_link_ops_def secret_update_def split: prod.splits option.splits)
  then show ?case
  proof cases
    case api
    from secret_mutate_failed [OF api_laws this] show ?thesis by (simp add: secret_cur_def fun_eq_iff)
  next
    case seal
    obtain y w where d: "update_data c nonce u fn (sx_data A s) = (y, w)" by fastforce
    from secret_mutate_alone [OF api_laws seal] d have "y = (x, Some err)" "sx_data A s' = (case w of None \<Rightarrow> sx_data A s | Some d \<Rightarrow> d)"
      by auto
    with update_data_cur(3) [OF d] show ?thesis by (simp add: secret_cur_def fun_eq_iff)
  qed
qed


subsection \<open>Concrete instances\<close>

text \<open>A coding of links, a cipher over it, and a Secret whose version is its data.\<close>

definition enc_field :: "string \<Rightarrow> string" where
  "enc_field s = replicate (length s) (CHR ''1'') @ CHR ''0'' # s"

definition dec_field :: "string \<Rightarrow> string \<times> string" where
  "dec_field t =
     (let n = length (takeWhile (\<lambda>ch. ch = CHR ''1'') t) in (take n (drop (Suc n) t), drop (Suc n + n) t))"

lemma takeWhile_marks:
  "takeWhile (\<lambda>ch. ch = CHR ''1'') (replicate n (CHR ''1'') @ CHR ''0'' # rest) = replicate n (CHR ''1'')"
  by (induction n) auto

lemma dec_enc_field [simp]: "dec_field (enc_field s @ rest) = (s, rest)"
proof -
  have "takeWhile (\<lambda>ch. ch = CHR ''1'') (enc_field s @ rest) = replicate (length s) (CHR ''1'')"
    by (simp add: enc_field_def takeWhile_marks)
  then show ?thesis by (simp add: dec_field_def enc_field_def Let_def)
qed

definition enc_time :: "gotime \<Rightarrow> string" where
  "enc_time i = enc_field (replicate (nat \<bar>i\<bar>) (if i < 0 then CHR ''-'' else CHR ''+''))"

definition dec_time :: "string \<Rightarrow> gotime \<times> string" where
  "dec_time t =
     (let (digits, rest) = dec_field t
      in (if digits \<noteq> [] \<and> hd digits = CHR ''-'' then - int (length digits) else int (length digits), rest))"

lemma dec_enc_time [simp]: "dec_time (enc_time i @ rest) = (i, rest)"
  by (auto simp: dec_time_def enc_time_def)

definition enc_link :: "link \<Rightarrow> string" where
  "enc_link l =
     enc_field (li_sub l) @ enc_field (li_email l) @ enc_field (li_refresh l) @ enc_time (li_linked_at l) @
     enc_field (li_id_token l) @ enc_time (li_expiry l) @
     (case li_lease l of None \<Rightarrow> [] | Some e \<Rightarrow> enc_field (le_holder e) @ enc_time (le_until e))"

definition dec_link :: "string \<Rightarrow> link option" where
  "dec_link t =
     (let (sub, t) = dec_field t; (email, t) = dec_field t; (refresh, t) = dec_field t;
          (linked, t) = dec_time t; (token, t) = dec_field t; (expiry, t) = dec_time t
      in Some \<lparr>li_sub = sub, li_email = email, li_refresh = refresh, li_linked_at = linked,
           li_id_token = token, li_expiry = expiry,
           li_lease = (if t = [] then None
             else (let (h, t) = dec_field t; (u, t) = dec_time t in Some \<lparr>le_holder = h, le_until = u\<rparr>))\<rparr>)"

lemma dec_field_end [simp]: "dec_time (enc_time i) = (i, [])"
  using dec_enc_time [of i "[]"] by simp

lemma enc_field_not_nil [simp]: "enc_field s \<noteq> []"
  by (simp add: enc_field_def)

lemma dec_enc_link: "dec_link (enc_link l) = Some l"
  by (cases l) (auto simp: dec_link_def enc_link_def Let_def split: option.splits)

definition clear_cipher :: cipher where
  "clear_cipher = \<lparr>ci_aead = clear_aead, ci_enc = enc_link, ci_dec = dec_link\<rparr>"

lemma clear_cipher_laws: "cipher_laws clear_cipher"
  by (simp add: cipher_laws_def clear_cipher_def clear_aead_laws dec_enc_link)

definition one_nonce :: "string option" where "one_nonce = Some ''n''"

lemma one_nonce_ok: "nonce_ok clear_cipher one_nonce"
  by (simp add: nonce_ok_def one_nonce_def clear_cipher_def clear_aead_def)

definition list_secret ::
  "((string \<times> string) list, (string \<times> string) list) secret_api" where
  "list_secret =
     \<lparr>sx_data = (\<lambda>k. k), sx_version = (\<lambda>k. k), sx_get = (\<lambda>k. Inr (k, k)),
      sx_update = (\<lambda>v d k. if v = k then (Updated, d) else (Conflict, k))\<rparr>"

lemma list_secret_laws: "secret_laws list_secret"
  by (auto simp: secret_laws_def list_secret_def split: if_splits)

interpretation bolt_clear: bolt_links list_db clear_cipher one_nonce
  by unfold_locales (rule list_db_laws clear_cipher_laws one_nonce_ok)+

interpretation secret_clear: secret_links list_secret clear_cipher one_nonce
  by unfold_locales (rule list_secret_laws clear_cipher_laws one_nonce_ok)+

subsection \<open>Properties\<close>

text \<open>C34: An Update of the shared Secret that reports success is one step, whatever other replicas
  write between the reads and the writes of its attempts: it edits the Secret those writes made
  (\<open>secret_window\<close>: the Secret at the end of the first attempt no other write fell into). Its
  callback saw the link of that Secret, the user's link is what the callback answered, and every
  other link is as the other replicas left it: none of their writes is lost. The API's laws take a
  refused or timed-out write to have changed nothing.\<close>

theorem secret_update_atomic:
  assumes "secret_laws A" and "cipher_laws c" and "nonce_ok c nonce"
    and "secret_update A c nonce others u fn k = (seen, None, k')"
  shows "let k1 = secret_window secret_retries A others (update_data c nonce u fn) k
    in seen = Some (secret_cur A c k1 u) \<and>
      secret_cur A c k' = (secret_cur A c k1)(u := apply_link (fn (secret_cur A c k1 u)) (secret_cur A c k1 u))"
  by (rule secret_links.update_atomic [OF secret_links.intro [OF assms(1-3)] assms(4)])

definition sample_link :: "string \<Rightarrow> link" where
  "sample_link token =
     \<lparr>li_sub = ''s'', li_email = ''e'', li_refresh = token, li_linked_at = 1, li_id_token = ''i'',
      li_expiry = 2, li_lease = None\<rparr>"

text \<open>Another replica adds a user between the first read and the write: the second attempt keeps it.\<close>

definition sealed_sample :: "string \<Rightarrow> string" where
  "sealed_sample token = (case seal_link clear_cipher one_nonce (sample_link token) of Inr rec \<Rightarrow> rec)"

definition rival_write :: "nat \<Rightarrow> (string \<times> string) list \<Rightarrow> (string \<times> string) list" where
  "rival_write n k = (if n = 4 then AList.update ''v'' (sealed_sample ''r'') k else k)"

theorem secret_update_atomic_witness:
  "secret_cur list_secret clear_cipher
     (snd (snd (secret_update list_secret clear_cipher one_nonce rival_write ''u''
       (\<lambda>_. Some (Some (sample_link ''t''))) [])))
   = [''v'' \<mapsto> sample_link ''r'', ''u'' \<mapsto> sample_link ''t'']"
proof -
  let ?fn = "\<lambda>_. Some (Some (sample_link ''t''))"
  let ?k = "[(''v'', sealed_sample ''r''), (''u'', sealed_sample ''t'')]"
  have u: "secret_update list_secret clear_cipher one_nonce rival_write ''u'' ?fn [] = (Some None, None, ?k)"
    by (simp add: secret_update_def secret_retries_def eval_nat_numeral list_secret_def update_data_def
        rival_write_def sealed_sample_def seal_link_def one_nonce_def Let_def)
  have w: "secret_window secret_retries list_secret rival_write (update_data clear_cipher one_nonce ''u'' ?fn) []
      = [(''v'', sealed_sample ''r'')]"
    by (simp add: secret_retries_def eval_nat_numeral list_secret_def update_data_def rival_write_def
        seal_link_def one_nonce_def Let_def)
  have "secret_cur list_secret clear_cipher [(''v'', sealed_sample ''r'')] = [''v'' \<mapsto> sample_link ''r'']"
  proof -
    have "seal_link clear_cipher one_nonce (sample_link ''r'') = Inr (sealed_sample ''r'')"
      by (simp add: sealed_sample_def seal_link_def one_nonce_def)
    from decoded_sealed [OF clear_cipher_laws one_nonce_ok this] show ?thesis
      by (auto simp: secret_cur_def list_secret_def fun_eq_iff)
  qed
  with secret_update_atomic [OF list_secret_laws clear_cipher_laws one_nonce_ok u] u w
  show ?thesis by (simp add: apply_link_def)
qed

text \<open>The one-time import of the bolt file's links into the Secret never changes a record the Secret
  already holds, whatever other replicas write meanwhile; a user without one gets the link of the
  file; and an import that adds nothing writes nothing.
\<close>

theorem secret_import_keeps:
  assumes "secret_laws A" and "cipher_laws c" and "\<And>u. nonce_ok c (nonces u)"
    and "secret_import A c nonces others links k = (Inr n, k')"
  shows "\<exists>k1. (\<forall>u. map_of (sx_data A k1) u \<noteq> None \<longrightarrow> map_of (sx_data A k') u = map_of (sx_data A k1) u) \<and>
    (\<forall>u. map_of (sx_data A k1) u = None \<longrightarrow> secret_cur A c k' u = map_of links u) \<and>
    (n = 0 \<longrightarrow> k' = k1)"
proof -
  obtain recs m where recs: "seal_all c nonces links = Inr recs"
    and m: "secret_mutate secret_retries A others (\<lambda>data.
      (fst (import_data recs data),
       if fst (import_data recs data) > 0 then Some (snd (import_data recs data)) else None)) k = (m, None, k')"
    and n: "n = (case m of Some n \<Rightarrow> n | None \<Rightarrow> 0)"
    using assms(4) by (auto simp: secret_import_def split: sum.splits prod.splits option.splits)
  let ?imp = "\<lambda>data. import_data recs data"
  let ?wr = "\<lambda>data. if fst (?imp data) > 0 then Some (snd (?imp data)) else None"
  define k1 where "k1 = secret_window secret_retries A others (\<lambda>data. (fst (?imp data), ?wr data)) k"
  have a: "m = Some (fst (?imp (sx_data A k1)))"
    and b: "sx_data A k' = (case ?wr (sx_data A k1) of None \<Rightarrow> sx_data A k1 | Some d \<Rightarrow> d)"
    and w: "?wr (sx_data A k1) = None \<longrightarrow> k' = k1"
    using secret_mutate_atomic [OF assms(1) m, folded k1_def, unfolded fst_conv snd_conv] by blast+
  from b have k1: "sx_data A k' = snd (?imp (sx_data A k1))"
    using import_data_zero [of recs "sx_data A k1"] by (cases "fst (?imp (sx_data A k1)) > 0") auto
  from a n w have k13: "n = 0 \<longrightarrow> k' = k1" by simp
  from k1 have "map_of (sx_data A k') u =
      (case map_of (sx_data A k1) u of None \<Rightarrow> map_of recs u | Some rec \<Rightarrow> Some rec)" for u
    by (simp add: import_data_map)
  with seal_all_map [OF assms(2,3) recs] k13 show ?thesis
    by (intro exI [of _ k1]) (auto simp: secret_cur_def)
qed

theorem secret_import_keeps_witness:
  "\<exists>k'. secret_import list_secret clear_cipher (\<lambda>_. one_nonce) (\<lambda>_ k. k)
      [(''u'', sample_link ''x''), (''v'', sample_link ''y'')] [(''u'', ''z'')] = (Inr 1, k') \<and>
    (\<exists>k1. (\<forall>u. map_of k1 u \<noteq> None \<longrightarrow> map_of k' u = map_of k1 u) \<and>
      (\<forall>u. map_of k1 u = None \<longrightarrow>
        secret_cur list_secret clear_cipher k' u =
          map_of [(''u'', sample_link ''x''), (''v'', sample_link ''y'')] u))"
proof -
  have "secret_import list_secret clear_cipher (\<lambda>_. one_nonce) (\<lambda>_ k. k)
      [(''u'', sample_link ''x''), (''v'', sample_link ''y'')] [(''u'', ''z'')] =
      (Inr 1, [(''u'', ''z''), (''v'', sealed_sample ''y'')])"
    by (simp add: secret_import_def secret_retries_def eval_nat_numeral list_secret_def Let_def
        seal_link_def one_nonce_def sealed_sample_def)
  from secret_import_keeps [OF list_secret_laws clear_cipher_laws one_nonce_ok this] this
  show ?thesis by (auto simp: list_secret_def)
qed

end
