(* ===== verification/LinkCache.thy ===== *)
theory LinkCache
  imports LinkStore
begin

section \<open>The process-local copy of the links\<close>

text \<open>
  \<open>pkg/auth/musterlink/links.go\<close> and the bookkeeping of \<open>refresh.go\<close>. A \<open>Linker\<close>
  keeps a copy of every link it read or wrote; an entry is dirty while the store has not taken it.
  The state is the record \<open>linker\<close>, the store its part; every operation takes the readings of
  \<open>l.now\<close> it makes. Per-user locks make the operations on one user atomic, except where a
  definition says what runs meanwhile.
\<close>

definition seconds :: duration where "seconds = 1000000000"

lemma seconds_pos [simp]: "0 < seconds" by (simp add: seconds_def)

definition link_cache_ttl :: duration where "link_cache_ttl = 30 * seconds"
definition write_retry_delay :: duration where "write_retry_delay = 2 * seconds"
definition max_write_retry_delay :: duration where "max_write_retry_delay = 30 * seconds"
definition token_refresh_skew :: duration where "token_refresh_skew = 60 * seconds"
definition default_min_token_lifetime :: duration where "default_min_token_lifetime = 25 * 60 * seconds"
definition refresh_sweep_interval :: duration where "refresh_sweep_interval = 60 * seconds"
definition refresh_min_interval :: duration where "refresh_min_interval = 5 * 60 * seconds"
definition refresh_served_window :: duration where "refresh_served_window = 48 * 3600 * seconds"
definition refresh_timeout :: duration where "refresh_timeout = 30 * seconds"
definition refresh_lease_ttl :: duration where "refresh_lease_ttl = 2 * refresh_timeout"

record cached_link =
  ca_link :: link
  ca_checked :: gotime
  ca_dirty :: bool
  ca_served :: gotime
  ca_refreshed :: gotime
  ca_stored :: string

record link_config =
  lc_min_lifetime :: duration
  lc_cache_ttl :: duration
  lc_retry_delay :: duration
  lc_holder :: string
  lc_lease_ttl :: duration

record 's linker =
  ln_links :: "(string \<times> cached_link) list"
  ln_store :: 's
  ln_armed :: bool
  ln_closed :: bool
  ln_delay :: duration

datatype link_fault =
    NotLinked
  | ReadFailed link_error
  | DeleteFailed link_error
  | LeaseFailed link_error
  | Contended
  | WaitEnded
  | NoEndpoints
  | RequestFailed
  | NoIdToken

text \<open>\<open>New\<close>, with the minimum the configuration names (zero for none).\<close>

definition new_config :: "duration \<Rightarrow> string \<Rightarrow> link_config" where
  "new_config min_lifetime holder =
     \<lparr>lc_min_lifetime =
        max (if min_lifetime = 0 then default_min_token_lifetime else min_lifetime) token_refresh_skew,
      lc_cache_ttl = link_cache_ttl, lc_retry_delay = write_retry_delay,
      lc_holder = holder, lc_lease_ttl = refresh_lease_ttl\<rparr>"

definition new_linker :: "'s \<Rightarrow> 's linker" where
  "new_linker s =
     \<lparr>ln_links = [], ln_store = s, ln_armed = False, ln_closed = False, ln_delay = write_retry_delay\<rparr>"

abbreviation entry_of :: "'s linker \<Rightarrow> string \<Rightarrow> cached_link option" where
  "entry_of l u \<equiv> map_of (ln_links l) u"

subsection \<open>Entries\<close>

definition fresh_copy :: "cached_link option \<Rightarrow> link \<Rightarrow> gotime \<Rightarrow> bool \<Rightarrow> cached_link" where
  "fresh_copy old lk checked dirty =
     \<lparr>ca_link = lk\<lparr>li_lease := None\<rparr>, ca_checked = checked, ca_dirty = dirty,
      ca_served = (case old of None \<Rightarrow> 0 | Some c \<Rightarrow> ca_served c),
      ca_refreshed = (case old of None \<Rightarrow> 0 | Some c \<Rightarrow> ca_refreshed c),
      ca_stored = (case old of None \<Rightarrow> '''' | Some c \<Rightarrow> if dirty \<and> ca_dirty c then ca_stored c else '''')\<rparr>"

definition linker_put :: "string \<Rightarrow> link \<Rightarrow> gotime \<Rightarrow> bool \<Rightarrow> 's linker \<Rightarrow> 's linker" where
  "linker_put u lk checked dirty l =
     l\<lparr>ln_links := AList.update u (fresh_copy (entry_of l u) lk checked dirty) (ln_links l)\<rparr>"

text \<open>What the operations do to an entry that is there.\<close>

definition with_entry :: "string \<Rightarrow> (cached_link \<Rightarrow> cached_link) \<Rightarrow> 's linker \<Rightarrow> 's linker" where
  "with_entry u f l =
     (case entry_of l u of
        None \<Rightarrow> l
      | Some c \<Rightarrow> l\<lparr>ln_links := AList.update u (f c) (ln_links l)\<rparr>)"

definition mark_clean :: "gotime \<Rightarrow> string \<Rightarrow> 's linker \<Rightarrow> 's linker" where
  "mark_clean now u l = with_entry u (\<lambda>c. c\<lparr>ca_dirty := False, ca_checked := now\<rparr>) l"

definition linker_forget :: "string \<Rightarrow> 's linker \<Rightarrow> 's linker" where
  "linker_forget u l = l\<lparr>ln_links := AList.delete u (ln_links l)\<rparr>"

definition adopt :: "gotime \<Rightarrow> string \<Rightarrow> link \<Rightarrow> 's linker \<Rightarrow> 's linker" where
  "adopt now u lk l = linker_put u lk now False l"

definition is_dirty :: "'s linker \<Rightarrow> string \<Rightarrow> bool" where
  "is_dirty l u = (case entry_of l u of None \<Rightarrow> False | Some c \<Rightarrow> ca_dirty c)"

definition stored_refresh_token_of :: "'s linker \<Rightarrow> string \<Rightarrow> string" where
  "stored_refresh_token_of l u =
     (case entry_of l u of None \<Rightarrow> '''' | Some c \<Rightarrow> if ca_dirty c then ca_stored c else '''')"

definition note_served :: "gotime \<Rightarrow> string \<Rightarrow> 's linker \<Rightarrow> 's linker" where
  "note_served now u l = with_entry u (\<lambda>c. c\<lparr>ca_served := now\<rparr>) l"

definition note_refreshed :: "gotime \<Rightarrow> string \<Rightarrow> 's linker \<Rightarrow> 's linker" where
  "note_refreshed now u l = with_entry u (\<lambda>c. c\<lparr>ca_refreshed := now\<rparr>) l"

definition refreshed_at :: "'s linker \<Rightarrow> string \<Rightarrow> gotime" where
  "refreshed_at l u = (case entry_of l u of None \<Rightarrow> 0 | Some c \<Rightarrow> ca_refreshed c)"

definition dirty_ids :: "'s linker \<Rightarrow> string list" where
  "dirty_ids l = map fst (filter (\<lambda>(u, c). ca_dirty c) (ln_links l))"

subsection \<open>Reading and writing\<close>

definition load_answer ::
  "gotime \<Rightarrow> string \<Rightarrow> link_error + link option \<Rightarrow> 's linker \<Rightarrow> (link_fault + link) \<times> 's linker" where
  "load_answer now u answer l =
     (let kept = (case entry_of l u of
                    None \<Rightarrow> None
                  | Some c \<Rightarrow> if ca_dirty c \<or> \<not> ca_checked c < now then Some (ca_link c) else None)
      in case kept of
           Some lk \<Rightarrow> (Inr lk, l)
         | None \<Rightarrow>
             (case answer of
                Inr (Some lk) \<Rightarrow> (Inr lk, linker_put u lk now False l)
              | Inr None \<Rightarrow> (Inl NotLinked, linker_forget u l)
              | Inl err \<Rightarrow>
                  (case entry_of l u of
                     Some c \<Rightarrow> (Inr (ca_link c), with_entry u (\<lambda>c. c\<lparr>ca_checked := now\<rparr>) l)
                   | None \<Rightarrow> (Inl (ReadFailed err), l))))"

text \<open>\<open>meanwhile\<close> is what other goroutines do while the store answers.\<close>

definition linker_load ::
  "'s link_ops \<Rightarrow> link_config \<Rightarrow> gotime \<Rightarrow> ('s linker \<Rightarrow> 's linker) \<Rightarrow> string \<Rightarrow> 's linker \<Rightarrow>
   (link_fault + link) \<times> 's linker" where
  "linker_load ops cfg now meanwhile u l =
     (case entry_of l u of
        Some c \<Rightarrow>
          if ca_dirty c \<or> time_sub now (ca_checked c) < lc_cache_ttl cfg then (Inr (ca_link c), l)
          else load_answer now u (lk_get ops u (ln_store l)) (meanwhile l)
      | None \<Rightarrow> load_answer now u (lk_get ops u (ln_store l)) (meanwhile l))"

text \<open>\<open>scheduleFlush\<close> arms the timer; what it runs is \<open>flush_fired\<close> below.\<close>

definition schedule_flush :: "'s linker \<Rightarrow> 's linker" where
  "schedule_flush l = (if ln_armed l \<or> ln_closed l then l else l\<lparr>ln_armed := True\<rparr>)"

definition linker_save ::
  "'s link_ops \<Rightarrow> gotime \<Rightarrow> gotime \<Rightarrow> string \<Rightarrow> link \<Rightarrow> 's linker \<Rightarrow> 's linker" where
  "linker_save ops now later u lk l =
     (let l1 = linker_put u lk now True l;
          (err, s) = lk_put ops u lk (ln_store l1);
          l2 = l1\<lparr>ln_store := s\<rparr>
      in case err of
           Some e \<Rightarrow> schedule_flush l2
         | None \<Rightarrow> mark_clean later u l2)"

definition linker_drop :: "'s link_ops \<Rightarrow> string \<Rightarrow> 's linker \<Rightarrow> link_fault option \<times> 's linker" where
  "linker_drop ops u l =
     (let l1 = linker_forget u l;
          (err, s) = lk_delete ops u (ln_store l1)
      in (map_option DeleteFailed err, l1\<lparr>ln_store := s\<rparr>))"

subsection \<open>The write retries\<close>

definition rotated_fn :: "string \<Rightarrow> link \<Rightarrow> link_fn" where
  "rotated_fn stored lk current =
     (case current of
        None \<Rightarrow> None
      | Some c \<Rightarrow> if li_refresh c \<noteq> stored then None else Some (Some lk))"

definition flush_rotated ::
  "'s link_ops \<Rightarrow> gotime \<Rightarrow> string \<Rightarrow> string \<Rightarrow> link \<Rightarrow> 's linker \<Rightarrow> bool \<times> 's linker" where
  "flush_rotated ops now u stored lk l =
     (let (seen, err, s) = lk_update ops u (rotated_fn stored lk) (ln_store l);
          l1 = l\<lparr>ln_store := s\<rparr>
      in case err of
           Some e \<Rightarrow> (False, l1)
         | None \<Rightarrow>
             (case seen of
                Some (Some c) \<Rightarrow>
                  if li_refresh c \<noteq> stored \<and> li_refresh c \<noteq> li_refresh lk then (True, adopt now u c l1)
                  else (True, mark_clean now u l1)
              | _ \<Rightarrow> (True, linker_forget u l1)))"

definition flush_one :: "'s link_ops \<Rightarrow> gotime \<Rightarrow> string \<Rightarrow> 's linker \<Rightarrow> bool \<times> 's linker" where
  "flush_one ops now u l =
     (case entry_of l u of
        None \<Rightarrow> (True, l)
      | Some c \<Rightarrow>
          if \<not> ca_dirty c then (True, l)
          else if ca_stored c \<noteq> '''' then flush_rotated ops now u (ca_stored c) (ca_link c) l
          else (let (err, s) = lk_put ops u (ca_link c) (ln_store l)
                in case err of
                     Some e \<Rightarrow> (False, l\<lparr>ln_store := s\<rparr>)
                   | None \<Rightarrow> (True, mark_clean now u (l\<lparr>ln_store := s\<rparr>))))"

fun flush_ids :: "'s link_ops \<Rightarrow> gotime \<Rightarrow> string list \<Rightarrow> 's linker \<Rightarrow> nat \<times> 's linker" where
  "flush_ids ops now [] l = (0, l)"
| "flush_ids ops now (u # us) l =
     (let (written, l1) = flush_one ops now u l; (pending, l2) = flush_ids ops now us l1
      in ((if written then pending else Suc pending), l2))"

definition linker_flush :: "'s link_ops \<Rightarrow> gotime \<Rightarrow> 's linker \<Rightarrow> nat \<times> 's linker" where
  "linker_flush ops now l = flush_ids ops now (dirty_ids l) l"

text \<open>The function the timer runs. The delay stays far below the int64 range.\<close>

definition flush_fired :: "'s link_ops \<Rightarrow> link_config \<Rightarrow> gotime \<Rightarrow> 's linker \<Rightarrow> 's linker" where
  "flush_fired ops cfg now l =
     (let (pending, l1) = linker_flush ops now (l\<lparr>ln_armed := False\<rparr>)
      in if pending = 0 then l1\<lparr>ln_delay := lc_retry_delay cfg\<rparr>
         else schedule_flush (l1\<lparr>ln_delay := min (wrap64 (ln_delay l1 * 2)) max_write_retry_delay\<rparr>))"

text \<open>\<open>Close\<close>: the links the store still does not hold.\<close>

definition linker_close :: "'s link_ops \<Rightarrow> gotime \<Rightarrow> 's linker \<Rightarrow> nat \<times> 's linker" where
  "linker_close ops now l = linker_flush ops now (l\<lparr>ln_closed := True, ln_armed := False\<rparr>)"

subsection \<open>Which tokens cover a turn, and which are due\<close>

definition reusable_token :: "link_config \<Rightarrow> string \<Rightarrow> link \<Rightarrow> gotime \<Rightarrow> 's linker \<Rightarrow> string" where
  "reusable_token cfg u lk now l =
     (if li_id_token lk = '''' \<or> li_expiry lk = 0 then ''''
      else let left = time_sub (li_expiry lk) now in
        if lc_min_lifetime cfg \<le> left then li_id_token lk
        else let refreshed = refreshed_at l u in
          if token_refresh_skew < left \<and> refreshed \<noteq> 0 \<and> time_sub now refreshed < token_refresh_skew
          then li_id_token lk else '''')"

definition refresh_due_at :: "link_config \<Rightarrow> cached_link \<Rightarrow> gotime \<Rightarrow> bool" where
  "refresh_due_at cfg c now =
     (if li_expiry (ca_link c) = 0 then False
      else if ca_refreshed c \<noteq> 0 \<and> time_sub now (ca_refreshed c) < refresh_min_interval then False
      else \<not> now + wrap64 (lc_min_lifetime cfg + refresh_sweep_interval) < li_expiry (ca_link c))"

definition due_for_refresh :: "link_config \<Rightarrow> gotime \<Rightarrow> 's linker \<Rightarrow> string list" where
  "due_for_refresh cfg now l =
     map fst (filter (\<lambda>(u, c).
       \<not> (ca_served c = 0 \<or> refresh_served_window < time_sub now (ca_served c)) \<and> refresh_due_at cfg c now)
       (ln_links l))"

definition is_due :: "link_config \<Rightarrow> 's linker \<Rightarrow> string \<Rightarrow> gotime \<Rightarrow> bool" where
  "is_due cfg l u now = (case entry_of l u of None \<Rightarrow> False | Some c \<Rightarrow> refresh_due_at cfg c now)"

subsection \<open>What the operations touch\<close>

lemma put_entry [link_simps]:
  "entry_of (linker_put u lk t d l) v = (if v = u then Some (fresh_copy (entry_of l u) lk t d) else entry_of l v)"
  by (simp add: linker_put_def)

lemma with_entry_entry [link_simps]:
  "entry_of (with_entry u f l) v = (if v = u then map_option f (entry_of l u) else entry_of l v)"
  by (simp add: with_entry_def split: option.splits)

lemma forget_entry [link_simps]:
  "entry_of (linker_forget u l) v = (if v = u then None else entry_of l v)"
  by (simp add: linker_forget_def)

lemma entry_with_store [link_simps]:
  "ln_links (l\<lparr>ln_store := s\<rparr>) = ln_links l" "ln_store (linker_put u lk t d l) = ln_store l"
  "ln_store (with_entry u f l) = ln_store l" "ln_store (linker_forget u l) = ln_store l"
  "ln_store (schedule_flush l) = ln_store l" "ln_links (schedule_flush l) = ln_links l"
  by (simp_all add: linker_put_def with_entry_def linker_forget_def schedule_flush_def split: option.splits)

lemma mark_clean_entry [link_simps]:
  "entry_of (mark_clean now u l) v =
     (if v = u then map_option (\<lambda>c. c\<lparr>ca_dirty := False, ca_checked := now\<rparr>) (entry_of l u) else entry_of l v)"
  "ln_store (mark_clean now u l) = ln_store l"
  by (simp_all add: mark_clean_def link_simps)

lemma adopt_entry [link_simps]:
  "entry_of (adopt now u lk l) v = (if v = u then Some (fresh_copy (entry_of l u) lk now False) else entry_of l v)"
  "ln_store (adopt now u lk l) = ln_store l"
  by (simp_all add: adopt_def link_simps)

lemma note_entry [link_simps]:
  "entry_of (note_served now u l) v =
     (if v = u then map_option (\<lambda>c. c\<lparr>ca_served := now\<rparr>) (entry_of l u) else entry_of l v)"
  "entry_of (note_refreshed now u l) v =
     (if v = u then map_option (\<lambda>c. c\<lparr>ca_refreshed := now\<rparr>) (entry_of l u) else entry_of l v)"
  "ln_store (note_served now u l) = ln_store l" "ln_store (note_refreshed now u l) = ln_store l"
  by (simp_all add: note_served_def note_refreshed_def link_simps)

lemma fresh_copy_fields [link_simps]:
  "ca_dirty (fresh_copy old lk t d) = d" "ca_link (fresh_copy old lk t d) = lk\<lparr>li_lease := None\<rparr>"
  by (simp_all add: fresh_copy_def)

lemma schedule_flush_armed [simp]: "ln_armed (schedule_flush l) \<or> ln_closed (schedule_flush l)"
  by (simp add: schedule_flush_def)

subsection \<open>Maps stay maps\<close>

lemma gomap_with_entry [simp]: "gomap (ln_links l) \<Longrightarrow> gomap (ln_links (with_entry u f l))"
  by (simp add: with_entry_def split: option.splits)

lemma gomap_linker [simp]:
  "gomap (ln_links l) \<Longrightarrow> gomap (ln_links (linker_put u lk t d l))"
  "gomap (ln_links l) \<Longrightarrow> gomap (ln_links (linker_forget u l))"
  "gomap (ln_links l) \<Longrightarrow> gomap (ln_links (mark_clean t u l))"
  "gomap (ln_links l) \<Longrightarrow> gomap (ln_links (adopt t u lk l))"
  by (simp_all add: linker_put_def linker_forget_def mark_clean_def adopt_def)

lemma gomap_flush_one [simp]:
  "gomap (ln_links l) \<Longrightarrow> gomap (ln_links (snd (flush_one ops now u l)))"
  by (auto simp: flush_one_def flush_rotated_def Let_def split: option.splits prod.splits)

lemma dirty_ids_iff:
  assumes "gomap (ln_links l)"
  shows "u \<in> set (dirty_ids l) \<longleftrightarrow> is_dirty l u"
proof -
  have "u \<in> set (dirty_ids l) \<longleftrightarrow> (\<exists>c. (u, c) \<in> set (ln_links l) \<and> ca_dirty c)"
    by (force simp: dirty_ids_def)
  also have "\<dots> \<longleftrightarrow> (\<exists>c. entry_of l u = Some c \<and> ca_dirty c)"
    by (simp add: gomap_set_iff [OF assms])
  finally show ?thesis by (auto simp: is_dirty_def split: option.splits)
qed

lemma dirty_ids_distinct: "gomap (ln_links l) \<Longrightarrow> distinct (dirty_ids l)"
  by (simp add: dirty_ids_def distinct_map_filter)

subsection \<open>The retries settle what is pending\<close>

text \<open>A retry of one user leaves the other users' entries, and its own when it reports failure.\<close>

lemma flush_one_other: "v \<noteq> u \<Longrightarrow> entry_of (snd (flush_one ops now u l)) v = entry_of l v"
  by (auto simp: flush_one_def flush_rotated_def Let_def link_simps split: option.splits prod.splits)

lemma flush_one_dirty: "fst (flush_one ops now u l) \<longleftrightarrow> \<not> is_dirty (snd (flush_one ops now u l)) u"
  by (auto simp: flush_one_def flush_rotated_def is_dirty_def Let_def link_simps
      split: option.splits prod.splits)

lemma flush_ids_other: "v \<notin> set us \<Longrightarrow> entry_of (snd (flush_ids ops now us l)) v = entry_of l v"
proof (induction us arbitrary: l)
  case Nil
  then show ?case by simp
next
  case (Cons w us)
  then have "entry_of (snd (flush_ids ops now us (snd (flush_one ops now w l)))) v = entry_of l v"
    by (simp add: flush_one_other)
  then show ?case by (simp add: split_beta Let_def)
qed

lemma gomap_flush_ids [simp]: "gomap (ln_links l) \<Longrightarrow> gomap (ln_links (snd (flush_ids ops now us l)))"
proof (induction us arbitrary: l)
  case Nil
  then show ?case by simp
next
  case (Cons w us)
  then have "gomap (ln_links (snd (flush_ids ops now us (snd (flush_one ops now w l)))))" by simp
  then show ?case by (simp add: split_beta Let_def)
qed

lemma flush_ids_count:
  "distinct us \<Longrightarrow>
   fst (flush_ids ops now us l) = length (filter (is_dirty (snd (flush_ids ops now us l))) us)"
proof (induction us arbitrary: l)
  case Nil
  then show ?case by simp
next
  case (Cons u us)
  obtain written l1 where one: "flush_one ops now u l = (written, l1)" by fastforce
  obtain pending l2 where rest: "flush_ids ops now us l1 = (pending, l2)" by fastforce
  have "is_dirty l2 u = is_dirty l1 u"
    using Cons.prems flush_ids_other [of u us ops now l1] rest by (simp add: is_dirty_def)
  moreover have "written \<longleftrightarrow> \<not> is_dirty l1 u" using flush_one_dirty [of ops now u l] one by simp
  moreover have "pending = length (filter (is_dirty l2) us)"
    using Cons.IH [of l1] Cons.prems rest by simp
  ultimately show ?case using one rest by simp
qed

lemma flush_count:
  assumes "gomap (ln_links l)" and "linker_flush ops now l = (n, l')"
  shows "n = length (dirty_ids l')"
proof -
  let ?us = "dirty_ids l"
  from assms(2) have f: "n = fst (flush_ids ops now ?us l)" "l' = snd (flush_ids ops now ?us l)"
    by (simp_all add: linker_flush_def)
  have g: "gomap (ln_links l')" using assms(1) f(2) by simp
  have "set (dirty_ids l') = set (filter (is_dirty l') ?us)"
  proof -
    have "is_dirty l' v \<Longrightarrow> v \<in> set ?us" for v
      using flush_ids_other [of v ?us ops now l] dirty_ids_iff [OF assms(1), of v] f(2)
      by (auto simp: is_dirty_def)
    then show ?thesis by (auto simp: dirty_ids_iff [OF g])
  qed
  with dirty_ids_distinct [OF assms(1)] dirty_ids_distinct [OF g]
  have "length (dirty_ids l') = length (filter (is_dirty l') ?us)"
    by (metis distinct_card distinct_filter)
  with flush_ids_count [OF dirty_ids_distinct [OF assms(1)], of ops now l] f show ?thesis by simp
qed

subsection \<open>A store that can be away\<close>

text \<open>MemStore behind a connection: with the flag set, every call fails.\<close>

type_synonym flaky = "bool \<times> (string \<times> link) list"

definition away :: link_error where "away = StoreDown ''away''"

definition flaky_links :: "flaky link_ops" where
  "flaky_links =
     \<lparr>lk_get = (\<lambda>u (down, m). if down then Inl away else links_get u m),
      lk_put = (\<lambda>u lk (down, m). if down then (Some away, (down, m))
        else (let (err, m') = links_put u lk m in (err, (down, m')))),
      lk_delete = (\<lambda>u (down, m). if down then (Some away, (down, m))
        else (let (err, m') = links_delete u m in (err, (down, m')))),
      lk_update = (\<lambda>u fn (down, m). if down then (None, Some away, (down, m))
        else (let (seen, err, m') = links_update u fn m in (seen, err, (down, m'))))\<rparr>"

interpretation flaky_lk: link_store flaky_links "\<lambda>s. map_of (snd s)"
  by unfold_locales
    (auto simp: flaky_links_def links_get_def links_put_def links_delete_def links_update_def Let_def
      apply_link_def fun_eq_iff away_def split: option.splits if_splits)

lemma flaky_store: "link_store flaky_links (\<lambda>s. map_of (snd s))"
  by (rule flaky_lk.link_store_axioms)

definition sample_copy :: "string \<Rightarrow> string \<Rightarrow> cached_link" where
  "sample_copy token stored =
     \<lparr>ca_link = \<lparr>li_sub = ''s'', li_email = ''e'', li_refresh = token, li_linked_at = 1,
        li_id_token = ''i'', li_expiry = 2, li_lease = None\<rparr>,
      ca_checked = 1, ca_dirty = True, ca_served = 0, ca_refreshed = 0, ca_stored = stored\<rparr>"

definition pending_linker :: "string \<Rightarrow> string \<Rightarrow> 's \<Rightarrow> 's linker" where
  "pending_linker token stored s = (new_linker s)\<lparr>ln_links := [(''u'', sample_copy token stored)]\<rparr>"

lemma flush_settles:
  assumes "link_store ops cur" and "entry_of l u = Some c" and "ca_dirty c"
    and "flush_one ops now u l = (written, l')"
  shows "(\<not> written \<longrightarrow> entry_of l' u = Some c \<and> cur (ln_store l') = cur (ln_store l)) \<and>
    (written \<longrightarrow>
      cur (ln_store l') u =
        (if ca_stored c = '''' \<or> (\<exists>s. cur (ln_store l) u = Some s \<and> li_refresh s = ca_stored c)
         then Some (ca_link c) else cur (ln_store l) u) \<and>
      (case cur (ln_store l') u of
         None \<Rightarrow> entry_of l' u = None
       | Some s \<Rightarrow> \<exists>c'. entry_of l' u = Some c' \<and> \<not> ca_dirty c' \<and> li_refresh (ca_link c') = li_refresh s))"
proof (cases "ca_stored c = ''''")
  case True
  obtain err s where p: "lk_put ops u (ca_link c) (ln_store l) = (err, s)" by fastforce
  with assms True link_store.put_ok [OF assms(1)] link_store.put_err [OF assms(1)] show ?thesis
    by (cases err) (auto simp: flush_one_def link_simps)
next
  case False
  obtain seen err s where p:
    "lk_update ops u (rotated_fn (ca_stored c) (ca_link c)) (ln_store l) = (seen, err, s)" by (metis prod.exhaust)
  from assms False have f: "flush_rotated ops now u (ca_stored c) (ca_link c) l = (written, l')"
    by (simp add: flush_one_def)
  show ?thesis
  proof (cases err)
    case None
    with link_store.update_ok [OF assms(1)] p have
      "seen = Some (cur (ln_store l) u)"
      "cur s = (cur (ln_store l))(u := apply_link (rotated_fn (ca_stored c) (ca_link c) (cur (ln_store l) u)) (cur (ln_store l) u))"
      by blast+
    with f p None False assms(2) show ?thesis
      by (cases "cur (ln_store l) u")
        (auto simp: flush_rotated_def link_simps rotated_fn_def apply_link_def Let_def split: if_splits)
  next
    case (Some e)
    with link_store.update_err [OF assms(1)] p have "cur s = cur (ln_store l)" by blast
    with f p Some assms(2) show ?thesis by (auto simp: flush_rotated_def link_simps)
  qed
qed

subsection \<open>Properties\<close>

text \<open>C33: A retry of a pending link write settles it. Reported undone, the copy still holds the link and
  the store is as it was. Reported done, the store holds the link if it was a sign-in or if the store
  still held the token the link was rotated from, and otherwise what it held; and the copy agrees with
  the store on the refresh token, or is gone when the store has no link.
\<close>

theorem pending_write_settles:
  assumes "link_store ops cur" and "entry_of l u = Some c" and "ca_dirty c"
    and "flush_one ops now u l = (written, l')"
  shows "(\<not> written \<longrightarrow> entry_of l' u = Some c \<and> cur (ln_store l') = cur (ln_store l)) \<and>
    (written \<longrightarrow>
      cur (ln_store l') u =
        (if ca_stored c = '''' \<or> (\<exists>s. cur (ln_store l) u = Some s \<and> li_refresh s = ca_stored c)
         then Some (ca_link c) else cur (ln_store l) u) \<and>
      (case cur (ln_store l') u of
         None \<Rightarrow> entry_of l' u = None
       | Some s \<Rightarrow> \<exists>c'. entry_of l' u = Some c' \<and> \<not> ca_dirty c' \<and> li_refresh (ca_link c') = li_refresh s))"
  using flush_settles [OF assms] by blast

theorem pending_write_settles_witness:
  "entry_of (snd (flush_one flaky_links 5 ''u'' (pending_linker ''b'' ''a'' (True, [])))) ''u''
     = Some (sample_copy ''b'' ''a'')"
proof -
  let ?l = "pending_linker ''b'' ''a'' (True, [] :: (string \<times> link) list)"
  have e: "entry_of ?l ''u'' = Some (sample_copy ''b'' ''a'')" by (simp add: pending_linker_def)
  obtain l' where f: "flush_one flaky_links 5 ''u'' ?l = (False, l')"
    by (simp add: flush_one_def flush_rotated_def pending_linker_def new_linker_def sample_copy_def flaky_links_def)
  have d: "ca_dirty (sample_copy ''b'' ''a'')" by (simp add: sample_copy_def)
  from pending_write_settles [OF flaky_store e d f] f show ?thesis by simp
qed

text \<open>Close reports exactly how many links the store still does not hold.
\<close>

theorem close_reports_unwritten:
  assumes "gomap (ln_links l)" and "linker_close ops now l = (n, l')"
  shows "n = length (dirty_ids l')"
  by (rule flush_count [OF _ assms(2) [unfolded linker_close_def]]) (simp add: assms(1))

theorem close_reports_unwritten_witness:
  "fst (linker_close flaky_links 5 (pending_linker ''b'' ''a'' (True, []))) = 1"
proof -
  let ?l = "pending_linker ''b'' ''a'' (True, [] :: (string \<times> link) list)"
  obtain n l' where c: "linker_close flaky_links 5 ?l = (n, l')" by fastforce
  have "dirty_ids l' = [''u'']" using c
    by (auto simp: linker_close_def linker_flush_def dirty_ids_def flush_one_def flush_rotated_def
        pending_linker_def new_linker_def sample_copy_def flaky_links_def)
  with close_reports_unwritten [OF _ c] c show ?thesis by (simp add: pending_linker_def)
qed

text \<open>C36: A sign-in saved while a rotated link was still pending and the store away is dropped by the
  retry when the store comes back without a link: it is gone from the process and was never written,
  although a pending sign-in is documented to replace whatever the store holds.
\<close>

theorem pending_sign_in_dropped:
  assumes "link_store ops cur" and "entry_of l u = Some c" and "ca_dirty c" and "ca_stored c \<noteq> ''''"
    and "lk_put ops u lk (ln_store l) = (Some e, s)"
    and "cur s2 u = None"
    and "flush_one ops later u ((linker_save ops now now u lk l)\<lparr>ln_store := s2\<rparr>) = (True, l')"
  shows "is_dirty (linker_save ops now now u lk l) u \<and> entry_of l' u = None \<and> cur (ln_store l') u = None"
proof -
  let ?l = "(linker_save ops now now u lk l)\<lparr>ln_store := s2\<rparr>"
  have e: "entry_of ?l u = Some (fresh_copy (Some c) lk now True)"
    using assms(2,5) by (simp add: linker_save_def link_simps Let_def)
  then have d: "is_dirty (linker_save ops now now u lk l) u"
    by (simp add: is_dirty_def link_simps)
  have stored: "ca_stored (fresh_copy (Some c) lk now True) = ca_stored c"
    using assms(3) by (simp add: fresh_copy_def)
  from flush_settles [OF assms(1) e _ assms(7)] assms(4,6) stored d show ?thesis
    by (simp add: link_simps split: option.splits)
qed

theorem pending_sign_in_dropped_witness:
  "entry_of (snd (flush_one flaky_links 9 ''u''
     ((linker_save flaky_links 5 5 ''u'' (ca_link (sample_copy ''c'' ''''))
        (pending_linker ''b'' ''a'' (True, [])))\<lparr>ln_store := (False, [])\<rparr>))) ''u'' = None"
proof -
  let ?l = "pending_linker ''b'' ''a'' (True, [] :: (string \<times> link) list)"
  let ?lk = "ca_link (sample_copy ''c'' '''')"
  have e: "entry_of ?l ''u'' = Some (sample_copy ''b'' ''a'')" by (simp add: pending_linker_def)
  have p: "lk_put flaky_links ''u'' ?lk (ln_store ?l) = (Some away, (True, []))"
    by (simp add: flaky_links_def pending_linker_def new_linker_def)
  obtain l' where f: "flush_one flaky_links 9 ''u''
      ((linker_save flaky_links 5 5 ''u'' ?lk ?l)\<lparr>ln_store := (False, [])\<rparr>) = (True, l')"
    by (simp add: flush_one_def flush_rotated_def linker_save_def linker_put_def schedule_flush_def
        fresh_copy_def pending_linker_def new_linker_def sample_copy_def flaky_links_def links_update_def
        rotated_fn_def Let_def)
  have s: "map_of (snd (False, [] :: (string \<times> link) list)) ''u'' = None" by simp
  from pending_sign_in_dropped [OF flaky_store e _ _ p s f] f show ?thesis by (simp add: sample_copy_def)
qed

end
