(* ===== verification/Refresh.thy ===== *)
theory Refresh
  imports LinkCache
begin

section \<open>Refreshing a token under a lease\<close>

text \<open>
  \<open>pkg/auth/musterlink/lease.go\<close>, \<open>refresh.go\<close> and the refresh of
  \<open>musterlink.go\<close>. The token endpoint of muster is an argument: its answer to the refresh
  token it is presented. A wait is the list of its polls, each with the readings of the clock and
  with what other goroutines and other processes do before it; an empty list is the end of the wait.
  Where an attempt sends a request, the model also gives the refresh token it presented.
\<close>

datatype token_answer = InvalidGrant | NoAnswer | Rotated string string gotime

datatype lease_result = LeaseHeld | LeaseSkipped | LeaseAdopted link

datatype request_result = Answered string gotime | Failed link_fault | Replaced link

record 's poll =
  po_others :: "'s linker \<Rightarrow> 's linker"
  po_now :: gotime
  po_later :: gotime
  po_cancelled :: bool

record 's request =
  rq_answer :: "string \<Rightarrow> token_answer"
  rq_others :: "'s linker \<Rightarrow> 's linker"
  rq_now :: gotime
  rq_later :: gotime

record 's attempt =
  at_polls :: "'s poll list"
  at_request :: "'s request"
  at_now :: gotime

subsection \<open>The lease\<close>

definition leased_elsewhere :: "link_config \<Rightarrow> gotime \<Rightarrow> link \<Rightarrow> bool" where
  "leased_elsewhere cfg now c =
     (case li_lease c of
        None \<Rightarrow> False
      | Some e \<Rightarrow> le_holder e \<noteq> lc_holder cfg \<and> now < le_until e)"

definition lease_fn :: "link_config \<Rightarrow> gotime \<Rightarrow> string \<Rightarrow> link_fn" where
  "lease_fn cfg now presented current =
     (case current of
        None \<Rightarrow> None
      | Some c \<Rightarrow>
          if li_refresh c \<noteq> presented then None
          else if leased_elsewhere cfg now c then None
          else Some (Some (c\<lparr>li_lease :=
                 Some \<lparr>le_holder = lc_holder cfg, le_until = now + lc_lease_ttl cfg\<rparr>\<rparr>)))"

fun acquire_polls ::
  "'s link_ops \<Rightarrow> link_config \<Rightarrow> string \<Rightarrow> link \<Rightarrow> 's poll list \<Rightarrow> 's linker \<Rightarrow>
   (link_fault + lease_result) \<times> 's linker" where
  "acquire_polls ops cfg u lk [] l = (Inl Contended, l)"
| "acquire_polls ops cfg u lk (p # ps) l =
     (let l0 = po_others p l;
          (seen, err, s) = lk_update ops u (lease_fn cfg (po_now p) (li_refresh lk)) (ln_store l0);
          l1 = l0\<lparr>ln_store := s\<rparr>;
          busy = (if ps = [] then (Inl Contended, l1)
                  else if po_cancelled p then (Inl WaitEnded, l1)
                  else acquire_polls ops cfg u lk ps l1)
      in case err of
           Some StoreConflict \<Rightarrow> busy
         | Some e \<Rightarrow> (Inl (LeaseFailed e), l1)
         | None \<Rightarrow>
             (case seen of
                None \<Rightarrow> (Inr LeaseHeld, l1)
              | Some None \<Rightarrow> (Inl NotLinked, linker_forget u l1)
              | Some (Some c) \<Rightarrow>
                  if li_refresh c \<noteq> li_refresh lk then (Inr (LeaseAdopted c), adopt (po_later p) u c l1)
                  else if leased_elsewhere cfg (po_now p) c then busy
                  else (Inr LeaseHeld, l1)))"

definition acquire_refresh_lease ::
  "'s link_ops \<Rightarrow> link_config \<Rightarrow> string \<Rightarrow> link \<Rightarrow> 's poll list \<Rightarrow> 's linker \<Rightarrow>
   (link_fault + lease_result) \<times> 's linker" where
  "acquire_refresh_lease ops cfg u lk polls l =
     (if is_dirty l u then (Inr LeaseSkipped, l) else acquire_polls ops cfg u lk polls l)"

definition release_fn :: "link_config \<Rightarrow> string \<Rightarrow> link_fn" where
  "release_fn cfg presented current =
     (case current of
        None \<Rightarrow> None
      | Some c \<Rightarrow>
          (case li_lease c of
             None \<Rightarrow> None
           | Some e \<Rightarrow>
               if li_refresh c \<noteq> presented \<or> le_holder e \<noteq> lc_holder cfg then None
               else Some (Some (c\<lparr>li_lease := None\<rparr>))))"

definition release_refresh_lease ::
  "'s link_ops \<Rightarrow> link_config \<Rightarrow> string \<Rightarrow> string \<Rightarrow> 's linker \<Rightarrow> 's linker" where
  "release_refresh_lease ops cfg u presented l =
     (let (_, _, s) = lk_update ops u (release_fn cfg presented) (ln_store l) in l\<lparr>ln_store := s\<rparr>)"

subsection \<open>The outcome of a request\<close>

text \<open>\<open>saveRotated\<close>; \<open>None\<close> when the rotated link is this process's to go on with.\<close>

definition save_rotated ::
  "'s link_ops \<Rightarrow> gotime \<Rightarrow> gotime \<Rightarrow> string \<Rightarrow> string \<Rightarrow> link \<Rightarrow> 's linker \<Rightarrow>
   request_result option \<times> 's linker" where
  "save_rotated ops now later u presented updated l =
     (let l1 = with_entry u (\<lambda>c. c\<lparr>ca_stored := presented\<rparr>) (linker_put u updated now True l);
          (seen, err, s) = lk_update ops u (rotated_fn presented updated) (ln_store l1);
          l2 = l1\<lparr>ln_store := s\<rparr>
      in case err of
           Some e \<Rightarrow> (None, schedule_flush l2)
         | None \<Rightarrow>
             (case seen of
                Some None \<Rightarrow> (Some (Failed NotLinked), linker_forget u l2)
              | Some (Some c) \<Rightarrow>
                  if li_refresh c \<noteq> presented then (Some (Replaced c), adopt later u c l2)
                  else (None, mark_clean later u l2)
              | None \<Rightarrow> (None, mark_clean later u l2)))"

definition refused_fn :: "string \<Rightarrow> link_fn" where
  "refused_fn presented current =
     (case current of
        None \<Rightarrow> None
      | Some c \<Rightarrow> if li_refresh c \<noteq> presented then None else Some None)"

definition drop_refused ::
  "'s link_ops \<Rightarrow> gotime \<Rightarrow> string \<Rightarrow> string \<Rightarrow> 's linker \<Rightarrow> request_result \<times> 's linker" where
  "drop_refused ops now u presented l =
     (let l1 = linker_forget u l;
          (seen, err, s) = lk_update ops u (refused_fn presented) (ln_store l1);
          l2 = l1\<lparr>ln_store := s\<rparr>
      in case err of
           Some e \<Rightarrow> (Failed NotLinked, l2)
         | None \<Rightarrow>
             (case seen of
                Some (Some c) \<Rightarrow>
                  if li_refresh c \<noteq> presented then (Replaced c, adopt now u c l2) else (Failed NotLinked, l2)
              | _ \<Rightarrow> (Failed NotLinked, l2)))"

text \<open>
  \<open>idTokenExpiry\<close>: \<open>exp_of\<close> is the exp claim of a JWT payload, base64 and JSON decoded.
\<close>

definition unix_time :: "int \<Rightarrow> gotime" where
  "unix_time n = (62135596800 + n) * seconds"

definition id_token_expiry :: "(string \<Rightarrow> int option) \<Rightarrow> string \<Rightarrow> gotime \<Rightarrow> gotime" where
  "id_token_expiry exp_of token fallback =
     (let parts = split_on (CHR ''.'') token
      in if length parts \<noteq> 3 then fallback
         else case exp_of (parts ! 1) of
                None \<Rightarrow> fallback
              | Some e \<Rightarrow> if e = 0 then fallback else unix_time e)"

definition rotated_link ::
  "(string \<Rightarrow> int option) \<Rightarrow> link \<Rightarrow> string \<Rightarrow> string \<Rightarrow> gotime \<Rightarrow> link" where
  "rotated_link exp_of lk token id_token expiry =
     lk\<lparr>li_lease := None,
        li_refresh := (if token \<noteq> '''' then token else li_refresh lk),
        li_id_token := id_token,
        li_expiry := (if id_token = '''' then 0 else id_token_expiry exp_of id_token expiry)\<rparr>"

definition send_refresh_request ::
  "(string \<Rightarrow> int option) \<Rightarrow> 's link_ops \<Rightarrow> link_config \<Rightarrow> 's request \<Rightarrow> string \<Rightarrow> link \<Rightarrow> bool \<Rightarrow>
   's linker \<Rightarrow> request_result \<times> 's linker" where
  "send_refresh_request exp_of ops cfg r u lk leased l =
     (let l0 = rq_others r l
      in case rq_answer r (li_refresh lk) of
           InvalidGrant \<Rightarrow>
             (let stored = stored_refresh_token_of l0 u;
                  refused = (if \<not> leased \<and> stored \<noteq> '''' then stored else li_refresh lk)
              in drop_refused ops (rq_now r) u refused l0)
         | NoAnswer \<Rightarrow>
             (Failed RequestFailed,
              if leased then release_refresh_lease ops cfg u (li_refresh lk) l0 else l0)
         | Rotated token id_token expiry \<Rightarrow>
             (let updated = rotated_link exp_of lk token id_token expiry;
                  (stop, l1) =
                    (if leased then save_rotated ops (rq_now r) (rq_later r) u (li_refresh lk) updated l0
                     else (None, linker_save ops (rq_now r) (rq_later r) u updated l0))
              in case stop of
                   Some result \<Rightarrow> (result, l1)
                 | None \<Rightarrow>
                     if id_token = '''' then (Failed NoIdToken, l1)
                     else (Answered id_token (li_expiry updated), note_refreshed (rq_later r) u l1)))"

subsection \<open>The attempts of a refresh\<close>

definition refresh_attempts :: nat where "refresh_attempts = 3"

text \<open>The result, the refresh tokens presented and the state; \<open>env n\<close> is what the attempt meets
  with \<open>n\<close> left after it.\<close>

fun refresh_loop ::
  "(string \<Rightarrow> int option) \<Rightarrow> 's link_ops \<Rightarrow> link_config \<Rightarrow> (nat \<Rightarrow> 's attempt) \<Rightarrow> string \<Rightarrow> nat \<Rightarrow>
   link \<Rightarrow> 's linker \<Rightarrow> (link_fault + string \<times> gotime) \<times> string list \<times> 's linker" where
  "refresh_loop exp_of ops cfg env u 0 lk l = (Inl Contended, [], l)"
| "refresh_loop exp_of ops cfg env u (Suc n) lk l =
     (let retry = (\<lambda>presented c l2.
            let cached = reusable_token cfg u c (at_now (env n)) l2
            in if cached \<noteq> '''' then (Inr (cached, li_expiry c), presented, l2)
               else if n = 0 then (Inl Contended, presented, l2)
               else (let (result, ps, l3) = refresh_loop exp_of ops cfg env u n c l2
                     in (result, presented @ ps, l3)))
      in case acquire_refresh_lease ops cfg u lk (at_polls (env n)) l of
           (Inl fault, l1) \<Rightarrow> (Inl fault, [], l1)
         | (Inr (LeaseAdopted c), l1) \<Rightarrow> retry [] c l1
         | (Inr held, l1) \<Rightarrow>
             (case send_refresh_request exp_of ops cfg (at_request (env n)) u lk (held = LeaseHeld) l1 of
                (Answered token expiry, l2) \<Rightarrow> (Inr (token, expiry), [li_refresh lk], l2)
              | (Failed fault, l2) \<Rightarrow> (Inl fault, [li_refresh lk], l2)
              | (Replaced c, l2) \<Rightarrow> retry [li_refresh lk] c l2))"

text \<open>\<open>endpoints\<close>: the discovery of muster's endpoints succeeded.\<close>

definition refresh_link ::
  "(string \<Rightarrow> int option) \<Rightarrow> 's link_ops \<Rightarrow> link_config \<Rightarrow> bool \<Rightarrow> (nat \<Rightarrow> 's attempt) \<Rightarrow> string \<Rightarrow>
   link \<Rightarrow> 's linker \<Rightarrow> (link_fault + string \<times> gotime) \<times> string list \<times> 's linker" where
  "refresh_link exp_of ops cfg endpoints env u lk l =
     (if \<not> endpoints then (Inl NoEndpoints, [], l)
      else refresh_loop exp_of ops cfg env u refresh_attempts lk l)"

record 's token_env =
  te_now :: gotime
  te_locked :: gotime
  te_served :: gotime
  te_meanwhile :: "'s linker \<Rightarrow> 's linker"
  te_wait :: "'s linker \<Rightarrow> 's linker"
  te_endpoints :: bool
  te_attempts :: "nat \<Rightarrow> 's attempt"

text \<open>\<open>te_wait\<close> is what runs while the caller waits for the user's lock.\<close>

definition token_for ::
  "(string \<Rightarrow> int option) \<Rightarrow> 's link_ops \<Rightarrow> link_config \<Rightarrow> 's token_env \<Rightarrow> string \<Rightarrow> 's linker \<Rightarrow>
   (link_fault + string) \<times> string list \<times> 's linker" where
  "token_for exp_of ops cfg e u l =
     (let (first, l1) = linker_load ops cfg (te_now e) (te_meanwhile e) u l;
          quick = (case first of Inl _ \<Rightarrow> '''' | Inr lk \<Rightarrow> reusable_token cfg u lk (te_now e) l1)
      in if quick \<noteq> '''' then (Inr quick, [], note_served (te_served e) u l1)
         else
           (case linker_load ops cfg (te_locked e) (te_meanwhile e) u (te_wait e l1) of
              (Inl fault, l2) \<Rightarrow> (Inl fault, [], l2)
            | (Inr lk, l2) \<Rightarrow>
                (let tok = reusable_token cfg u lk (te_locked e) l2
                 in if tok \<noteq> '''' then (Inr tok, [], note_served (te_served e) u l2)
                    else
                      (case refresh_link exp_of ops cfg (te_endpoints e) (te_attempts e) u lk l2 of
                         (Inl fault, ps, l3) \<Rightarrow> (Inl fault, ps, l3)
                       | (Inr (tok, expiry), ps, l3) \<Rightarrow> (Inr tok, ps, note_served (te_served e) u l3)))))"

subsection \<open>The background refresher\<close>

definition refresh_ahead_of_expiry ::
  "(string \<Rightarrow> int option) \<Rightarrow> 's link_ops \<Rightarrow> link_config \<Rightarrow> 's token_env \<Rightarrow> string \<Rightarrow> 's linker \<Rightarrow> bool \<times> 's linker" where
  "refresh_ahead_of_expiry exp_of ops cfg e u l =
     (case linker_load ops cfg (te_now e) (te_meanwhile e) u l of
        (Inl fault, l1) \<Rightarrow> (False, l1)
      | (Inr lk, l1) \<Rightarrow>
          if \<not> is_due cfg l1 u (te_locked e) then (False, l1)
          else
            (case refresh_link exp_of ops cfg (te_endpoints e) (te_attempts e) u lk l1 of
               (Inl fault, ps, l2) \<Rightarrow> (False, l2)
             | (Inr tok, ps, l2) \<Rightarrow> (True, l2)))"

fun refresh_each ::
  "(string \<Rightarrow> int option) \<Rightarrow> 's link_ops \<Rightarrow> link_config \<Rightarrow> (string \<Rightarrow> 's token_env) \<Rightarrow> string list \<Rightarrow>
   's linker \<Rightarrow> nat \<times> 's linker" where
  "refresh_each exp_of ops cfg env [] l = (0, l)"
| "refresh_each exp_of ops cfg env (u # us) l =
     (let (done_one, l1) = refresh_ahead_of_expiry exp_of ops cfg (env u) u l;
          (n, l2) = refresh_each exp_of ops cfg env us l1
      in (if done_one then Suc n else n, l2))"

definition refresh_due ::
  "(string \<Rightarrow> int option) \<Rightarrow> 's link_ops \<Rightarrow> link_config \<Rightarrow> (string \<Rightarrow> 's token_env) \<Rightarrow> gotime \<Rightarrow>
   's linker \<Rightarrow> nat \<times> 's linker" where
  "refresh_due exp_of ops cfg env now l = refresh_each exp_of ops cfg env (due_for_refresh cfg now l) l"

subsection \<open>The rotated token is kept\<close>

lemma rotated_apply:
  "apply_link (rotated_fn stored lk current) current =
     (if \<exists>c. current = Some c \<and> li_refresh c = stored then Some lk else current)"
  by (auto simp: rotated_fn_def apply_link_def split: option.splits)

lemma save_rotated_cases:
  assumes "link_store ops cur" and "save_rotated ops now later u presented lk l = (stop, l')"
    and "li_lease lk = None"
  obtains (pending) c where "stop = None" "entry_of l' u = Some c" "ca_dirty c" "ca_link c = lk"
      "ca_stored c = presented" "ln_armed l' \<or> ln_closed l'" "cur (ln_store l') = cur (ln_store l)"
  | (written) c where "stop = None" "entry_of l' u = Some c" "\<not> ca_dirty c" "ca_link c = lk"
      "\<exists>s. cur (ln_store l) u = Some s \<and> li_refresh s = presented"
      "cur (ln_store l') = (cur (ln_store l))(u \<mapsto> lk)"
  | (removed) "stop = Some (Failed NotLinked)" "entry_of l' u = None" "cur (ln_store l) u = None"
      "cur (ln_store l') = cur (ln_store l)"
  | (replaced) s c where "stop = Some (Replaced s)" "entry_of l' u = Some c" "\<not> ca_dirty c"
      "ca_link c = s\<lparr>li_lease := None\<rparr>" "li_refresh s \<noteq> presented" "cur (ln_store l) u = Some s"
      "cur (ln_store l') = cur (ln_store l)"
proof -
  let ?l1 = "with_entry u (\<lambda>c. c\<lparr>ca_stored := presented\<rparr>) (linker_put u lk now True l)"
  obtain seen err s where p: "lk_update ops u (rotated_fn presented lk) (ln_store ?l1) = (seen, err, s)"
    by (metis prod.exhaust)
  have lk: "lk\<lparr>li_lease := None\<rparr> = lk" using assms(3) by simp
  show thesis
  proof (cases err)
    case (Some e)
    with link_store.update_err [OF assms(1)] p have "cur s = cur (ln_store l)" by (simp add: link_simps)
    moreover have "stop = None" "l' = schedule_flush (?l1\<lparr>ln_store := s\<rparr>)"
      using assms(2) p Some by (simp_all add: save_rotated_def)
    ultimately show thesis by (intro pending) (auto simp: link_simps lk)
  next
    case None
    with link_store.update_ok [OF assms(1)] p have seen: "seen = Some (cur (ln_store l) u)"
      and s: "cur s = (cur (ln_store l))(u := apply_link (rotated_fn presented lk (cur (ln_store l) u)) (cur (ln_store l) u))"
      by (auto simp: link_simps)
    show thesis
    proof (cases "cur (ln_store l) u")
      case None
      with s have "cur s = cur (ln_store l)" by (auto simp: rotated_apply)
      moreover have "stop = Some (Failed NotLinked)" "l' = linker_forget u (?l1\<lparr>ln_store := s\<rparr>)"
        using assms(2) p \<open>err = None\<close> seen None by (simp_all add: save_rotated_def)
      ultimately show thesis using None by (intro removed) (auto simp: link_simps)
    next
      case (Some c)
      show thesis
      proof (cases "li_refresh c = presented")
        case True
        have "stop = None" "l' = mark_clean later u (?l1\<lparr>ln_store := s\<rparr>)"
          using assms(2) p \<open>err = None\<close> seen Some True by (simp_all add: save_rotated_def)
        moreover have "cur s = (cur (ln_store l))(u \<mapsto> lk)" using s Some True by (simp add: rotated_apply)
        ultimately show thesis using Some True by (intro written) (auto simp: link_simps lk)
      next
        case False
        have "stop = Some (Replaced c)" "l' = adopt later u c (?l1\<lparr>ln_store := s\<rparr>)"
          using assms(2) p \<open>err = None\<close> seen Some False by (simp_all add: save_rotated_def)
        moreover have "cur s = cur (ln_store l)" using s Some False by (auto simp: rotated_apply)
        ultimately show thesis using Some False by (intro replaced [of c]) (auto simp: link_simps)
      qed
    qed
  qed
qed

text \<open>C31: The refresh token muster rotated a leased one into is never lost: the store holds it, or the
  process holds it unsaved with a retry due and the token it replaces in the store noted, or the link
  in the store was removed or replaced by a sign-in meanwhile and the process follows the store.
\<close>

theorem rotated_token_kept:
  assumes "link_store ops cur"
    and "rq_answer r (li_refresh lk) = Rotated token id_token expiry"
    and "send_refresh_request exp_of ops cfg r u lk True l = (result, l')"
  shows "(\<exists>c. entry_of l' u = Some c \<and> ca_link c = rotated_link exp_of lk token id_token expiry \<and>
      (if ca_dirty c
       then ca_stored c = li_refresh lk \<and> (ln_armed l' \<or> ln_closed l') \<and>
         cur (ln_store l') = cur (ln_store (rq_others r l))
       else cur (ln_store l') u = Some (rotated_link exp_of lk token id_token expiry))) \<or>
    (cur (ln_store (rq_others r l)) u = None \<and> entry_of l' u = None \<and> result = Failed NotLinked) \<or>
    (\<exists>s. cur (ln_store (rq_others r l)) u = Some s \<and> li_refresh s \<noteq> li_refresh lk \<and>
      cur (ln_store l') u = Some s \<and> result = Replaced s \<and>
      map_option ca_link (entry_of l' u) = Some (s\<lparr>li_lease := None\<rparr>))"
proof -
  let ?new = "rotated_link exp_of lk token id_token expiry"
  obtain stop l1 where s:
    "save_rotated ops (rq_now r) (rq_later r) u (li_refresh lk) ?new (rq_others r l) = (stop, l1)" by fastforce
  have stop: "stop = None \<Longrightarrow> l' = l1 \<or> l' = note_refreshed (rq_later r) u l1"
    "stop = Some x \<Longrightarrow> result = x \<and> l' = l1" for x
    using assms(2,3) s by (auto simp: send_refresh_request_def Let_def split: if_splits)
  have lease: "li_lease ?new = None" by (simp add: rotated_link_def)
  have noted: "ln_armed (note_refreshed t u l1) = ln_armed l1" "ln_closed (note_refreshed t u l1) = ln_closed l1" for t
    by (simp_all add: note_refreshed_def with_entry_def split: option.splits)
  have same: "\<exists>c'. entry_of l' u = Some c' \<and> ca_link c' = ca_link c \<and> ca_dirty c' = ca_dirty c \<and>
      ca_stored c' = ca_stored c \<and> ln_store l' = ln_store l1 \<and>
      (ln_armed l1 \<or> ln_closed l1 \<longrightarrow> ln_armed l' \<or> ln_closed l')"
    if "stop = None" "entry_of l1 u = Some c" for c
    using stop(1) [OF that(1)] that(2) noted by (auto simp: link_simps)
  from assms(1) s lease show ?thesis
  proof (rule save_rotated_cases)
    fix c assume c: "stop = None" "entry_of l1 u = Some c" "ca_dirty c" "ca_link c = ?new"
      "ca_stored c = li_refresh lk" "ln_armed l1 \<or> ln_closed l1"
      "cur (ln_store l1) = cur (ln_store (rq_others r l))"
    with same [OF c(1,2)] show ?thesis by auto
  next
    fix c assume c: "stop = None" "entry_of l1 u = Some c" "\<not> ca_dirty c" "ca_link c = ?new"
      "cur (ln_store l1) = (cur (ln_store (rq_others r l)))(u \<mapsto> ?new)"
    with same [OF c(1,2)] show ?thesis by auto
  next
    assume "stop = Some (Failed NotLinked)" "entry_of l1 u = None" "cur (ln_store (rq_others r l)) u = None"
    with stop(2) show ?thesis by auto
  next
    fix x c assume "stop = Some (Replaced x)" "entry_of l1 u = Some c" "ca_link c = x\<lparr>li_lease := None\<rparr>"
      "li_refresh x \<noteq> li_refresh lk" "cur (ln_store (rq_others r l)) u = Some x"
      "cur (ln_store l1) = cur (ln_store (rq_others r l))"
    with stop(2) show ?thesis by auto
  qed
qed

definition sample_config :: link_config where "sample_config = new_config 0 ''p''"

definition rotating :: "('s linker \<Rightarrow> 's linker) \<Rightarrow> 's request" where
  "rotating others =
     \<lparr>rq_answer = (\<lambda>t. Rotated (t @ ''+'') ''j'' 7), rq_others = others, rq_now = 5, rq_later = 6\<rparr>"

theorem rotated_token_kept_witness:
  "\<exists>c. entry_of (snd (send_refresh_request (\<lambda>_. None) flaky_links sample_config (rotating id) ''u''
      (ca_link (sample_copy ''a'' '''')) True (new_linker (True, [])))) ''u'' = Some c \<and>
    li_refresh (ca_link c) = ''a+'' \<and> ca_dirty c \<and> ca_stored c = ''a''"
proof -
  let ?lk = "ca_link (sample_copy ''a'' '''')"
  obtain result l' where s: "send_refresh_request (\<lambda>_. None) flaky_links sample_config (rotating id) ''u''
      ?lk True (new_linker (True, [])) = (result, l')" by fastforce
  have a: "rq_answer (rotating id) (li_refresh ?lk) = Rotated ''a+'' ''j'' 7"
    by (simp add: rotating_def sample_copy_def)
  have d: "is_dirty l' ''u''" using s
    by (auto simp: send_refresh_request_def save_rotated_def rotating_def new_linker_def flaky_links_def
        linker_put_def with_entry_def fresh_copy_def schedule_flush_def note_refreshed_def is_dirty_def
        sample_copy_def Let_def)
  from rotated_token_kept [OF flaky_store a s] d s show ?thesis
    by (auto simp: is_dirty_def rotating_def new_linker_def rotated_link_def sample_copy_def split: option.splits)
qed

text \<open>C35: A link not yet written whose token this process refreshes is then written unconditionally: a
  sign-out that another process completed in the store meanwhile is undone, although a pending
  rotation is documented to give way to a sign-in or sign-out that landed meanwhile.
\<close>

theorem pending_refresh_undoes_sign_out:
  assumes "link_store ops cur"
    and "is_dirty l u" and "acquire_refresh_lease ops cfg u lk polls l = (Inr held, l1)"
    and "cur (ln_store (rq_others r l1)) u = None"
    and "rq_answer r (li_refresh lk) = Rotated token id_token expiry"
    and "lk_put ops u (rotated_link exp_of lk token id_token expiry) (ln_store (rq_others r l1)) = (None, s)"
    and "send_refresh_request exp_of ops cfg r u lk (held = LeaseHeld) l1 = (result, l')"
  shows "cur (ln_store l') u = Some (rotated_link exp_of lk token id_token expiry)"
proof -
  from assms(2,3) have held: "held \<noteq> LeaseHeld" by (auto simp: acquire_refresh_lease_def)
  have "cur s u = Some (rotated_link exp_of lk token id_token expiry)"
    using link_store.put_ok [OF assms(1,6)] by simp
  moreover have "ln_store l' = s" using assms(5-7) held
    by (auto simp: send_refresh_request_def linker_save_def Let_def link_simps split: if_splits)
  ultimately show ?thesis by simp
qed

theorem pending_refresh_undoes_sign_out_witness:
  "\<exists>lk. map_of (snd (ln_store (snd (send_refresh_request (\<lambda>_. None) flaky_links sample_config (rotating id) ''u''
      (ca_link (sample_copy ''b'' '''')) False (pending_linker ''b'' ''a'' (False, [])))))) ''u'' = Some lk"
proof -
  let ?lk = "ca_link (sample_copy ''b'' '''')"
  let ?l = "pending_linker ''b'' ''a'' (False, [])"
  let ?new = "rotated_link (\<lambda>_. None) ?lk ''b+'' ''j'' 7"
  obtain result l' where s: "send_refresh_request (\<lambda>_. None) flaky_links sample_config (rotating id) ''u''
      ?lk (LeaseSkipped = LeaseHeld) ?l = (result, l')" by fastforce
  have d: "is_dirty ?l ''u''" by (simp add: is_dirty_def pending_linker_def sample_copy_def)
  have h: "acquire_refresh_lease flaky_links sample_config ''u'' ?lk [] ?l = (Inr LeaseSkipped, ?l)"
    using d by (simp add: acquire_refresh_lease_def)
  have n: "map_of (snd (ln_store (rq_others (rotating id) ?l))) ''u'' = None"
    by (simp add: rotating_def pending_linker_def new_linker_def)
  have a: "rq_answer (rotating id) (li_refresh ?lk) = Rotated ''b+'' ''j'' 7"
    by (simp add: rotating_def sample_copy_def)
  have p: "lk_put flaky_links ''u'' ?new (ln_store (rq_others (rotating id) ?l)) = (None, (False, [(''u'', ?new)]))"
    by (simp add: flaky_links_def rotating_def pending_linker_def new_linker_def links_put_def)
  from pending_refresh_undoes_sign_out [OF flaky_store d h n a p s] s show ?thesis by simp
qed

subsection \<open>The token a turn gets\<close>

definition covers_turn :: "link_config \<Rightarrow> cached_link \<Rightarrow> gotime \<Rightarrow> bool" where
  "covers_turn cfg c t \<longleftrightarrow>
     lc_min_lifetime cfg \<le> time_sub (li_expiry (ca_link c)) t \<or>
     token_refresh_skew < time_sub (li_expiry (ca_link c)) t \<and> ca_refreshed c \<noteq> 0 \<and>
       time_sub t (ca_refreshed c) < token_refresh_skew"

text \<open>The entry a link was loaded from or adopted into.\<close>

definition copy_of :: "link \<Rightarrow> cached_link \<Rightarrow> bool" where
  "copy_of lk c \<longleftrightarrow> li_id_token (ca_link c) = li_id_token lk \<and> li_expiry (ca_link c) = li_expiry lk"

lemma reusable_covers:
  assumes "reusable_token cfg u lk t l \<noteq> ''''" and "entry_of l u = Some c" and "copy_of lk c"
  shows "reusable_token cfg u lk t l = li_id_token (ca_link c) \<and> covers_turn cfg c t"
  using assms
  by (auto simp: reusable_token_def covers_turn_def copy_of_def refreshed_at_def Let_def split: if_splits)

lemma load_copy:
  assumes "linker_load ops cfg now meanwhile u l = (Inr lk, l')"
  shows "\<exists>c. entry_of l' u = Some c \<and> copy_of lk c"
  using assms
  by (auto simp: linker_load_def load_answer_def copy_of_def link_simps Let_def
      split: option.splits if_splits sum.splits)

lemma acquire_adopted_copy:
  assumes "acquire_refresh_lease ops cfg u lk ps l = (Inr (LeaseAdopted s), l')"
  shows "\<exists>c. entry_of l' u = Some c \<and> copy_of s c"
proof -
  have "acquire_polls ops cfg u lk ps l = (Inr (LeaseAdopted s), l') \<Longrightarrow> ?thesis"
    by (induction ops cfg u lk ps l rule: acquire_polls.induct)
      (auto simp: Let_def copy_of_def link_simps
        split: prod.splits option.splits link_error.splits if_splits)
  with assms show ?thesis by (auto simp: acquire_refresh_lease_def split: if_splits)
qed

lemma send_replaced_copy:
  assumes "send_refresh_request exp_of ops cfg r u lk leased l = (Replaced s, l')"
  shows "\<exists>c. entry_of l' u = Some c \<and> copy_of s c"
  using assms
  by (auto simp: send_refresh_request_def save_rotated_def drop_refused_def copy_of_def link_simps Let_def
      split: token_answer.splits prod.splits option.splits if_splits)

lemma send_answered_copy:
  assumes "send_refresh_request exp_of ops cfg r u lk leased l = (Answered tok expiry, l')"
  shows "\<exists>c. entry_of l' u = Some c \<and> li_id_token (ca_link c) = tok \<and> tok \<noteq> '''' \<and>
    ca_refreshed c = rq_later r"
  using assms
  by (auto simp: send_refresh_request_def save_rotated_def drop_refused_def linker_save_def
      rotated_link_def link_simps Let_def
      split: token_answer.splits prod.splits option.splits if_splits)

definition served_by :: "link_config \<Rightarrow> (nat \<Rightarrow> 's attempt) \<Rightarrow> nat \<Rightarrow> string list \<Rightarrow> cached_link \<Rightarrow> bool" where
  "served_by cfg env n ps c \<longleftrightarrow>
     (\<exists>m < n. covers_turn cfg c (at_now (env m))) \<or>
     (\<exists>m < n. ps \<noteq> [] \<and> ca_refreshed c = rq_later (at_request (env m)))"

lemma served_by_mono:
  "served_by cfg env n ps c \<Longrightarrow> n \<le> n' \<Longrightarrow> (ps \<noteq> [] \<Longrightarrow> ps' \<noteq> []) \<Longrightarrow> served_by cfg env n' ps' c"
  by (auto simp: served_by_def dest: less_le_trans)

lemma refresh_loop_served:
  assumes "refresh_loop exp_of ops cfg env u n lk l = (Inr (tok, expiry), ps, l')"
  shows "tok \<noteq> '''' \<and> (\<exists>c. entry_of l' u = Some c \<and> li_id_token (ca_link c) = tok \<and> served_by cfg env n ps c)"
  using assms
proof (induction n arbitrary: lk l ps)
  case 0
  then show ?case by simp
next
  case (Suc n)
  let ?retry = "\<lambda>presented c l2.
            let cached = reusable_token cfg u c (at_now (env n)) l2
            in if cached \<noteq> '''' then (Inr (cached, li_expiry c), presented, l2)
               else if n = 0 then (Inl Contended, presented, l2)
               else (let (result, ps, l3) = refresh_loop exp_of ops cfg env u n c l2
                     in (result, presented @ ps, l3))"
  have retry: ?case if r: "?retry pre s l2 = (Inr (tok, expiry), ps, l')"
    and c: "\<exists>c. entry_of l2 u = Some c \<and> copy_of s c" for pre s l2
  proof (cases "reusable_token cfg u s (at_now (env n)) l2 = ''''")
    case False
    with r have "l' = l2" "tok = reusable_token cfg u s (at_now (env n)) l2" by (auto simp: Let_def)
    with False c reusable_covers [OF False] show ?thesis by (auto simp: served_by_def)
  next
    case True
    with r obtain ps' where "refresh_loop exp_of ops cfg env u n s l2 = (Inr (tok, expiry), ps', l')"
      "ps = pre @ ps'" by (auto simp: Let_def split: if_splits prod.splits)
    with Suc.IH [of s l2 ps'] show ?thesis
      by (auto elim!: served_by_mono)
  qed
  obtain held l1 where a: "acquire_refresh_lease ops cfg u lk (at_polls (env n)) l = (held, l1)" by fastforce
  show ?case
  proof (cases held)
    case (Inl f)
    with Suc.prems a show ?thesis by simp
  next
    case (Inr h)
    show ?thesis
    proof (cases "\<exists>s. h = LeaseAdopted s")
      case True
      then obtain s where "h = LeaseAdopted s" by blast
      with Suc.prems a Inr have "?retry [] s l1 = (Inr (tok, expiry), ps, l')" by simp
      then show ?thesis by (rule retry) (use a Inr \<open>h = _\<close> acquire_adopted_copy in blast)
    next
      case False
      obtain res l2 where s: "send_refresh_request exp_of ops cfg (at_request (env n)) u lk (h = LeaseHeld) l1 = (res, l2)"
        by fastforce
      from Suc.prems a Inr False s have e: "(case res of
                Answered token expiry \<Rightarrow> (Inr (token, expiry), [li_refresh lk], l2)
              | Failed fault \<Rightarrow> (Inl fault, [li_refresh lk], l2)
              | Replaced c \<Rightarrow> ?retry [li_refresh lk] c l2) = (Inr (tok, expiry), ps, l')"
        by (cases h) simp_all
      show ?thesis
      proof (cases res)
        case (Answered t x)
        with e have "t = tok" "ps \<noteq> []" "l' = l2" by auto
        with send_answered_copy [OF s [unfolded Answered]] show ?thesis by (auto simp: served_by_def)
      next
        case (Failed f)
        with e show ?thesis by simp
      next
        case (Replaced x)
        with e have "?retry [li_refresh lk] x l2 = (Inr (tok, expiry), ps, l')" by simp
        then show ?thesis by (rule retry) (use s Replaced send_replaced_copy in blast)
      qed
    qed
  qed
qed

text \<open>C32: A token handed to a turn is the id_token of the person's link in this process, stamped as served.
  Either a refresh in this very call obtained it, or at one of the call's readings of the clock it had
  at least the configured minimum left, or more than a minute when this process had refreshed it less
  than a minute before.
\<close>

theorem token_covers_turn:
  assumes "token_for exp_of ops cfg e u l = (Inr tok, ps, l')"
  shows "tok \<noteq> '''' \<and> (\<exists>c. entry_of l' u = Some c \<and> li_id_token (ca_link c) = tok \<and> ca_served c = te_served e \<and>
    (covers_turn cfg c (te_now e) \<or> covers_turn cfg c (te_locked e) \<or>
     served_by cfg (te_attempts e) refresh_attempts ps c))"
proof -
  have stamp: ?thesis
    if "l' = note_served (te_served e) u l1" and "tok \<noteq> ''''"
      and "\<exists>c. entry_of l1 u = Some c \<and> li_id_token (ca_link c) = tok \<and>
        (covers_turn cfg c (te_now e) \<or> covers_turn cfg c (te_locked e) \<or>
         served_by cfg (te_attempts e) refresh_attempts ps c)" for l1
    using that by (auto simp: link_simps covers_turn_def served_by_def)
  obtain first l1 where ld: "linker_load ops cfg (te_now e) (te_meanwhile e) u l = (first, l1)" by fastforce
  let ?quick = "case first of Inl _ \<Rightarrow> '''' | Inr lk \<Rightarrow> reusable_token cfg u lk (te_now e) l1"
  show ?thesis
  proof (cases "?quick = ''''")
    case False
    then obtain lk where lk: "first = Inr lk" "reusable_token cfg u lk (te_now e) l1 \<noteq> ''''"
      by (auto split: sum.splits)
    with assms ld have "tok = reusable_token cfg u lk (te_now e) l1" "l' = note_served (te_served e) u l1"
      by (auto simp: token_for_def Let_def)
    with lk load_copy [OF ld [unfolded lk(1)]] reusable_covers [OF lk(2)] show ?thesis
      by (intro stamp) auto
  next
    case True
    obtain second l2 where ld2:
      "linker_load ops cfg (te_locked e) (te_meanwhile e) u (te_wait e l1) = (second, l2)" by fastforce
    with assms ld True obtain lk where lk: "second = Inr lk"
      by (cases second) (auto simp: token_for_def Let_def)
    note c = load_copy [OF ld2 [unfolded lk]]
    show ?thesis
    proof (cases "reusable_token cfg u lk (te_locked e) l2 = ''''")
      case False
      with assms ld True ld2 lk have "tok = reusable_token cfg u lk (te_locked e) l2"
        "l' = note_served (te_served e) u l2" by (auto simp: token_for_def Let_def)
      with False c reusable_covers [OF False] show ?thesis by (intro stamp) auto
    next
      case r: True
      obtain result ps' l3 where f: "refresh_link exp_of ops cfg (te_endpoints e) (te_attempts e) u lk l2 = (result, ps', l3)"
        by (metis prod.exhaust)
      with assms ld True ld2 lk r obtain expiry where "result = Inr (tok, expiry)" "ps' = ps"
        "l' = note_served (te_served e) u l3"
        by (cases result) (auto simp: token_for_def Let_def)
      moreover from this f have "refresh_loop exp_of ops cfg (te_attempts e) u refresh_attempts lk l2 = (Inr (tok, expiry), ps, l3)"
        by (auto simp: refresh_link_def split: if_splits)
      ultimately show ?thesis using refresh_loop_served by (intro stamp) blast+
    qed
  qed
qed

definition covered_copy :: cached_link where
  "covered_copy = (sample_copy ''a'' '''')\<lparr>ca_dirty := False,
     ca_link := (ca_link (sample_copy ''a'' ''''))\<lparr>li_expiry := 3600 * seconds\<rparr>\<rparr>"

definition still_env :: "'s token_env" where
  "still_env =
     \<lparr>te_now = 5, te_locked = 6, te_served = 7, te_meanwhile = id, te_wait = id, te_endpoints = True,
      te_attempts = (\<lambda>_. \<lparr>at_polls = [], at_request = rotating id, at_now = 8\<rparr>)\<rparr>"

theorem token_covers_turn_witness:
  "\<exists>c. entry_of (snd (snd (token_for (\<lambda>_. None) flaky_links sample_config still_env ''u''
     ((new_linker (True, []))\<lparr>ln_links := [(''u'', covered_copy)]\<rparr>)))) ''u'' = Some c \<and>
   li_id_token (ca_link c) = ''i'' \<and> ca_served c = 7"
proof -
  let ?l = "(new_linker (True, [] :: (string \<times> link) list))\<lparr>ln_links := [(''u'', covered_copy)]\<rparr>"
  have ld: "linker_load flaky_links sample_config 5 id ''u'' ?l = (Inr (ca_link covered_copy), ?l)"
    by (simp add: linker_load_def covered_copy_def sample_copy_def sample_config_def new_config_def
        link_cache_ttl_def seconds_def time_sub_def)
  have tok: "reusable_token sample_config ''u'' (ca_link covered_copy) 5 ?l = ''i''"
    by (simp add: reusable_token_def covered_copy_def sample_copy_def sample_config_def new_config_def
        default_min_token_lifetime_def token_refresh_skew_def seconds_def time_sub_def Let_def)
  obtain l' where t: "token_for (\<lambda>_. None) flaky_links sample_config still_env ''u'' ?l = (Inr ''i'', [], l')"
    by (simp add: token_for_def still_env_def ld [unfolded id_def] tok id_def)
  from token_covers_turn [OF t] t show ?thesis by (auto simp: still_env_def)
qed

end
