(* ===== verification/LeaseSpec.thy ===== *)
theory LeaseSpec
  imports Prelude
begin

section \<open>The lease protocol, abstractly\<close>

text \<open>
  Gateway processes, numbered, share one link in a store and refresh its token at muster. Of a
  process only the pending rotation counts (the token not yet written and the token of the store it
  replaces) and how far its refresh is; of the store the token and who holds the lease on it. muster
  issues fresh tokens and spends the one it rotates. The comment at the head of
  \<open>pkg/auth/musterlink/lease.go\<close> describes this protocol.
\<close>

datatype lease_phase =
    AtRest
  | Holding string
  | Asking string bool
  | Told string string bool

record lease_state =
  as_store :: "(string \<times> nat option) option"
  as_phase :: "nat \<Rightarrow> lease_phase"
  as_pending :: "nat \<Rightarrow> (string \<times> string) option"
  as_issued :: "string set"
  as_spent :: "string set"

text \<open>The token a leased refresh is about, the token muster just issued to it, and the tokens of the
  store the process still has to replace.\<close>

fun held_token :: "lease_phase \<Rightarrow> string option" where
  "held_token AtRest = None"
| "held_token (Holding t) = Some t"
| "held_token (Asking t leased) = (if leased then Some t else None)"
| "held_token (Told t n leased) = (if leased then Some t else None)"

fun told_token :: "lease_phase \<Rightarrow> string option" where
  "told_token (Told t n leased) = Some n"
| "told_token _ = None"

fun asked_token :: "lease_phase \<Rightarrow> string option" where
  "asked_token (Holding t) = Some t"
| "asked_token (Asking t leased) = Some t"
| "asked_token _ = None"

text \<open>What a process answers for: the tokens only it may present, and the store's tokens it replaces.\<close>

definition owns_of :: "lease_phase \<Rightarrow> (string \<times> string) option \<Rightarrow> string \<Rightarrow> bool" where
  "owns_of ph pend t \<longleftrightarrow> held_token ph = Some t \<or> told_token ph = Some t \<or> (\<exists>s. pend = Some (t, s))"

definition keeps_of :: "lease_phase \<Rightarrow> (string \<times> string) option \<Rightarrow> string \<Rightarrow> bool" where
  "keeps_of ph pend t \<longleftrightarrow> held_token ph = Some t \<or> (\<exists>x. pend = Some (x, t) \<and> t \<noteq> '''')"

abbreviation owns :: "lease_state \<Rightarrow> nat \<Rightarrow> string \<Rightarrow> bool" where
  "owns a p \<equiv> owns_of (as_phase a p) (as_pending a p)"

abbreviation keeps :: "lease_state \<Rightarrow> nat \<Rightarrow> string \<Rightarrow> bool" where
  "keeps a p \<equiv> keeps_of (as_phase a p) (as_pending a p)"

abbreviation move :: "nat \<Rightarrow> lease_phase \<Rightarrow> (string \<times> string) option \<Rightarrow> (string \<times> nat option) option \<Rightarrow>
    lease_state \<Rightarrow> lease_state" where
  "move p ph pend st a \<equiv>
     a\<lparr>as_store := st, as_phase := (as_phase a)(p := ph), as_pending := (as_pending a)(p := pend)\<rparr>"

inductive lease_step :: "lease_state \<Rightarrow> lease_state \<Rightarrow> bool" where
  take_lease: "as_phase a p = AtRest \<Longrightarrow> as_pending a p = None \<Longrightarrow> as_store a = Some (t, h) \<Longrightarrow>
    (\<And>q. q \<noteq> p \<Longrightarrow> \<not> keeps a q t) \<Longrightarrow>
    lease_step a (move p (Holding t) None (Some (t, Some p)) a)"
| nothing: "lease_step a a"
| ask_leased: "as_phase a p = Holding t \<Longrightarrow>
    lease_step a (move p (Asking t True) (as_pending a p) (as_store a) a)"
| ask_pending: "as_phase a p = AtRest \<Longrightarrow> as_pending a p = Some (t, s) \<Longrightarrow>
    lease_step a (move p (Asking t False) (Some (t, s)) (as_store a) a)"
| rotate: "as_phase a p = Asking t leased \<Longrightarrow> n \<notin> as_issued a \<Longrightarrow> n \<noteq> '''' \<Longrightarrow>
    lease_step a ((move p (Told t n leased) (as_pending a p) (as_store a) a)
      \<lparr>as_issued := insert n (as_issued a), as_spent := insert t (as_spent a)\<rparr>)"
| written: "as_phase a p = Told t n True \<Longrightarrow> as_store a = Some (t, h) \<Longrightarrow>
    lease_step a (move p AtRest None (Some (n, None)) a)"
| write_failed: "as_phase a p = Told t n True \<Longrightarrow>
    lease_step a (move p AtRest (Some (n, t)) (as_store a) a)"
| superseded: "as_phase a p = Told t n True \<Longrightarrow> (\<And>h. as_store a \<noteq> Some (t, h)) \<Longrightarrow>
    lease_step a (move p AtRest None (as_store a) a)"
| saved: "as_phase a p = Told t n False \<Longrightarrow>
    lease_step a (move p AtRest None (Some (n, None)) a)"
| save_failed: "as_phase a p = Told t n False \<Longrightarrow> as_pending a p = Some (t, s) \<Longrightarrow>
    lease_step a (move p AtRest (Some (n, s)) (as_store a) a)"
| refused: "as_phase a p = Asking t leased \<Longrightarrow> st = None \<or>
      st = as_store a \<and> (\<forall>x s h. as_pending a p = Some (x, s) \<longrightarrow> as_store a \<noteq> Some (s, h)) \<Longrightarrow>
    lease_step a (move p AtRest None st a)"
| unanswered: "as_phase a p = Asking t leased \<Longrightarrow>
    st = as_store a \<or> leased \<and> as_store a = Some (t, Some p) \<and> st = Some (t, None) \<Longrightarrow>
    lease_step a (move p AtRest (as_pending a p) st a)"
| sign_in: "as_phase a p = AtRest \<Longrightarrow> n \<notin> as_issued a \<Longrightarrow> n \<noteq> '''' \<Longrightarrow>
    lease_step a ((move p AtRest None (Some (n, None)) a)\<lparr>as_issued := insert n (as_issued a)\<rparr>)"
| sign_in_unsaved: "as_phase a p = AtRest \<Longrightarrow> n \<notin> as_issued a \<Longrightarrow> n \<noteq> '''' \<Longrightarrow>
    lease_step a ((move p AtRest (Some (n, case as_pending a p of None \<Rightarrow> '''' | Some (x, s) \<Rightarrow> s)) (as_store a) a)
      \<lparr>as_issued := insert n (as_issued a)\<rparr>)"
| sign_out: "as_phase a p = AtRest \<Longrightarrow> lease_step a (move p AtRest None None a)"
| flushed: "as_phase a p = AtRest \<Longrightarrow> as_pending a p = Some (x, s) \<Longrightarrow>
    s = '''' \<or> as_store a = Some (s, h) \<Longrightarrow>
    lease_step a (move p AtRest None (Some (x, h')) a)"
| gave_way: "as_phase a p = AtRest \<Longrightarrow> as_pending a p = Some (x, s) \<Longrightarrow> s \<noteq> '''' \<Longrightarrow>
    (\<And>h. as_store a \<noteq> Some (s, h)) \<Longrightarrow>
    lease_step a (move p AtRest None (as_store a) a)"
| crashed: "as_phase a p = AtRest \<or> (\<exists>t. as_phase a p = Holding t) \<Longrightarrow> as_pending a p = None \<Longrightarrow>
    lease_step a (move p AtRest None (as_store a) a)"

subsection \<open>The invariant\<close>

text \<open>
  The shapes a process can be in, and what each says: a token it holds a lease on is still the
  store's under its own lease or has left the store; a token it alone knows is unspent and not in the
  store; a token it presents is unspent.
\<close>

definition held_ok :: "(string \<times> nat option) option \<Rightarrow> string set \<Rightarrow> nat \<Rightarrow> string \<Rightarrow> bool" where
  "held_ok st issued p t \<longleftrightarrow> t \<in> issued \<and> (\<forall>h. st = Some (t, h) \<longrightarrow> h = Some p)"

definition private_ok :: "(string \<times> nat option) option \<Rightarrow> string set \<Rightarrow> string \<Rightarrow> bool" where
  "private_ok st issued t \<longleftrightarrow> t \<in> issued \<and> (\<forall>h. st \<noteq> Some (t, h))"

definition replaced_ok :: "(string \<times> nat option) option \<Rightarrow> string set \<Rightarrow> nat \<Rightarrow> string \<Rightarrow> bool" where
  "replaced_ok st spent p s \<longleftrightarrow> s = '''' \<or> s \<in> spent \<and> (\<forall>h. st = Some (s, h) \<longrightarrow> h = Some p)"

fun proc_ok :: "(string \<times> nat option) option \<Rightarrow> string set \<Rightarrow> string set \<Rightarrow> nat \<Rightarrow> lease_phase \<Rightarrow>
    (string \<times> string) option \<Rightarrow> bool" where
  "proc_ok st iss sp p AtRest None = True"
| "proc_ok st iss sp p AtRest (Some (x, s)) =
     (private_ok st iss x \<and> x \<notin> sp \<and> replaced_ok st sp p s)"
| "proc_ok st iss sp p (Holding t) pend = (pend = None \<and> held_ok st iss p t \<and> t \<notin> sp)"
| "proc_ok st iss sp p (Asking t leased) pend =
     (if leased then pend = None \<and> held_ok st iss p t \<and> t \<notin> sp
      else \<exists>s. pend = Some (t, s) \<and> private_ok st iss t \<and> t \<notin> sp \<and> replaced_ok st sp p s)"
| "proc_ok st iss sp p (Told t n leased) pend =
     (private_ok st iss n \<and> n \<notin> sp \<and> t \<in> sp \<and>
      (if leased then pend = None \<and> held_ok st iss p t
       else \<exists>s. pend = Some (t, s) \<and> private_ok st iss t \<and> replaced_ok st sp p s))"

definition lease_inv :: "lease_state \<Rightarrow> bool" where
  "lease_inv a \<longleftrightarrow>
     as_spent a \<subseteq> as_issued a \<and> '''' \<notin> as_issued a \<and>
     (\<forall>t h. as_store a = Some (t, h) \<longrightarrow> t \<in> as_issued a) \<and>
     (\<forall>t h. as_store a = Some (t, h) \<longrightarrow> t \<in> as_spent a \<longrightarrow> (\<exists>p. keeps a p t)) \<and>
     (\<forall>p. proc_ok (as_store a) (as_issued a) (as_spent a) p (as_phase a p) (as_pending a p)) \<and>
     (\<forall>p q t. p \<noteq> q \<longrightarrow> owns a p t \<longrightarrow> \<not> owns a q t)"

lemmas ok_defs = held_ok_def private_ok_def replaced_ok_def owns_of_def keeps_of_def

lemma proc_ok_store:
  assumes "proc_ok st iss sp p ph pend"
    and "st' = None \<or> (\<exists>t h. st' = Some (t, h) \<and> \<not> owns_of ph pend t \<and> \<not> keeps_of ph pend t)"
  shows "proc_ok st' iss sp p ph pend"
  using assms by (cases "(st, iss, sp, p, ph, pend)" rule: proc_ok.cases) (auto simp: ok_defs split: if_splits)

lemma proc_ok_spent:
  assumes "proc_ok st iss sp p ph pend" and "\<not> owns_of ph pend t"
  shows "proc_ok st iss (insert t sp) p ph pend"
  using assms by (cases "(st, iss, sp, p, ph, pend)" rule: proc_ok.cases) (auto simp: ok_defs split: if_splits)

lemma proc_ok_issued:
  assumes "proc_ok st iss sp p ph pend" and "iss \<subseteq> iss'"
  shows "proc_ok st iss' sp p ph pend"
  using assms by (cases "(st, iss, sp, p, ph, pend)" rule: proc_ok.cases) (auto simp: ok_defs split: if_splits)

lemma proc_ok_owns: "proc_ok st iss sp p ph pend \<Longrightarrow> sp \<subseteq> iss \<Longrightarrow>
    owns_of ph pend t \<or> keeps_of ph pend t \<Longrightarrow> t \<in> iss"
  by (cases "(st, iss, sp, p, ph, pend)" rule: proc_ok.cases) (auto simp: ok_defs split: if_splits)

text \<open>What a move of process \<open>p\<close> has to show.\<close>

lemma lease_inv_move:
  assumes inv: "lease_inv a" and iss: "as_issued a \<subseteq> iss'" "'''' \<notin> iss'"
    and ok: "proc_ok st' iss' (as_spent a) p ph pend"
    and own: "\<And>q t. q \<noteq> p \<Longrightarrow> owns_of ph pend t \<Longrightarrow> \<not> owns a q t"
    and st: "st' = as_store a \<or> st' = None \<or>
      (\<exists>t h. st' = Some (t, h) \<and> t \<in> iss' \<and> (\<forall>q. q \<noteq> p \<longrightarrow> \<not> owns a q t \<and> \<not> keeps a q t))"
    and spent: "\<And>t h. st' = Some (t, h) \<Longrightarrow> t \<in> as_spent a \<Longrightarrow>
      keeps_of ph pend t \<or> (\<exists>q. q \<noteq> p \<and> keeps a q t)"
  shows "lease_inv ((move p ph pend st' a)\<lparr>as_issued := iss'\<rparr>)"
proof -
  have others: "proc_ok st' iss' (as_spent a) q (as_phase a q) (as_pending a q)" if "q \<noteq> p" for q
  proof -
    have "proc_ok (as_store a) iss' (as_spent a) q (as_phase a q) (as_pending a q)"
      using inv iss(1) by (auto simp: lease_inv_def intro: proc_ok_issued)
    with st that show ?thesis by (auto intro: proc_ok_store)
  qed
  have keep: "\<exists>q. keeps (move p ph pend st' a) q t" if "st' = Some (t, h)" "t \<in> as_spent a" for t h
    using spent [OF that] by auto
  show ?thesis
    using inv iss ok own others st keep
    unfolding lease_inv_def by (auto 0 3)
qed

subsection \<open>What the invariant gives\<close>

lemma inv_proc: "lease_inv a \<Longrightarrow> proc_ok (as_store a) (as_issued a) (as_spent a) q (as_phase a q) (as_pending a q)"
  by (simp add: lease_inv_def)

lemma inv_apart: "lease_inv a \<Longrightarrow> owns a p t \<Longrightarrow> owns a q t \<Longrightarrow> p = q"
  unfolding lease_inv_def by blast

lemma inv_sets:
  "lease_inv a \<Longrightarrow> as_spent a \<subseteq> as_issued a" "lease_inv a \<Longrightarrow> '''' \<notin> as_issued a"
  "lease_inv a \<Longrightarrow> as_store a = Some (t, h) \<Longrightarrow> t \<in> as_issued a"
  by (auto simp: lease_inv_def)

lemma inv_fresh: "lease_inv a \<Longrightarrow> n \<notin> as_issued a \<Longrightarrow> \<not> owns a q n \<and> \<not> keeps a q n"
  using proc_ok_owns [OF inv_proc inv_sets(1)] by blast

lemma inv_kept: "lease_inv a \<Longrightarrow> as_store a = Some (t, h) \<Longrightarrow> t \<in> as_spent a \<Longrightarrow> \<exists>p. keeps a p t"
  unfolding lease_inv_def by blast

lemma inv_keeps:
  assumes "lease_inv a" and "keeps a q t"
  shows "owns a q t \<or> t \<in> as_spent a" and "as_store a = Some (t, h) \<Longrightarrow> h = Some q"
  using inv_proc [OF assms(1), of q] assms(2)
  by (cases "(as_store a, as_issued a, as_spent a, q, as_phase a q, as_pending a q)" rule: proc_ok.cases;
      auto simp: ok_defs split: if_splits)+

lemma inv_stored_owned: "lease_inv a \<Longrightarrow> as_store a = Some (t, h) \<Longrightarrow> owns a q t \<Longrightarrow> keeps a q t"
  using inv_proc [of a q]
  by (cases "(as_store a, as_issued a, as_spent a, q, as_phase a q, as_pending a q)" rule: proc_ok.cases)
    (auto simp: ok_defs split: if_splits)

lemma lease_inv_moved:
  assumes inv: "lease_inv a" and iss: "as_issued a \<subseteq> iss'" "'''' \<notin> iss'"
    and ok: "proc_ok st' iss' (as_spent a) p ph pend"
    and own: "\<And>t. owns_of ph pend t \<Longrightarrow> owns a p t \<or> t \<notin> as_issued a"
    and st: "st' = None \<or>
      st' = as_store a \<and> (\<forall>t h. st' = Some (t, h) \<longrightarrow> t \<in> as_spent a \<longrightarrow> keeps a p t \<longrightarrow> keeps_of ph pend t) \<or>
      (\<exists>t h. st' = Some (t, h) \<and> t \<in> iss' \<and> t \<notin> as_spent a \<and> (owns a p t \<or> t \<notin> as_issued a))"
  shows "lease_inv ((move p ph pend st' a)\<lparr>as_issued := iss'\<rparr>)"
proof (rule lease_inv_move [OF inv iss ok])
  show "\<not> owns a q t" if "q \<noteq> p" "owns_of ph pend t" for q t
    using own [OF that(2)] inv_fresh [OF inv] inv_apart [OF inv] that(1) by blast
  show "st' = as_store a \<or> st' = None \<or>
      (\<exists>t h. st' = Some (t, h) \<and> t \<in> iss' \<and> (\<forall>q. q \<noteq> p \<longrightarrow> \<not> owns a q t \<and> \<not> keeps a q t))"
    using st
  proof (elim disjE exE conjE)
    fix t h assume t: "st' = Some (t, h)" "t \<in> iss'" "t \<notin> as_spent a" "owns a p t"
    have "\<not> owns a q t \<and> \<not> keeps a q t" if "q \<noteq> p" for q
      using inv_apart [OF inv t(4), of q] inv_keeps(1) [OF inv, of q t] t(3) that by blast
    with t show ?thesis by blast
  next
    fix t h assume t: "st' = Some (t, h)" "t \<in> iss'" "t \<notin> as_issued a"
    with inv_fresh [OF inv t(3)] show ?thesis by blast
  qed blast+
  show "keeps_of ph pend t \<or> (\<exists>q. q \<noteq> p \<and> keeps a q t)" if "st' = Some (t, h)" "t \<in> as_spent a" for t h
  proof -
    from st that have "st' = as_store a" and keep: "keeps a p t \<longrightarrow> keeps_of ph pend t" by auto
    with that inv_kept [OF inv, of t h] obtain q where "keeps a q t" by auto
    with keep show ?thesis by (cases "q = p") auto
  qed
qed

lemma lease_inv_stays:
  assumes inv: "lease_inv a"
    and "proc_ok st' (as_issued a) (as_spent a) p ph pend"
    and "\<And>t. owns_of ph pend t \<Longrightarrow> owns a p t"
    and "st' = None \<or>
      st' = as_store a \<and> (\<forall>t h. st' = Some (t, h) \<longrightarrow> t \<in> as_spent a \<longrightarrow> keeps a p t \<longrightarrow> keeps_of ph pend t) \<or>
      (\<exists>t h. st' = Some (t, h) \<and> t \<in> as_issued a \<and> t \<notin> as_spent a \<and> owns a p t)"
  shows "lease_inv (move p ph pend st' a)"
proof -
  have "lease_inv ((move p ph pend st' a)\<lparr>as_issued := as_issued a\<rparr>)"
  proof (rule lease_inv_moved [OF inv _ _ assms(2)])
    show "owns a p t \<or> t \<notin> as_issued a" if "owns_of ph pend t" for t
      using assms(3) [OF that] by simp
    show "st' = None \<or>
      st' = as_store a \<and> (\<forall>t h. st' = Some (t, h) \<longrightarrow> t \<in> as_spent a \<longrightarrow> keeps a p t \<longrightarrow> keeps_of ph pend t) \<or>
      (\<exists>t h. st' = Some (t, h) \<and> t \<in> as_issued a \<and> t \<notin> as_spent a \<and> (owns a p t \<or> t \<notin> as_issued a))"
      using assms(4) by (elim disjE) auto
  qed (simp_all add: inv_sets [OF inv])
  then show ?thesis by simp
qed

lemma lease_inv_rotate:
  assumes inv: "lease_inv a" and ph: "as_phase a p = Asking t leased"
    and n: "n \<notin> as_issued a" "n \<noteq> ''''"
  shows "lease_inv ((move p (Told t n leased) (as_pending a p) (as_store a) a)
      \<lparr>as_issued := insert n (as_issued a), as_spent := insert t (as_spent a)\<rparr>)"
proof -
  have proc: "proc_ok (as_store a) (as_issued a) (as_spent a) q (as_phase a q) (as_pending a q)" for q
    using inv by (simp add: lease_inv_def)
  have sp: "as_spent a \<subseteq> as_issued a" using inv by (simp add: lease_inv_def)
  have mine: "owns a p t" "t \<in> as_issued a" "as_store a = Some (t, h) \<Longrightarrow> keeps a p t" for h
    using proc [of p] ph by (auto simp: ok_defs split: if_splits)
  have fresh: "\<not> owns a q n" "\<not> keeps a q n" for q
    using proc_ok_owns [OF proc sp, of q n] n(1) by blast+
  have others: "proc_ok (as_store a) (insert n (as_issued a)) (insert t (as_spent a)) q (as_phase a q) (as_pending a q)"
    if "q \<noteq> p" for q
  proof -
    have "\<not> owns a q t" using inv mine(1) that by (auto simp: lease_inv_def)
    then show ?thesis using proc [of q] by (blast intro: proc_ok_spent proc_ok_issued)
  qed
  have st: "as_store a = Some (x, h) \<Longrightarrow> x \<in> as_issued a" for x h
    using inv by (auto simp: lease_inv_def)
  have new: "proc_ok (as_store a) (insert n (as_issued a)) (insert t (as_spent a)) p (Told t n leased) (as_pending a p)"
    using proc [of p] ph n(1) mine(2) sp st by (auto simp: ok_defs)
  have owns': "owns_of (Told t n leased) (as_pending a p) x \<Longrightarrow> owns a p x \<or> x = n" for x
    using ph by (auto simp: ok_defs)
  have keeps': "keeps_of (Told t n leased) (as_pending a p) x = keeps a p x" for x
    using ph by (auto simp: ok_defs)
  have keep: "\<exists>q. keeps_of (if q = p then Told t n leased else as_phase a q) (as_pending a q) x"
    if x: "as_store a = Some (x, h)" "x \<in> insert t (as_spent a)" for x h
  proof -
    have "\<exists>q. keeps a q x"
    proof (cases "x = t")
      case True
      with mine(3) x show ?thesis by blast
    next
      case False
      with x inv show ?thesis by (auto simp: lease_inv_def)
    qed
    then obtain q where "keeps a q x" by blast
    then show ?thesis using keeps' by (intro exI [of _ q]) auto
  qed
  have disj: "x \<noteq> n" if "owns a q x" for q x using fresh that by blast
  have apart: "owns a q x \<Longrightarrow> owns a r x \<Longrightarrow> q = r" for q x r
    by (rule inv_apart [OF inv])
  let ?a = "(move p (Told t n leased) (as_pending a p) (as_store a) a)
      \<lparr>as_issued := insert n (as_issued a), as_spent := insert t (as_spent a)\<rparr>"
  have owned: "owns ?a q x \<Longrightarrow> owns a q x \<or> q = p \<and> x = n" for q x
    using owns' by (cases "q = p") auto
  show ?thesis
    unfolding lease_inv_def
  proof (intro conjI allI impI)
    fix q show "proc_ok (as_store ?a) (as_issued ?a) (as_spent ?a) q (as_phase ?a q) (as_pending ?a q)"
      using new others by (cases "q = p") simp_all
  next
    fix x h assume "as_store ?a = Some (x, h)" "x \<in> as_spent ?a"
    with keep [of x h] obtain q where
      "keeps_of (if q = p then Told t n leased else as_phase a q) (as_pending a q) x" by auto
    then show "\<exists>q. keeps ?a q x" by (intro exI [of _ q]) (simp split: if_splits)
  next
    fix q r x assume "q \<noteq> r" "owns ?a q x"
    with owned [of q x] owned [of r x] apart [of q x r] disj show "\<not> owns ?a r x" by blast
  qed (use sp mine(2) n inv_sets(2) [OF inv] st in auto)
qed

lemma lease_inv_step: "lease_step a a' \<Longrightarrow> lease_inv a \<Longrightarrow> lease_inv a'"
proof (induction rule: lease_step.induct)
  case (rotate a p t leased n)
  then show ?case by (intro lease_inv_rotate)
next
  case (nothing a)
  then show ?case by simp
next
  case (take_lease a p t h)
  have unspent: "t \<notin> as_spent a"
  proof
    assume "t \<in> as_spent a"
    then obtain q where q: "keeps a q t" using inv_kept [OF take_lease.prems take_lease(3)] by blast
    moreover have "\<not> keeps a p t" using take_lease(1,2) by (simp add: keeps_of_def)
    ultimately show False using take_lease(4) by (cases "q = p") auto
  qed
  have "lease_inv (move p (Holding t) None (Some (t, Some p)) a\<lparr>as_issued := as_issued a\<rparr>)"
  proof (rule lease_inv_move [OF take_lease.prems])
    show "proc_ok (Some (t, Some p)) (as_issued a) (as_spent a) p (Holding t) None"
      using unspent inv_sets(3) [OF take_lease.prems take_lease(3)] by (simp add: ok_defs)
    show "\<not> owns a q x" if "q \<noteq> p" "owns_of (Holding t) None x" for q x
      using that take_lease(4) inv_stored_owned [OF take_lease.prems take_lease(3)] by (auto simp: owns_of_def)
    show "Some (t, Some p) = as_store a \<or> Some (t, Some p) = None \<or>
      (\<exists>x h. Some (t, Some p) = Some (x, h) \<and> x \<in> as_issued a \<and> (\<forall>q. q \<noteq> p \<longrightarrow> \<not> owns a q x \<and> \<not> keeps a q x))"
      using take_lease(4) inv_stored_owned [OF take_lease.prems take_lease(3)]
        inv_sets(3) [OF take_lease.prems take_lease(3)] by blast
  qed (use unspent inv_sets [OF take_lease.prems] in auto)
  then show ?case by simp
next
  case (unanswered a p t leased st)
  from inv_proc [OF unanswered.prems, of p] unanswered(1)
  have ok: "t \<notin> as_spent a" "leased \<Longrightarrow> as_pending a p = None" by (auto split: if_splits)
  show ?case
  proof (cases "st = as_store a")
    case True
    with unanswered inv_proc [OF unanswered.prems, of p] show ?thesis
      by (intro lease_inv_stays) (auto simp: ok_defs split: if_splits)
  next
    case False
    with unanswered have f: "leased" "as_store a = Some (t, Some p)" "st = Some (t, None)" by auto
    have "lease_inv (move p AtRest None st a\<lparr>as_issued := as_issued a\<rparr>)"
      using f ok inv_sets [OF unanswered.prems] unanswered(1) inv_sets(3) [OF unanswered.prems f(2)]
      by (intro lease_inv_moved [OF unanswered.prems]) (auto simp: ok_defs)
    with ok(2) f(1) show ?thesis by simp
  qed
next
  case (ask_leased a p t)
  note facts = inv_proc [OF ask_leased.prems, of p] inv_sets(1,2) [OF ask_leased.prems]
  show ?case
    by (rule lease_inv_stays [OF ask_leased.prems]) (use ask_leased.hyps facts in \<open>auto simp: ok_defs split: if_splits\<close>)
next
  case (ask_pending a p t s)
  note facts = inv_proc [OF ask_pending.prems, of p] inv_sets(1,2) [OF ask_pending.prems]
  show ?case
    by (rule lease_inv_stays [OF ask_pending.prems]) (use ask_pending.hyps facts in \<open>auto simp: ok_defs split: if_splits\<close>)
next
  case (written a p t n h)
  note facts = inv_proc [OF written.prems, of p] inv_sets(1,2) [OF written.prems]
  show ?case
    by (rule lease_inv_stays [OF written.prems]) (use written.hyps facts in \<open>auto simp: ok_defs split: if_splits\<close>)
next
  case (write_failed a p t n)
  note facts = inv_proc [OF write_failed.prems, of p] inv_sets(1,2) [OF write_failed.prems]
  show ?case
    by (rule lease_inv_stays [OF write_failed.prems]) (use write_failed.hyps facts in \<open>auto simp: ok_defs split: if_splits\<close>)
next
  case (superseded a p t n)
  note facts = inv_proc [OF superseded.prems, of p] inv_sets(1,2) [OF superseded.prems]
  show ?case
    by (rule lease_inv_stays [OF superseded.prems]) (use superseded.hyps facts in \<open>auto simp: ok_defs split: if_splits\<close>)
next
  case (saved a p t n)
  note facts = inv_proc [OF saved.prems, of p] inv_sets(1,2) [OF saved.prems]
  show ?case
    by (rule lease_inv_stays [OF saved.prems]) (use saved.hyps facts in \<open>auto simp: ok_defs split: if_splits\<close>)
next
  case (save_failed a p t n s)
  note facts = inv_proc [OF save_failed.prems, of p] inv_sets(1,2) [OF save_failed.prems]
  show ?case
    by (rule lease_inv_stays [OF save_failed.prems]) (use save_failed.hyps facts in \<open>auto simp: ok_defs split: if_splits\<close>)
next
  case (refused a p t leased st)
  note facts = inv_proc [OF refused.prems, of p] inv_sets(1,2) [OF refused.prems]
  show ?case
    by (rule lease_inv_stays [OF refused.prems]) (use refused.hyps facts in \<open>auto simp: ok_defs eq_commute [of "Some _" "as_store a"] split: if_splits\<close>)
next
  case (sign_out a p)
  note facts = inv_proc [OF sign_out.prems, of p] inv_sets(1,2) [OF sign_out.prems]
  show ?case
    by (rule lease_inv_stays [OF sign_out.prems]) (use sign_out.hyps facts in \<open>auto simp: ok_defs split: if_splits\<close>)
next
  case (flushed a p x s h h')
  note facts = inv_proc [OF flushed.prems, of p] inv_sets(1,2) [OF flushed.prems]
  show ?case
    by (rule lease_inv_stays [OF flushed.prems]) (use flushed.hyps facts in \<open>auto simp: ok_defs split: if_splits\<close>)
next
  case (gave_way a p x s)
  note facts = inv_proc [OF gave_way.prems, of p] inv_sets(1,2) [OF gave_way.prems]
  show ?case
    by (rule lease_inv_stays [OF gave_way.prems]) (use gave_way.hyps facts in \<open>auto simp: ok_defs split: if_splits\<close>)
next
  case (crashed a p)
  note facts = inv_proc [OF crashed.prems, of p] inv_sets(1,2) [OF crashed.prems]
  show ?case
    by (rule lease_inv_stays [OF crashed.prems]) (use crashed.hyps facts in \<open>auto simp: ok_defs split: if_splits\<close>)
next
  case (sign_in a p n)
  note facts = inv_proc [OF sign_in.prems, of p] inv_sets [OF sign_in.prems] inv_fresh [OF sign_in.prems]
  show ?case
    by (rule lease_inv_moved [OF sign_in.prems]) (use sign_in.hyps facts in \<open>auto simp: ok_defs split: if_splits option.splits\<close>)
next
  case (sign_in_unsaved a p n)
  note facts = inv_proc [OF sign_in_unsaved.prems, of p] inv_sets [OF sign_in_unsaved.prems] inv_fresh [OF sign_in_unsaved.prems]
  show ?case
    by (rule lease_inv_moved [OF sign_in_unsaved.prems]) (use sign_in_unsaved.hyps facts in \<open>auto simp: ok_defs split: if_splits option.splits\<close>)
qed

end
