(* ===== verification/LeaseProtocol.thy ===== *)
theory LeaseProtocol
  imports Refresh LeaseSpec
begin

section \<open>The lease protocol of the gateway\<close>

text \<open>
  Several gateway processes, each with its own copy of the links, share one store and refresh the
  token of one user at muster. Every step is one of the operations of \<open>LinkCache\<close> and
  \<open>Refresh\<close> run by one process on the shared store, or muster answering. The theory shows that
  these runs implement the protocol of \<open>LeaseSpec\<close>.
\<close>

datatype refresh_phase =
    Idle
  | Leased link
  | Sent link bool
  | Turned link string string gotime bool

record 's world =
  wo_store :: 's
  wo_linker :: "nat \<Rightarrow> 's linker"
  wo_phase :: "nat \<Rightarrow> refresh_phase"
  wo_issued :: "string set"
  wo_spent :: "string set"

definition linker_at :: "nat \<Rightarrow> 's world \<Rightarrow> 's linker" where
  "linker_at p w = (wo_linker w p)\<lparr>ln_store := wo_store w\<rparr>"

definition put_back :: "nat \<Rightarrow> 's linker \<Rightarrow> refresh_phase \<Rightarrow> 's world \<Rightarrow> 's world" where
  "put_back p l ph w =
     w\<lparr>wo_store := ln_store l, wo_linker := (wo_linker w)(p := l), wo_phase := (wo_phase w)(p := ph)\<rparr>"

subsection \<open>The abstraction\<close>

definition pending_of :: "string \<Rightarrow> 's linker \<Rightarrow> (string \<times> string) option" where
  "pending_of u l =
     (case entry_of l u of
        None \<Rightarrow> None
      | Some c \<Rightarrow> if ca_dirty c then Some (li_refresh (ca_link c), ca_stored c) else None)"

fun phase_of :: "refresh_phase \<Rightarrow> lease_phase" where
  "phase_of Idle = AtRest"
| "phase_of (Leased lk) = Holding (li_refresh lk)"
| "phase_of (Sent lk leased) = Asking (li_refresh lk) leased"
| "phase_of (Turned lk t i e leased) = Told (li_refresh lk) t leased"

definition link_of :: "(string \<Rightarrow> nat option) \<Rightarrow> link option \<Rightarrow> (string \<times> nat option) option" where
  "link_of proc_of x =
     (case x of
        None \<Rightarrow> None
      | Some c \<Rightarrow> Some (li_refresh c, case li_lease c of None \<Rightarrow> None | Some e \<Rightarrow> proc_of (le_holder e)))"

definition view ::
  "(string \<Rightarrow> nat option) \<Rightarrow> ('s \<Rightarrow> string \<Rightarrow> link option) \<Rightarrow> string \<Rightarrow> 's world \<Rightarrow> lease_state" where
  "view proc_of cur u w =
     \<lparr>as_store = link_of proc_of (cur (wo_store w) u), as_phase = (\<lambda>p. phase_of (wo_phase w p)),
      as_pending = (\<lambda>p. pending_of u (wo_linker w p)), as_issued = wo_issued w, as_spent = wo_spent w\<rparr>"

lemma pending_with_store [simp]: "pending_of u (l\<lparr>ln_store := s\<rparr>) = pending_of u l"
  by (simp add: pending_of_def)

lemma view_put_back:
  "view proc_of cur u (put_back p l ph w) =
   move p (phase_of ph) (pending_of u l) (link_of proc_of (cur (ln_store l) u)) (view proc_of cur u w)"
  by (auto simp: view_def put_back_def fun_eq_iff)

lemma view_sel [simp]:
  "as_store (view proc_of cur u w) = link_of proc_of (cur (wo_store w) u)"
  "as_phase (view proc_of cur u w) p = phase_of (wo_phase w p)"
  "as_pending (view proc_of cur u w) p = pending_of u (wo_linker w p)"
  "as_issued (view proc_of cur u w) = wo_issued w" "as_spent (view proc_of cur u w) = wo_spent w"
  by (simp_all add: view_def)

lemma linker_at_sel [simp]:
  "ln_store (linker_at p w) = wo_store w" "ln_links (linker_at p w) = ln_links (wo_linker w p)"
  "pending_of u (linker_at p w) = pending_of u (wo_linker w p)"
  by (simp_all add: linker_at_def)

subsection \<open>The steps\<close>

text \<open>
  A clock reading is timely when no lease of another process that is still using it has run out at
  it: the lease outlives the request and the write of its outcome.
\<close>

definition timely ::
  "(string \<Rightarrow> nat option) \<Rightarrow> ('s \<Rightarrow> string \<Rightarrow> link option) \<Rightarrow> string \<Rightarrow> 's world \<Rightarrow> nat \<Rightarrow> gotime \<Rightarrow> bool" where
  "timely proc_of cur u w p now \<longleftrightarrow>
     (\<forall>q c e. q \<noteq> p \<longrightarrow> cur (wo_store w) u = Some c \<longrightarrow> li_lease c = Some e \<longrightarrow>
        keeps (view proc_of cur u w) q (li_refresh c) \<longrightarrow> now < le_until e)"

inductive gateway_step ::
  "bool \<Rightarrow> (string \<Rightarrow> int option) \<Rightarrow> 's link_ops \<Rightarrow> ('s \<Rightarrow> string \<Rightarrow> link option) \<Rightarrow> (nat \<Rightarrow> link_config) \<Rightarrow>
   (string \<Rightarrow> nat option) \<Rightarrow> string \<Rightarrow> 's world \<Rightarrow> 's world \<Rightarrow> bool"
  for strict exp_of ops cur cfg proc_of u where
  lease: "wo_phase w p = Idle \<Longrightarrow> po_others poll = id \<Longrightarrow>
    acquire_refresh_lease ops (cfg p) u lk [poll] (linker_at p w) = (Inr LeaseHeld, l') \<Longrightarrow>
    (strict \<Longrightarrow> timely proc_of cur u w p (po_now poll)) \<Longrightarrow>
    gateway_step strict exp_of ops cur cfg proc_of u w (put_back p l' (Leased lk) w)"
| no_lease: "wo_phase w p = Idle \<Longrightarrow> po_others poll = id \<Longrightarrow>
    acquire_refresh_lease ops (cfg p) u lk [poll] (linker_at p w) = (res, l') \<Longrightarrow>
    res \<noteq> Inr LeaseHeld \<Longrightarrow> res \<noteq> Inr LeaseSkipped \<Longrightarrow>
    gateway_step strict exp_of ops cur cfg proc_of u w (put_back p l' Idle w)"
| send: "wo_phase w p = Leased lk \<Longrightarrow>
    gateway_step strict exp_of ops cur cfg proc_of u w (put_back p (linker_at p w) (Sent lk True) w)"
| send_pending: "wo_phase w p = Idle \<Longrightarrow> entry_of (linker_at p w) u = Some c \<Longrightarrow>
    acquire_refresh_lease ops (cfg p) u (ca_link c) polls (linker_at p w) = (Inr LeaseSkipped, l') \<Longrightarrow>
    gateway_step strict exp_of ops cur cfg proc_of u w (put_back p l' (Sent (ca_link c) False) w)"
| turn: "wo_phase w p = Sent lk leased \<Longrightarrow> t \<notin> wo_issued w \<Longrightarrow> t \<noteq> '''' \<Longrightarrow>
    gateway_step strict exp_of ops cur cfg proc_of u w
      ((put_back p (linker_at p w) (Turned lk t i e leased) w)
        \<lparr>wo_issued := insert t (wo_issued w), wo_spent := insert (li_refresh lk) (wo_spent w)\<rparr>)"
| learn: "wo_phase w p = Turned lk t i e leased \<Longrightarrow> rq_others r = id \<Longrightarrow>
    rq_answer r (li_refresh lk) = Rotated t i e \<Longrightarrow>
    send_refresh_request exp_of ops (cfg p) r u lk leased (linker_at p w) = (res, l') \<Longrightarrow> t \<noteq> '''' \<Longrightarrow>
    gateway_step strict exp_of ops cur cfg proc_of u w (put_back p l' Idle w)"
| refusal: "wo_phase w p = Sent lk leased \<Longrightarrow> rq_others r = id \<Longrightarrow>
    rq_answer r (li_refresh lk) = InvalidGrant \<Longrightarrow>
    send_refresh_request exp_of ops (cfg p) r u lk leased (linker_at p w) = (res, l') \<Longrightarrow>
    (\<And>x s c. strict \<Longrightarrow> pending_of u (wo_linker w p) = Some (x, s) \<Longrightarrow> cur (ln_store l') u = Some c \<Longrightarrow>
      li_refresh c \<noteq> s) \<Longrightarrow>
    gateway_step strict exp_of ops cur cfg proc_of u w (put_back p l' Idle w)"
| no_answer: "wo_phase w p = Sent lk leased \<Longrightarrow> rq_others r = id \<Longrightarrow>
    rq_answer r (li_refresh lk) = NoAnswer \<Longrightarrow>
    send_refresh_request exp_of ops (cfg p) r u lk leased (linker_at p w) = (res, l') \<Longrightarrow>
    gateway_step strict exp_of ops cur cfg proc_of u w (put_back p l' Idle w)"
| sign_in: "wo_phase w p = Idle \<Longrightarrow> li_refresh lk \<notin> wo_issued w \<Longrightarrow> li_refresh lk \<noteq> '''' \<Longrightarrow>
    li_lease lk = None \<Longrightarrow>
    gateway_step strict exp_of ops cur cfg proc_of u w
      ((put_back p (linker_save ops now later u lk (linker_at p w)) Idle w)
        \<lparr>wo_issued := insert (li_refresh lk) (wo_issued w)\<rparr>)"
| sign_out: "wo_phase w p = Idle \<Longrightarrow> linker_drop ops u (linker_at p w) = (err, l') \<Longrightarrow>
    (strict \<Longrightarrow> err = None \<or> pending_of u (wo_linker w p) = None) \<Longrightarrow>
    gateway_step strict exp_of ops cur cfg proc_of u w (put_back p l' Idle w)"
| flush: "wo_phase w p = Idle \<Longrightarrow> flush_one ops now u (linker_at p w) = (done_it, l') \<Longrightarrow>
    gateway_step strict exp_of ops cur cfg proc_of u w (put_back p l' Idle w)"
| load: "linker_load ops (cfg p) now id u (linker_at p w) = (res, l') \<Longrightarrow>
    gateway_step strict exp_of ops cur cfg proc_of u w (put_back p l' (wo_phase w p) w)"
| crash: "wo_phase w p = Idle \<or> wo_phase w p = Leased lk \<Longrightarrow> pending_of u (wo_linker w p) = None \<Longrightarrow>
    gateway_step strict exp_of ops cur cfg proc_of u w (put_back p (new_linker (wo_store w)) Idle w)"
| elsewhere: "cur s u = cur (wo_store w) u \<Longrightarrow>
    gateway_step strict exp_of ops cur cfg proc_of u w (w\<lparr>wo_store := s\<rparr>)"

subsection \<open>What each operation does to the link and to what is pending\<close>

lemma is_dirty_pending: "is_dirty l u \<longleftrightarrow> pending_of u l \<noteq> None"
  by (auto simp: is_dirty_def pending_of_def split: option.splits)

lemma pending_clean [simp]:
  "pending_of u (linker_forget u l) = None" "pending_of u (adopt now u lk l) = None"
  "pending_of u (mark_clean now u l) = None"
  by (simp_all add: pending_of_def link_simps split: option.splits)

lemma pending_cong: "entry_of l' u = entry_of l u \<Longrightarrow> pending_of u l' = pending_of u l"
  by (simp add: pending_of_def)

lemma lease_taken:
  assumes "link_store ops cur"
    and "acquire_refresh_lease ops cf u lk [poll] l = (Inr LeaseHeld, l')" and "po_others poll = id"
  shows "pending_of u l = None \<and> pending_of u l' = None \<and>
    (\<exists>c. cur (ln_store l) u = Some c \<and> li_refresh c = li_refresh lk \<and> \<not> leased_elsewhere cf (po_now poll) c \<and>
      cur (ln_store l') u = Some (c\<lparr>li_lease :=
        Some \<lparr>le_holder = lc_holder cf, le_until = po_now poll + lc_lease_ttl cf\<rparr>\<rparr>))"
proof -
  from assms(2) have dirty: "\<not> is_dirty l u" and
    a: "acquire_polls ops cf u lk [poll] l = (Inr LeaseHeld, l')"
    by (auto simp: acquire_refresh_lease_def split: if_splits)
  from dirty have d: "pending_of u l = None" unfolding is_dirty_pending by blast
  obtain seen err s where p:
    "lk_update ops u (lease_fn cf (po_now poll) (li_refresh lk)) (ln_store l) = (seen, err, s)" by (metis prod.exhaust)
  with a assms(3) have err: "err = None" and l': "l' = l\<lparr>ln_store := s\<rparr>"
    by (auto simp: Let_def split: option.splits link_error.splits if_splits)
  with link_store.update_ok [OF assms(1)] p have
    u: "seen = Some (cur (ln_store l) u)"
    "cur s = (cur (ln_store l))(u := apply_link (lease_fn cf (po_now poll) (li_refresh lk) (cur (ln_store l) u)) (cur (ln_store l) u))"
    by blast+
  with a assms(3) p err show ?thesis using d l'
    by (auto simp: Let_def lease_fn_def apply_link_def split: option.splits if_splits)
qed

lemma lease_not_taken:
  assumes "link_store ops cur"
    and "acquire_refresh_lease ops cf u lk [poll] l = (res, l')" and "po_others poll = id"
    and "res \<noteq> Inr LeaseHeld" and "res \<noteq> Inr LeaseSkipped"
  shows "pending_of u l = None \<and> pending_of u l' = None \<and> cur (ln_store l') u = cur (ln_store l) u"
proof -
  from assms(2,5) have dirty: "\<not> is_dirty l u" and
    a: "acquire_polls ops cf u lk [poll] l = (res, l')"
    by (auto simp: acquire_refresh_lease_def split: if_splits)
  from dirty have d: "pending_of u l = None" unfolding is_dirty_pending by blast
  obtain seen err s where p:
    "lk_update ops u (lease_fn cf (po_now poll) (li_refresh lk)) (ln_store l) = (seen, err, s)" by (metis prod.exhaust)
  show ?thesis
  proof (cases err)
    case (Some e)
    with link_store.update_err [OF assms(1)] p have "cur s = cur (ln_store l)" by blast
    with a assms(3) p Some d show ?thesis
      by (auto simp: Let_def split: link_error.splits)
  next
    case None
    with link_store.update_ok [OF assms(1)] p have
      u: "seen = Some (cur (ln_store l) u)"
      "cur s = (cur (ln_store l))(u := apply_link (lease_fn cf (po_now poll) (li_refresh lk) (cur (ln_store l) u)) (cur (ln_store l) u))"
      by blast+
    with a assms(3,4) p None d show ?thesis
      by (cases "cur (ln_store l) u")
        (auto simp: Let_def lease_fn_def apply_link_def link_simps split: if_splits)
  qed
qed

lemma learned_leased:
  assumes "link_store ops cur" and "rq_others r = id"
    and "rq_answer r (li_refresh lk) = Rotated t i e" and "t \<noteq> ''''"
    and "send_refresh_request exp_of ops cf r u lk True l = (res, l')"
  obtains (written) s c where "cur (ln_store l) u = Some s" "li_refresh s = li_refresh lk"
      "cur (ln_store l') u = Some c" "li_refresh c = t" "li_lease c = None" "pending_of u l' = None"
  | (failed) "cur (ln_store l') u = cur (ln_store l) u" "pending_of u l' = Some (t, li_refresh lk)"
  | (superseded) "cur (ln_store l') u = cur (ln_store l) u" "pending_of u l' = None"
      "\<And>s. cur (ln_store l) u = Some s \<Longrightarrow> li_refresh s \<noteq> li_refresh lk"
proof -
  let ?new = "rotated_link exp_of lk t i e"
  have new: "li_refresh ?new = t" "li_lease ?new = None" using assms(4) by (simp_all add: rotated_link_def)
  obtain stop l1 where s: "save_rotated ops (rq_now r) (rq_later r) u (li_refresh lk) ?new l = (stop, l1)" by fastforce
  have l': "pending_of u l' = pending_of u l1" "ln_store l' = ln_store l1"
    using assms(2,3,5) s by (auto simp: send_refresh_request_def Let_def link_simps pending_of_def
        split: option.splits if_splits)
  from assms(1) s new(2) show thesis
  proof (rule save_rotated_cases)
    fix c assume "stop = None" "entry_of l1 u = Some c" "ca_dirty c" "ca_link c = ?new"
      "ca_stored c = li_refresh lk" "cur (ln_store l1) = cur (ln_store l)"
    with l' new show thesis by (intro failed) (auto simp: pending_of_def)
  next
    fix c assume "stop = None" "entry_of l1 u = Some c" "\<not> ca_dirty c" "ca_link c = ?new"
      "\<exists>s. cur (ln_store l) u = Some s \<and> li_refresh s = li_refresh lk"
      "cur (ln_store l1) = (cur (ln_store l))(u \<mapsto> ?new)"
    with l' new show thesis using written by (auto simp: pending_of_def)
  next
    assume "entry_of l1 u = None" "cur (ln_store l) u = None" "cur (ln_store l1) = cur (ln_store l)"
    with l' show thesis by (intro superseded) (auto simp: pending_of_def)
  next
    fix x c assume "entry_of l1 u = Some c" "\<not> ca_dirty c" "li_refresh x \<noteq> li_refresh lk"
      "cur (ln_store l) u = Some x" "cur (ln_store l1) = cur (ln_store l)"
    with l' show thesis by (intro superseded) (auto simp: pending_of_def)
  qed
qed

lemma saved_link:
  assumes "link_store ops cur" and "li_lease lk = None"
  obtains (saved) c where "cur (ln_store (linker_save ops now later u lk l)) u = Some c" "li_refresh c = li_refresh lk"
      "li_lease c = None" "pending_of u (linker_save ops now later u lk l) = None"
  | (failed) "cur (ln_store (linker_save ops now later u lk l)) u = cur (ln_store l) u"
      "pending_of u (linker_save ops now later u lk l) =
        Some (li_refresh lk, case pending_of u l of None \<Rightarrow> '''' | Some (x, s) \<Rightarrow> s)"
proof -
  obtain err s where p: "lk_put ops u lk (ln_store l) = (err, s)" by fastforce
  show thesis
  proof (cases err)
    case None
    with p link_store.put_ok [OF assms(1)] have "cur s u = Some lk" by (metis fun_upd_same)
    with p None assms(2) show thesis
      by (intro saved) (auto simp: linker_save_def Let_def link_simps pending_of_def)
  next
    case (Some e)
    with p link_store.put_err [OF assms(1)] have "cur s = cur (ln_store l)" by blast
    with p Some show thesis
      by (intro failed) (auto simp: linker_save_def Let_def link_simps pending_of_def fresh_copy_def split: option.splits)
  qed
qed

lemma learned_unleased:
  assumes "rq_others r = id" and "rq_answer r (li_refresh lk) = Rotated t i e" and "t \<noteq> ''''"
    and "send_refresh_request exp_of ops cf r u lk False l = (res, l')"
  shows "ln_store l' = ln_store (linker_save ops (rq_now r) (rq_later r) u (rotated_link exp_of lk t i e) l) \<and>
    pending_of u l' = pending_of u (linker_save ops (rq_now r) (rq_later r) u (rotated_link exp_of lk t i e) l)"
  using assms by (auto simp: send_refresh_request_def Let_def link_simps pending_of_def split: option.splits if_splits)

lemma refused_link:
  assumes "link_store ops cur" and "rq_others r = id" and "rq_answer r (li_refresh lk) = InvalidGrant"
    and "send_refresh_request exp_of ops cf r u lk leased l = (res, l')"
  shows "pending_of u l' = None \<and> (cur (ln_store l') u = cur (ln_store l) u \<or> cur (ln_store l') u = None)"
proof -
  define presented where "presented = (let stored = stored_refresh_token_of l u
    in if \<not> leased \<and> stored \<noteq> '''' then stored else li_refresh lk)"
  with assms(2-4) have d: "drop_refused ops (rq_now r) u presented l = (res, l')"
    by (simp add: send_refresh_request_def Let_def)
  obtain seen err s where p: "lk_update ops u (refused_fn presented) (ln_store l) = (seen, err, s)"
    by (metis prod.exhaust)
  show ?thesis
  proof (cases err)
    case None
    with link_store.update_ok [OF assms(1)] p have
      "seen = Some (cur (ln_store l) u)"
      "cur s = (cur (ln_store l))(u := apply_link (refused_fn presented (cur (ln_store l) u)) (cur (ln_store l) u))"
      by blast+
    with d p None show ?thesis
      by (cases "cur (ln_store l) u")
        (auto simp: drop_refused_def refused_fn_def apply_link_def Let_def link_simps pending_of_def split: if_splits)
  next
    case (Some e)
    with link_store.update_err [OF assms(1)] p have "cur s = cur (ln_store l)" by blast
    with d p Some show ?thesis by (auto simp: drop_refused_def Let_def link_simps pending_of_def)
  qed
qed

lemma unanswered_link:
  assumes "link_store ops cur" and "rq_others r = id" and "rq_answer r (li_refresh lk) = NoAnswer"
    and "send_refresh_request exp_of ops cf r u lk leased l = (res, l')"
  shows "pending_of u l' = pending_of u l \<and>
    (cur (ln_store l') u = cur (ln_store l) u \<or>
     (\<exists>c e. leased \<and> cur (ln_store l) u = Some c \<and> li_refresh c = li_refresh lk \<and> li_lease c = Some e \<and>
       le_holder e = lc_holder cf \<and> cur (ln_store l') u = Some (c\<lparr>li_lease := None\<rparr>)))"
proof (cases leased)
  case True
  obtain seen err s where p: "lk_update ops u (release_fn cf (li_refresh lk)) (ln_store l) = (seen, err, s)"
    by (metis prod.exhaust)
  with assms(2-4) True have l': "l' = l\<lparr>ln_store := s\<rparr>"
    by (simp add: send_refresh_request_def release_refresh_lease_def Let_def)
  show ?thesis
  proof (cases err)
    case None
    with link_store.update_ok [OF assms(1)] p have
      "cur s u = apply_link (release_fn cf (li_refresh lk) (cur (ln_store l) u)) (cur (ln_store l) u)"
      by (metis fun_upd_same)
    with l' True show ?thesis
      by (cases "cur (ln_store l) u") (auto simp: release_fn_def apply_link_def split: option.splits if_splits)
  next
    case (Some e)
    with link_store.update_err [OF assms(1)] p l' show ?thesis by auto
  qed
next
  case False
  with assms(2-4) show ?thesis by (simp add: send_refresh_request_def Let_def)
qed

lemma dropped_link:
  assumes "link_store ops cur" and "linker_drop ops u l = (err, l')"
  shows "pending_of u l' = None \<and> cur (ln_store l') u = (if err = None then None else cur (ln_store l) u)"
proof -
  obtain e s where p: "lk_delete ops u (ln_store l) = (e, s)" by fastforce
  with assms(2) have l': "l' = (linker_forget u l)\<lparr>ln_store := s\<rparr>" "err = map_option DeleteFailed e"
    by (auto simp: linker_drop_def Let_def link_simps)
  with p link_store.delete_ok [OF assms(1)] link_store.delete_err [OF assms(1)] show ?thesis
    by (cases e) (auto simp: pending_of_def link_simps)
qed

lemma loaded_link:
  assumes "linker_load ops cf now id u l = (res, l')"
  shows "pending_of u l' = pending_of u l \<and> ln_store l' = ln_store l"
  using assms
  by (auto simp: linker_load_def load_answer_def pending_of_def link_simps Let_def
      split: option.splits if_splits sum.splits)

subsection \<open>The runs implement the protocol\<close>

lemma polls_not_skipped: "acquire_polls ops cf u lk ps l \<noteq> (Inr LeaseSkipped, l')"
  by (induction ops cf u lk ps l rule: acquire_polls.induct)
    (auto simp: Let_def split: prod.splits option.splits link_error.splits if_splits)

lemma link_of_simps [simp]:
  "link_of proc_of None = None"
  "link_of proc_of (Some c) = Some (li_refresh c, case li_lease c of None \<Rightarrow> None | Some e \<Rightarrow> proc_of (le_holder e))"
  by (simp_all add: link_of_def)

lemma gateway_refines:
  assumes ls: "link_store ops cur" and holders: "\<And>p. proc_of (lc_holder (cfg p)) = Some p"
    and step: "gateway_step True exp_of ops cur cfg proc_of u w w'"
    and inv: "lease_inv (view proc_of cur u w)"
  shows "lease_step (view proc_of cur u w) (view proc_of cur u w')"
  using step
proof (cases rule: gateway_step.cases)
  case (lease p poll lk l')
  from lease_taken [OF ls lease(4,3)] obtain c where c: "pending_of u (wo_linker w p) = None" "pending_of u l' = None"
    "cur (wo_store w) u = Some c" "li_refresh c = li_refresh lk" "\<not> leased_elsewhere (cfg p) (po_now poll) c"
    "cur (ln_store l') u = Some (c\<lparr>li_lease :=
        Some \<lparr>le_holder = lc_holder (cfg p), le_until = po_now poll + lc_lease_ttl (cfg p)\<rparr>\<rparr>)"
    by auto
  have alone: "\<not> keeps (view proc_of cur u w) q (li_refresh lk)" if q: "q \<noteq> p" for q
  proof
    assume k: "keeps (view proc_of cur u w) q (li_refresh lk)"
    with inv_keeps(2) [OF inv k] c(3,4) obtain e where e: "li_lease c = Some e" "proc_of (le_holder e) = Some q"
      by (auto split: option.splits)
    with lease(5) c(3,4) k q have "po_now poll < le_until e" by (auto simp: timely_def)
    moreover have "le_holder e \<noteq> lc_holder (cfg p)" using e(2) holders [of p] q by auto
    ultimately show False using c(5) e(1) by (simp add: leased_elsewhere_def)
  qed
  show ?thesis
    using lease_step.take_lease [of "view proc_of cur u w" p "li_refresh lk" _, OF _ _ _ alone] lease(2) c holders [of p]
    by (simp add: lease(1) view_put_back)
next
  case (no_lease p poll lk res l')
  have same: "move p AtRest None (as_store a) a = a" if "as_phase a p = AtRest" "as_pending a p = None" for a
    using that by (simp add: fun_upd_idem)
  from lease_not_taken [OF ls no_lease(4,3,5,6)] have "view proc_of cur u w' = view proc_of cur u w"
    using same [of "view proc_of cur u w"] no_lease(2) by (simp add: no_lease(1) view_put_back)
  then show ?thesis by (simp add: lease_step.nothing)
next
  case (send p lk)
  then show ?thesis
    using lease_step.ask_leased [of "view proc_of cur u w" p "li_refresh lk"] by (simp add: view_put_back)
next
  case (send_pending p c polls l')
  from send_pending(4) have l': "l' = linker_at p w" "is_dirty (linker_at p w) u"
  proof -
    have "is_dirty (linker_at p w) u"
    proof (rule ccontr)
      assume "\<not> ?thesis"
      with send_pending(4) have "acquire_polls ops (cfg p) u (ca_link c) polls (linker_at p w) = (Inr LeaseSkipped, l')"
        by (simp add: acquire_refresh_lease_def)
      with polls_not_skipped show False by blast
    qed
    with send_pending(4) show "l' = linker_at p w" "is_dirty (linker_at p w) u"
      by (simp_all add: acquire_refresh_lease_def)
  qed
  with send_pending(3) have pend: "pending_of u (wo_linker w p) = Some (li_refresh (ca_link c), ca_stored c)"
    by (auto simp: is_dirty_def pending_of_def)
  then show ?thesis
    using lease_step.ask_pending [of "view proc_of cur u w" p "li_refresh (ca_link c)" "ca_stored c"] send_pending(2)
    by (simp add: send_pending(1) view_put_back l'(1))
next
  case (turn p lk leased t i e)
  have "view proc_of cur u w' =
    (move p (Told (li_refresh lk) t leased) (as_pending (view proc_of cur u w) p) (as_store (view proc_of cur u w)) (view proc_of cur u w))
      \<lparr>as_issued := insert t (as_issued (view proc_of cur u w)), as_spent := insert (li_refresh lk) (as_spent (view proc_of cur u w))\<rparr>"
    by (auto simp: turn(1) view_def put_back_def fun_eq_iff)
  then show ?thesis
    using lease_step.rotate [of "view proc_of cur u w" p "li_refresh lk" leased t] turn(2-4) by simp
next
  case (learn p lk t i e leased r res l')
  show ?thesis
  proof (cases leased)
    case True
    with learn(2) have ph: "as_phase (view proc_of cur u w) p = Told (li_refresh lk) t True" by simp
    have sent: "send_refresh_request exp_of ops (cfg p) r u lk True (linker_at p w) = (res, l')"
      using learn(5) True by simp
    from ls learn(3,4,6) sent show ?thesis
    proof (rule learned_leased)
      fix s c assume "cur (ln_store (linker_at p w)) u = Some s" "li_refresh s = li_refresh lk"
        "cur (ln_store l') u = Some c" "li_refresh c = t" "li_lease c = None" "pending_of u l' = None"
      then show ?thesis using lease_step.written [OF ph] by (simp add: learn(1) view_put_back)
    next
      assume "cur (ln_store l') u = cur (ln_store (linker_at p w)) u" "pending_of u l' = Some (t, li_refresh lk)"
      then show ?thesis using lease_step.write_failed [OF ph] by (simp add: learn(1) view_put_back)
    next
      assume a: "cur (ln_store l') u = cur (ln_store (linker_at p w)) u" "pending_of u l' = None"
        and b: "\<And>s. cur (ln_store (linker_at p w)) u = Some s \<Longrightarrow> li_refresh s \<noteq> li_refresh lk"
      have "as_store (view proc_of cur u w) \<noteq> Some (li_refresh lk, h)" for h
        using b by (cases "cur (wo_store w) u") auto
      then show ?thesis using lease_step.superseded [OF ph] a by (simp add: learn(1) view_put_back)
    qed
  next
    case False
    with learn(2) have ph: "as_phase (view proc_of cur u w) p = Told (li_refresh lk) t False" by simp
    with inv_proc [OF inv, of p] obtain s where s: "pending_of u (wo_linker w p) = Some (li_refresh lk, s)"
      by auto
    let ?new = "rotated_link exp_of lk t i e"
    have new: "li_lease ?new = None" "li_refresh ?new = t" using learn(6) by (simp_all add: rotated_link_def)
    have "send_refresh_request exp_of ops (cfg p) r u lk False (linker_at p w) = (res, l')"
      using learn(5) False by simp
    note eq = learned_unleased [OF learn(3,4,6) this]
    show ?thesis
    proof (rule saved_link [OF ls new(1), of "rq_now r" "rq_later r" u "linker_at p w"])
      fix c assume "cur (ln_store (linker_save ops (rq_now r) (rq_later r) u ?new (linker_at p w))) u = Some c"
        "li_refresh c = li_refresh ?new" "li_lease c = None"
        "pending_of u (linker_save ops (rq_now r) (rq_later r) u ?new (linker_at p w)) = None"
      then show ?thesis using lease_step.saved [OF ph] eq new(2) by (simp add: learn(1) view_put_back)
    next
      assume "cur (ln_store (linker_save ops (rq_now r) (rq_later r) u ?new (linker_at p w))) u = cur (ln_store (linker_at p w)) u"
        "pending_of u (linker_save ops (rq_now r) (rq_later r) u ?new (linker_at p w)) =
          Some (li_refresh ?new, case pending_of u (linker_at p w) of None \<Rightarrow> '''' | Some (x, s) \<Rightarrow> s)"
      then show ?thesis using lease_step.save_failed [OF ph, of s] eq new(2) s by (simp add: learn(1) view_put_back)
    qed
  qed
next
  case (refusal p lk leased r res l')
  from refused_link [OF ls refusal(3,4,5)] have r: "pending_of u l' = None"
    "cur (ln_store l') u = cur (wo_store w) u \<or> cur (ln_store l') u = None" by simp_all
  have ph: "as_phase (view proc_of cur u w) p = Asking (li_refresh lk) leased" using refusal(2) by simp
  let ?st = "link_of proc_of (cur (ln_store l') u)"
  have "?st = None \<or> ?st = as_store (view proc_of cur u w) \<and>
    (\<forall>x s h. as_pending (view proc_of cur u w) p = Some (x, s) \<longrightarrow> as_store (view proc_of cur u w) \<noteq> Some (s, h))"
  proof (cases "cur (ln_store l') u")
    case (Some c)
    with r(2) have "cur (wo_store w) u = Some c" by auto
    with refusal(6) Some show ?thesis by auto
  qed simp
  then show ?thesis using lease_step.refused [OF ph] r(1) by (simp add: refusal(1) view_put_back)
next
  case (no_answer p lk leased r res l')
  from unanswered_link [OF ls no_answer(3,4,5)] holders [of p] show ?thesis
    using lease_step.unanswered [of "view proc_of cur u w" p "li_refresh lk" leased] no_answer(2)
    by (auto simp: no_answer(1) view_put_back)
next
  case (sign_in p lk now later)
  let ?l = "linker_save ops now later u lk (linker_at p w)"
  have eq: "view proc_of cur u w' =
      (move p AtRest (pending_of u ?l) (link_of proc_of (cur (ln_store ?l) u)) (view proc_of cur u w))
        \<lparr>as_issued := insert (li_refresh lk) (as_issued (view proc_of cur u w))\<rparr>"
    by (auto simp: sign_in(1) view_def put_back_def fun_eq_iff)
  have ph: "as_phase (view proc_of cur u w) p = AtRest" "li_refresh lk \<notin> as_issued (view proc_of cur u w)"
    using sign_in by simp_all
  show ?thesis
    by (rule saved_link [OF ls sign_in(5), of now later u "linker_at p w"])
      (use lease_step.sign_in [OF ph sign_in(4)] lease_step.sign_in_unsaved [OF ph sign_in(4)] in \<open>simp_all add: eq\<close>)
next
  case (sign_out p err l')
  have ph: "as_phase (view proc_of cur u w) p = AtRest" using sign_out(2) by simp
  show ?thesis
  proof (cases "err = None")
    case True
    with dropped_link [OF ls sign_out(3)] lease_step.sign_out [OF ph] show ?thesis
      by (simp add: sign_out(1) view_put_back)
  next
    case False
    with sign_out(4) have "pending_of u (wo_linker w p) = None" by simp
    moreover from False have "cur (ln_store l') u = cur (wo_store w) u" "pending_of u l' = None"
      using dropped_link [OF ls sign_out(3)] by auto
    ultimately show ?thesis using lease_step.crashed [of "view proc_of cur u w" p] ph
      by (simp add: sign_out(1) view_put_back)
  qed
next
  case (flush p now done_it l')
  have ph: "as_phase (view proc_of cur u w) p = AtRest" using flush(2) by simp
  show ?thesis
  proof (cases "pending_of u (wo_linker w p)")
    case None
    then have "l' = linker_at p w" using flush(3)
      by (auto simp: flush_one_def pending_of_def split: option.splits if_splits)
    with None show ?thesis using lease_step.crashed [of "view proc_of cur u w" p] ph
      by (simp add: flush(1) view_put_back)
  next
    case (Some xs)
    then obtain c where c: "entry_of (linker_at p w) u = Some c" "ca_dirty c" "xs = (li_refresh (ca_link c), ca_stored c)"
      by (auto simp: pending_of_def split: option.splits if_splits)
    note settled = flush_settles [OF ls c(1,2) flush(3)]
    show ?thesis
    proof (cases done_it)
      case False
      with settled c have "pending_of u l' = pending_of u (wo_linker w p)" "cur (ln_store l') u = cur (wo_store w) u"
        by (auto simp: pending_of_def)
      then have "view proc_of cur u w' = view proc_of cur u w"
        using flush(2) by (auto simp: flush(1) view_def put_back_def fun_eq_iff)
      then show ?thesis by (simp add: lease_step.nothing)
    next
      case True
      with settled have none: "pending_of u l' = None"
        by (auto simp: pending_of_def split: option.splits)
      have pend: "as_pending (view proc_of cur u w) p = Some (li_refresh (ca_link c), ca_stored c)"
        using Some c(3) by simp
      show ?thesis
      proof (cases "ca_stored c = '''' \<or> (\<exists>s. cur (wo_store w) u = Some s \<and> li_refresh s = ca_stored c)")
        case yes: True
        with settled True have "cur (ln_store l') u = Some (ca_link c)" by simp
        moreover have "ca_stored c = '''' \<or> (\<exists>h. as_store (view proc_of cur u w) = Some (ca_stored c, h))"
          using yes by auto
        ultimately show ?thesis using lease_step.flushed [OF ph pend] none
          by (auto simp: flush(1) view_put_back)
      next
        case no: False
        with settled True have "cur (ln_store l') u = cur (wo_store w) u" by simp
        moreover have "ca_stored c \<noteq> ''''" "\<And>h. as_store (view proc_of cur u w) \<noteq> Some (ca_stored c, h)"
          using no by (auto simp: link_of_def split: option.splits)
        ultimately show ?thesis using lease_step.gave_way [OF ph pend] none
          by (simp add: flush(1) view_put_back)
      qed
    qed
  qed
next
  case (load p now res l')
  from loaded_link [OF load(2)] have "view proc_of cur u w' = view proc_of cur u w"
    by (auto simp: load(1) view_def put_back_def fun_eq_iff)
  then show ?thesis by (simp add: lease_step.nothing)
next
  case (crash p lk)
  have "pending_of u (new_linker (wo_store w)) = None" by (simp add: pending_of_def new_linker_def)
  then show ?thesis
    using lease_step.crashed [of "view proc_of cur u w" p] crash(2,3)
    by (auto simp: crash(1) view_put_back new_linker_def)
next
  case (elsewhere s)
  then have "view proc_of cur u w' = view proc_of cur u w" by (simp add: view_def)
  then show ?thesis by (simp add: lease_step.nothing)
qed

subsection \<open>Reachable worlds\<close>

inductive gateway_runs ::
  "bool \<Rightarrow> (string \<Rightarrow> int option) \<Rightarrow> 's link_ops \<Rightarrow> ('s \<Rightarrow> string \<Rightarrow> link option) \<Rightarrow> (nat \<Rightarrow> link_config) \<Rightarrow>
   (string \<Rightarrow> nat option) \<Rightarrow> string \<Rightarrow> 's world \<Rightarrow> 's world \<Rightarrow> bool"
  for strict exp_of ops cur cfg proc_of u where
  start: "gateway_runs strict exp_of ops cur cfg proc_of u w w"
| further: "gateway_runs strict exp_of ops cur cfg proc_of u w w1 \<Longrightarrow>
    gateway_step strict exp_of ops cur cfg proc_of u w1 w2 \<Longrightarrow>
    gateway_runs strict exp_of ops cur cfg proc_of u w w2"

text \<open>Freshly started processes over a store whose token, if any, muster issued and nobody spent.\<close>

definition fresh_world :: "('s \<Rightarrow> string \<Rightarrow> link option) \<Rightarrow> string \<Rightarrow> 's world \<Rightarrow> bool" where
  "fresh_world cur u w \<longleftrightarrow>
     (\<forall>p. wo_phase w p = Idle \<and> pending_of u (wo_linker w p) = None) \<and> wo_spent w = {} \<and>
     '''' \<notin> wo_issued w \<and> (\<forall>c. cur (wo_store w) u = Some c \<longrightarrow> li_refresh c \<in> wo_issued w)"

lemma fresh_world_inv: "fresh_world cur u w \<Longrightarrow> lease_inv (view proc_of cur u w)"
  by (auto simp: fresh_world_def lease_inv_def owns_of_def link_of_def split: option.splits)

lemma runs_inv:
  assumes "link_store ops cur" and "\<And>p. proc_of (lc_holder (cfg p)) = Some p"
    and "gateway_runs True exp_of ops cur cfg proc_of u w w'" and "lease_inv (view proc_of cur u w)"
  shows "lease_inv (view proc_of cur u w')"
  using assms(3,4)
proof (induction rule: gateway_runs.induct)
  case (start w)
  then show ?case .
next
  case (further w w1 w2)
  note inv = further.IH [OF further.prems]
  from gateway_refines [OF assms(1,2) further.hyps(2) inv] inv show ?case
    by (rule lease_inv_step)
qed

text \<open>C2: Gateway processes that share a link store never present a refresh token that one of them has
  already had rotated, and no two present the same token at once, whatever the store's failures and the
  order of their refreshes, retries, sign-ins, sign-outs and crashes: provided no lease runs out, by
  the clock of a process taking the lease, while its holder's request or the write of its outcome is
  outstanding, and no outcome muster gave is lost.
\<close>

theorem no_token_presented_twice:
  assumes "link_store ops cur" and "\<And>p. proc_of (lc_holder (cfg p)) = Some p"
    and "fresh_world cur u w" and "gateway_runs True exp_of ops cur cfg proc_of u w w'"
    and "wo_phase w' p = Sent lk leased"
  shows "li_refresh lk \<notin> wo_spent w' \<and>
    (\<forall>q lk' leased'. q \<noteq> p \<longrightarrow> wo_phase w' q = Sent lk' leased' \<longrightarrow> li_refresh lk' \<noteq> li_refresh lk)"
proof -
  note inv = runs_inv [OF assms(1,2,4) fresh_world_inv [OF assms(3)]]
  have sent: "owns (view proc_of cur u w') q (li_refresh k)" "li_refresh k \<notin> wo_spent w'"
    if "wo_phase w' q = Sent k b" for q k b
    using inv_proc [OF inv, of q] that by (auto simp: owns_of_def split: if_splits)
  have "q = p" if "wo_phase w' q = Sent k b" "li_refresh k = li_refresh lk" for q k b
    using inv_apart [OF inv sent(1) [OF assms(5)]] sent(1) [OF that(1)] that(2) by metis
  with sent(2) [OF assms(5)] show ?thesis by metis
qed

subsection \<open>A run, and one whose lease runs out\<close>

definition fleet :: "nat \<Rightarrow> link_config" where
  "fleet p = sample_config\<lparr>lc_holder := replicate p (CHR ''p'')\<rparr>"

definition fleet_member :: "string \<Rightarrow> nat option" where
  "fleet_member h = Some (length h)"

lemma fleet_named: "fleet_member (lc_holder (fleet p)) = Some p"
  by (simp add: fleet_member_def fleet_def)

definition link_a :: link where "link_a = ca_link (sample_copy ''a'' '''')"

definition leased_a :: "nat \<Rightarrow> gotime \<Rightarrow> link" where
  "leased_a p now = link_a\<lparr>li_lease :=
     Some \<lparr>le_holder = lc_holder (fleet p), le_until = now + refresh_lease_ttl\<rparr>\<rparr>"

definition first_world :: "flaky world" where
  "first_world =
     \<lparr>wo_store = (False, [(''u'', link_a)]), wo_linker = (\<lambda>_. new_linker (False, [])),
      wo_phase = (\<lambda>_. Idle), wo_issued = {''a''}, wo_spent = {}\<rparr>"

definition poll_at :: "gotime \<Rightarrow> 's poll" where
  "poll_at now = \<lparr>po_others = id, po_now = now, po_later = now, po_cancelled = False\<rparr>"

abbreviation fleet_run :: "bool \<Rightarrow> flaky world \<Rightarrow> flaky world \<Rightarrow> bool" where
  "fleet_run strict \<equiv>
     gateway_runs strict (\<lambda>_. None) flaky_links (\<lambda>s. map_of (snd s)) fleet fleet_member ''u''"

lemma first_world_fresh: "fresh_world (\<lambda>s. map_of (snd s)) ''u'' first_world"
  by (simp add: fresh_world_def first_world_def pending_of_def new_linker_def link_a_def sample_copy_def)

lemma lc_fleet [simp]: "lc_lease_ttl (fleet p) = refresh_lease_ttl"
  by (simp add: fleet_def sample_config_def new_config_def)

lemma link_a_sel [simp]: "li_refresh link_a = ''a''" "li_lease link_a = None"
  by (simp_all add: link_a_def sample_copy_def)

lemma take_a:
  assumes "ln_links l = []" and "ln_store l = (False, [(''u'', lk)])" and "li_refresh lk = ''a''"
    and "\<not> leased_elsewhere (fleet p) now lk"
  shows "acquire_refresh_lease flaky_links (fleet p) ''u'' link_a [poll_at now] l =
    (Inr LeaseHeld, l\<lparr>ln_store := (False, [(''u'', lk\<lparr>li_lease :=
       Some \<lparr>le_holder = lc_holder (fleet p), le_until = now + refresh_lease_ttl\<rparr>\<rparr>)])\<rparr>)"
  using assms
  by (simp add: acquire_refresh_lease_def is_dirty_def poll_at_def flaky_links_def links_update_def
      lease_fn_def Let_def)

definition asked_world :: "flaky world" where
  "asked_world = put_back 0 ((new_linker (False, []))\<lparr>ln_store := (False, [(''u'', leased_a 0 5)])\<rparr>)
     (Sent link_a True) first_world"

lemma asked_world_reached: "fleet_run strict first_world asked_world"
proof -
  let ?l = "(new_linker (False, []))\<lparr>ln_store := (False, [(''u'', leased_a 0 5)])\<rparr> :: flaky linker"
  have at: "linker_at 0 first_world = (new_linker (False, []))\<lparr>ln_store := (False, [(''u'', link_a)])\<rparr>"
    by (simp add: linker_at_def first_world_def)
  have take: "acquire_refresh_lease flaky_links (fleet 0) ''u'' link_a [poll_at 5] (linker_at 0 first_world) = (Inr LeaseHeld, ?l)"
    unfolding at by (subst take_a) (simp_all add: leased_elsewhere_def leased_a_def new_linker_def)
  have time: "timely fleet_member (\<lambda>s. map_of (snd s)) ''u'' first_world 0 5"
    by (simp add: timely_def first_world_def)
  have one: "gateway_step strict (\<lambda>_. None) flaky_links (\<lambda>s. map_of (snd s)) fleet fleet_member ''u''
      first_world (put_back 0 ?l (Leased link_a) first_world)"
    by (rule gateway_step.lease [where cfg = fleet and p = 0, OF _ _ take]) (simp_all add: first_world_def poll_at_def time [unfolded first_world_def])
  have two: "gateway_step strict (\<lambda>_. None) flaky_links (\<lambda>s. map_of (snd s)) fleet fleet_member ''u''
      (put_back 0 ?l (Leased link_a) first_world) asked_world"
    using gateway_step.send [of "put_back 0 ?l (Leased link_a) first_world" 0 link_a]
    by (simp add: asked_world_def put_back_def linker_at_def)
  show ?thesis
    by (rule gateway_runs.further [OF gateway_runs.further [OF gateway_runs.start one] two])
qed

theorem no_token_presented_twice_witness:
  "''a'' \<notin> wo_spent asked_world \<and> wo_phase asked_world 0 = Sent link_a True"
  using no_token_presented_twice [OF flaky_store fleet_named first_world_fresh asked_world_reached, of 0 link_a True]
  by (simp add: asked_world_def put_back_def)

text \<open>When a lease does run out before its holder could write the rotated link, the next process
  presents a token muster has already rotated.
\<close>

theorem lapsed_lease_replays:
  "\<exists>w p lk. fleet_run False first_world w \<and> wo_phase w p = Sent lk True \<and> li_refresh lk \<in> wo_spent w"
proof -
  let ?step = "gateway_step False (\<lambda>_. None) flaky_links (\<lambda>s. map_of (snd s)) fleet fleet_member ''u''"
  let ?held = "(False, [(''u'', leased_a 0 5)])"
  let ?w1 = "(put_back 0 (linker_at 0 asked_world) (Turned link_a ''a+'' ''j'' 7 True) asked_world)
    \<lparr>wo_issued := {''a+'', ''a''}, wo_spent := {''a''}\<rparr>"
  let ?w2 = "?w1\<lparr>wo_store := (True, [(''u'', leased_a 0 5)])\<rparr>"
  obtain res l where learn:
    "send_refresh_request (\<lambda>_. None) flaky_links (fleet 0) (rotating id) ''u'' link_a True (linker_at 0 ?w2) = (res, l)"
    by fastforce
  let ?w3 = "put_back 0 l Idle ?w2"
  let ?w4 = "?w3\<lparr>wo_store := ?held\<rparr>"
  have store: "ln_store l = (True, [(''u'', leased_a 0 5)])" using learn
    by (auto simp: send_refresh_request_def rotating_def save_rotated_def flaky_links_def linker_at_def
        link_simps Let_def split: if_splits)
  have turn: "?step asked_world ?w1"
    using gateway_step.turn [of asked_world 0 link_a True "''a+''"]
    by (simp add: asked_world_def put_back_def first_world_def)
  have down: "?step ?w1 ?w2"
    by (rule gateway_step.elsewhere) (simp add: asked_world_def put_back_def linker_at_def)
  have learned: "?step ?w2 ?w3"
    by (rule gateway_step.learn [where cfg = fleet and p = 0 and t = "''a+''", OF _ _ _ learn]) (simp_all add: put_back_def rotating_def)
  have up: "?step ?w3 ?w4"
    by (rule gateway_step.elsewhere) (simp add: store put_back_def)
  let ?now = "5 + refresh_lease_ttl"
  have at: "linker_at 1 ?w4 = (new_linker (False, []))\<lparr>ln_store := ?held\<rparr>"
    by (simp add: linker_at_def put_back_def asked_world_def first_world_def)
  let ?l1 = "(new_linker (False, []))\<lparr>ln_store := (False, [(''u'', leased_a 1 ?now)])\<rparr> :: flaky linker"
  have take: "acquire_refresh_lease flaky_links (fleet 1) ''u'' link_a [poll_at ?now] (linker_at 1 ?w4) = (Inr LeaseHeld, ?l1)"
    unfolding at by (subst take_a [where lk = "leased_a 0 5"]) (simp_all add: leased_elsewhere_def leased_a_def new_linker_def)
  have idle: "wo_phase ?w4 1 = Idle" by (simp add: put_back_def asked_world_def first_world_def)
  have lease: "?step ?w4 (put_back 1 ?l1 (Leased link_a) ?w4)"
    by (rule gateway_step.lease [where cfg = fleet and p = 1, OF idle _ take]) (simp_all add: poll_at_def)
  let ?w5 = "put_back 1 ?l1 (Leased link_a) ?w4"
  have send: "?step ?w5 (put_back 1 (linker_at 1 ?w5) (Sent link_a True) ?w5)"
    by (rule gateway_step.send) (simp add: put_back_def)
  have run: "fleet_run False first_world (put_back 1 (linker_at 1 ?w5) (Sent link_a True) ?w5)"
    by (rule gateway_runs.further [OF gateway_runs.further [OF gateway_runs.further [OF gateway_runs.further
      [OF gateway_runs.further [OF gateway_runs.further [OF asked_world_reached turn] down] learned] up] lease] send])
  moreover have "wo_phase (put_back 1 (linker_at 1 ?w5) (Sent link_a True) ?w5) 1 = Sent link_a True"
    by (simp add: put_back_def)
  moreover have "li_refresh link_a \<in> wo_spent (put_back 1 (linker_at 1 ?w5) (Sent link_a True) ?w5)"
    by (simp add: put_back_def)
  ultimately show ?thesis by blast
qed

end
