(* ===== verification/Spec2Isabelle.thy ===== *)
theory Spec2Isabelle
  imports Turn TurnTimer StreamSpec Validate ValkeyStore MemoryStore LinkBackends LeaseProtocol
begin

text \<open>
  A model of klaus-gateway, the process that connects chat channels to agents: a message in a
  Slack thread becomes a turn of an agent session, and what the agent streams becomes replies in
  the thread. Sources are named relative to \<open>src/\<close>.

  \<^bold>\<open>The program and the theories.\<close>

  \<^item> The routing store keeps one row per thread and one record per review request.
    \<open>RoutingKey\<close> has the keys and their serialised form, \<open>Records\<close> the rows
    (\<open>pkg/routing/store/store.go\<close>). \<open>StoreSpec\<close> states the contract of the two
    interfaces of that file as locales: \<open>thread_store\<close> (what a read returns after an update,
    which rows a list gives), \<open>reliable_store\<close> for a store whose operations do not fail, and
    \<open>review_store\<close>. The parameter \<open>slack\<close> is how long before its expiry a row may be
    gone: 0 for two stores, one millisecond for Valkey, which counts expiry in milliseconds.
    \<open>MemoryStore\<close>, \<open>BoltStore\<close> and \<open>ValkeyStore\<close> model the three stores
    (\<open>pkg/routing/store/{memory,bolt,valkey}\<close>) and interpret the locales.

  \<^item> The facade (\<open>pkg/channels/facade.go\<close>, \<open>share.go\<close>, \<open>threadrecord.go\<close>)
    turns messages into turns. \<open>Channel\<close> has the values it exchanges with a channel,
    \<open>ThreadRecord\<close> the two ages of a thread, \<open>Binding\<close> the session of a thread
    (\<open>sessionFor\<close>) and the record of the turn in flight, \<open>Share\<close> how another person's
    turn is let into a session (with \<open>Seal\<close> for \<open>pkg/seal\<close>), \<open>ContextId\<close> and
    \<open>Title\<close> the request id and title of a session, \<open>Parts\<close> the outgoing message.

  \<^item> \<open>A2A\<close> and \<open>Hitl\<close> model the agent's tasks and events and its questions to the
    person (\<open>pkg/a2a/hitl.go\<close>, \<open>hitl_parse.go\<close>); \<open>EventMapper\<close> the text a stream
    of events renders to, \<open>StreamTask\<close> the goroutine that pumps them to a channel,
    \<open>Failure\<close> the classes of failures and \<open>Turn\<close> the whole turn with its one retry.
    \<open>TurnTimer\<close> is the record of a turn, \<open>Validate\<close> the checks on requests that come in
    over the HTTP interface.

  \<^item> The account links (\<open>pkg/auth/musterlink\<close>) tie a Slack user to a muster identity.
    \<open>LinkStore\<close> has the link, the contract of its stores as the locale \<open>link_store\<close> and the
    in-memory store; \<open>LinkBackends\<close> the bbolt file and the Kubernetes Secret (\<open>store.go\<close>,
    \<open>store_secret.go\<close>, \<open>store_import.go\<close>), both sublocale instances of the contract;
    \<open>LinkCache\<close> the process-local copy with its write retries (\<open>links.go\<close>);
    \<open>Refresh\<close> the refresh of a token under a lease (\<open>lease.go\<close>, \<open>refresh.go\<close>,
    \<open>TokenFor\<close> in \<open>musterlink.go\<close>). \<open>LeaseSpec\<close> is the lease protocol as a step
    relation on tokens with its invariant; \<open>LeaseProtocol\<close> runs those operations in several
    processes over one store and shows that every such run is one of the protocol's.

  \<^item> The Slack channel (\<open>pkg/channels/slack\<close>) renders a turn. \<open>SlackText\<close> and
    \<open>Mrkdwn\<close> have its text functions, byte for byte (\<open>mrkdwn.go\<close> and the helpers of
    \<open>stream.go\<close>), \<open>Utf8\<close> the lemmas that no cut falls inside a rune.
    \<open>StreamWriter\<close> is the \<open>batchedWriter\<close>: its queue, its batches and the Slack calls
    that open, append to, roll over, recover and close a message; \<open>StreamLoop\<close> states and
    proves its contract (everything queued is taken once and in order, or still queued, or the reply
    was stopped) and that its loops end; \<open>StreamRun\<close> is the writer's run over the deltas of a
    turn, with the session status, the narration and what an earlier process had delivered
    (\<open>continuation.go\<close>); \<open>StreamSpec\<close> has the properties. \<open>ToolLog\<close> and
    \<open>Inspect\<close> are the retained tool calls of a thread and the blocks that show them
    (\<open>inspect.go\<close>, \<open>toolnames.go\<close>).

  \<^bold>\<open>How state and effects are modelled.\<close> A store is a state that every operation returns
  updated; an operation holds its lock, transaction or script for its whole body and is one step.
  What other goroutines or replicas do between two steps of an operation is an argument
  (\<open>meanwhile\<close>, \<open>others\<close>, \<open>committed\<close>), a function on the state the theorems
  quantify over. The clock an operation reads is its argument \<open>now\<close>; time does not pass
  within an operation. Calls on the controller are a list in the order they are made, their answers
  arguments. Slack is a function from the calls made so far, with their answers, to the next answer,
  so that every sequence of answers is covered. A channel that may stop listening is a function from the number of deliveries and
  checks made so far to whether it still listens. A time is an integer count of nanoseconds since
  Go's zero time; durations are int64 values with their saturation and wrap-around written out
  (\<open>Prelude\<close>). Strings are Go's byte strings; \<open>Title\<close> decodes them to runes as Go
  does. A Go map is an association list with distinct keys, its order unspecified.

  \<^bold>\<open>Parameters.\<close> SHA-256, AES-GCM, JSON, bbolt and the Valkey server are not under
  \<open>src/\<close>. They are arguments with their documented behaviour as hypotheses
  (\<open>aead_laws\<close>, \<open>codec_laws\<close>, \<open>bolt_laws\<close>, \<open>vk_laws\<close>, \<open>cipher_laws\<close>,
  \<open>secret_laws\<close>), each with a
  concrete instance that satisfies it.

  \<^bold>\<open>What is proved.\<close> The stores refine one contract: an update is a read-modify-write of
  one row, a list is complete, eviction is invisible (and, for bbolt, exactly when nothing is
  committed between its two transactions), a review is claimed once. A turn is answered once; one
  cut short by a shutdown is found again, one that was over is not, and only an unanswered one is
  cancelled. A thread keeps its session, its grants and its share consistent whatever interleaves.
  A sealed share opens only where it was made.
  An account link's refresh token survives a store that is away, and a write to the shared Secret loses
  no other replica's write. A streamed answer equals the recorded one. Whatever Slack answers, a
  streamed reply comes to an end with a prefix of the answer on screen, in order, once and counted
  exactly; with the whole answer when Slack takes every call; and with the session at rest.

  \<^bold>\<open>Fuel and bounds.\<close> The compare-and-set loop of a review update runs at most
  \<open>review_update_attempts\<close> times, the source's own bound. The loops that cut a text and that
  send a queue are \<open>partial_function\<close>s, shown to return. Every other recursion is structural
  or has a measure.

  \<^bold>\<open>Not modelled.\<close> The rest of the Slack channel (its event loop, commands, prompts and modals), the
  HTTP handlers of the sign-in, the review HTTP handlers, the
  refusal watcher, the clients of the controller, of muster and of the workspace service,
  configuration, metrics and the HTTP server. Logging, contexts' deadlines and connection handling
  of the stores are left out of the components that are modelled.
\<close>

section \<open>The facade over the memory store\<close>

text \<open>
  The properties that span components are stated over the store the code runs with in one
  process: the facade's operations with \<open>mem_routes\<close>, from any store the process reaches.
  The lemmas they rest on are proved in the locales of StoreSpec, Binding, Share and Turn, and
  reach the model through the interpretations \<open>mem\<close>, and by the sublocales of BoltStore and
  ValkeyStore the other two stores.
\<close>

definition mem_facade :: "duration \<Rightarrow> mem_store facade" where
  "mem_facade ttl = \<lparr>fc_agent = True, fc_routes = Some mem_routes, fc_durable = False, fc_ttl = ttl\<rparr>"

lemma mem_facade_sel [simp]:
  "fc_agent (mem_facade ttl)" "fc_routes (mem_facade ttl) = Some mem_routes"
  "\<not> fc_durable (mem_facade ttl)" "fc_ttl (mem_facade ttl) = ttl"
  by (simp_all add: mem_facade_def)

lemma mem_row: "mem_get now k s = Inr (Some e) \<longleftrightarrow> mem_live now s k = Some e"
  by (simp add: mem_get_live)

text \<open>A message in the thread of the examples, and the process's first turn in it.\<close>

definition message_a :: inbound where
  "message_a = zero_inbound\<lparr>m_channel := ''slack'', m_channel_id := ''C1'', m_thread_id := ''17.5'',
     m_text := ''hi'', m_bearer := ''tok'', m_agent_ref := ''helper''\<rparr>"

lemma message_a_key [simp]: "msg_key message_a = thread_a"
  by (simp add: message_a_def msg_key_def zero_inbound_def thread_key_def thread_a_def)

lemma message_a_sel [simp]:
  "m_agent_ref message_a = ''helper''" "m_workspace message_a = None" "m_grant message_a = []"
  "m_owner_token message_a = []" "m_bearer message_a = ''tok''"
  "m_task_id message_a = []" "\<not> m_collaborator message_a"
  by (simp_all add: message_a_def zero_inbound_def)

lemma first_session:
  obtains s' where
    "session_for (\<lambda>s. s) (mem_facade 100) 5 (Inr ''ctx'') (\<lambda>s. s) no_ctx message_a mem_new =
      (Inr ''ctx'', [start_call (\<lambda>s. s) no_ctx message_a None], s')"
    and "mem_reach s'" and "mem_get 5 thread_a s' = Inr (Some (bind_row 100 5 message_a None ''ctx'' zero_entry))"
proof -
  let ?f = "bind_mutate 100 5 message_a None ''ctx''"
  have none: "mem_live 5 mem_new thread_a = None" by (simp add: mem_live_def mem_new_def)
  then have get: "rt_get mem_routes 5 thread_a mem_new = Inr None"
    by (simp add: mem_routes_def mem_get_live)
  obtain s' where u: "rt_update mem_routes 5 thread_a ?f mem_new = (Some (zero_entry, False), None, s')"
    using mem.upd_eq [OF mem_inv_new, of 5 thread_a ?f] none by auto
  then have "mem_update 5 thread_a ?f mem_new = (Some (zero_entry, False), None, s')"
    by (simp only: mem_routes_def routes.simps)
  with reach_new have "mem_reach s'" by (rule reach_update)
  moreover have "mem_live 5 s' thread_a = Some (bind_row 100 5 message_a None ''ctx'' zero_entry)"
    by (rule mem.upd_stamped(1) [OF mem_inv_new u])
      (simp_all add: none bind_mutate_def reopen_def bind_row_sel)
  moreover have "session_for (\<lambda>s. s) (mem_facade 100) 5 (Inr ''ctx'') (\<lambda>s. s) no_ctx message_a mem_new =
      (Inr ''ctx'', [start_call (\<lambda>s. s) no_ctx message_a None], s')"
    using get u by (simp add: session_for_def Let_def live_entry_def ended_calls_def wanted_workspace_def
        ws_chosen_def bind_session_def rebind_calls_def reopen_def left_share_def)
  ultimately show ?thesis using that by (simp add: mem_row)
qed

section \<open>Properties: sessions and threads\<close>

text \<open>C0: A turn that was given a session leaves the thread's row bound to it: the next
  \<open>Get\<close> finds that session, under the agent and the workspace the message asked for, last
  seen at the turn.\<close>

theorem turn_binds_its_session:
  assumes "mem_reach s"
    and "session_for sha (mem_facade ttl) now start (\<lambda>s. s) c msg s = (Inr sid, calls, s')"
  shows "\<exists>e. mem_get now (msg_key msg) s' = Inr (Some e) \<and> e_instance e = sid \<and>
    e_agent_ref e = m_agent_ref msg \<and> wanted_workspace msg e = e_workspace e \<and> e_last_seen e = now"
  using mem.session_for_binds [OF mem_reach_inv [OF assms(1)] mem_facade_sel(2) assms(2)]
  by (simp add: mem_row)

theorem turn_binds_its_session_witness:
  "\<exists>s' e. mem_get 5 thread_a s' = Inr (Some e) \<and> e_instance e = ''ctx'' \<and> e_agent_ref e = ''helper''"
proof (rule first_session)
  fix s'
  assume "session_for (\<lambda>s. s) (mem_facade 100) 5 (Inr ''ctx'') (\<lambda>s. s) no_ctx message_a mem_new =
      (Inr ''ctx'', [start_call (\<lambda>s. s) no_ctx message_a None], s')"
  from turn_binds_its_session [OF reach_new this] show ?thesis by auto
qed

text \<open>C0: The next turn of the same agent and workspace, while the conversation lasts, resumes
  the session the row names and asks the controller for nothing.\<close>

theorem next_turn_resumes_session:
  assumes "mem_reach s" and "mem_get now (msg_key msg) s = Inr (Some e)"
    and "\<not> thread_closed ttl e now" and "e_instance e \<noteq> []" and "e_agent_ref e = m_agent_ref msg"
    and "m_workspace msg = None \<or> m_workspace msg = e_workspace e"
  shows "\<exists>s'. session_for sha (mem_facade ttl) now start (\<lambda>s. s) c msg s = (Inr (e_instance e), [], s')"
proof (rule mem.session_for_resumes [OF mem_reach_inv [OF assms(1)] mem_facade_sel(2) _ assms(4,5)])
  show "live_entry (fc_ttl (mem_facade ttl)) now (mem_live now s (msg_key msg)) = Some e"
    using assms(2,3) by (simp add: mem_row live_entry_def)
  show "wanted_workspace msg e = e_workspace e"
    using assms(5,6) by (auto simp: wanted_workspace_def)
qed

theorem next_turn_resumes_session_witness:
  "\<exists>s s'. session_for (\<lambda>s. s) (mem_facade 100) 5 (Inl (plain_error ''down'')) (\<lambda>s. s) no_ctx message_a s =
     (Inr ''ctx'', [], s')"
proof (rule first_session)
  fix s
  let ?e = "bind_row 100 5 message_a None ''ctx'' zero_entry"
  assume r: "mem_reach s" and "mem_get 5 thread_a s = Inr (Some ?e)"
  then have g: "mem_get 5 (msg_key message_a) s = Inr (Some ?e)" by simp
  have "\<not> thread_closed 100 ?e 5" by (rule thread_fresh_open) (simp add: bind_row_sel)
  from next_turn_resumes_session [OF r g this, of "\<lambda>s. s" "Inl (plain_error ''down'')" no_ctx]
  show ?thesis by (auto simp: bind_row_sel)
qed

text \<open>C0: A workspace session is never started without a grant: every start a turn asks for
  carries the message's own grant, the workspace it names is the message's when it names one, and
  a chosen workspace with no grant starts nothing.\<close>

theorem no_workspace_without_grant:
  assumes "session_for sha f now start meanwhile c msg s = (res, calls, s')"
    and "CallStart c' agent request name grant \<in> set calls"
  shows "c' = c \<and> agent = m_agent_ref msg \<and> grant = m_grant msg \<and>
    (\<exists>w. request = synthesize_context_id sha (m_channel msg) (m_channel_id msg) [] (m_thread_id msg)
           (m_agent_ref msg) w \<and>
       (ws_chosen w \<longrightarrow> m_grant msg \<noteq> []) \<and> (m_workspace msg \<noteq> None \<longrightarrow> w = m_workspace msg))"
  using session_for_starts [OF assms] by (auto simp: start_call_def)

theorem no_workspace_without_grant_witness:
  "\<exists>calls s'. session_for (\<lambda>s. s) (mem_facade 100) 5 (Inr ''ctx'') (\<lambda>s. s) no_ctx
       message_a mem_new = (Inr ''ctx'', calls, s') \<and>
     (\<exists>request name. CallStart no_ctx ''helper'' request name [] \<in> set calls)"
proof (rule first_session)
  fix s'
  assume s: "session_for (\<lambda>s. s) (mem_facade 100) 5 (Inr ''ctx'') (\<lambda>s. s) no_ctx message_a mem_new =
      (Inr ''ctx'', [start_call (\<lambda>s. s) no_ctx message_a None], s')"
  obtain c agent request name grant where
    call: "start_call (\<lambda>s. s) no_ctx message_a None = CallStart c agent request name grant"
    by (simp add: start_call_def)
  from no_workspace_without_grant [OF s, of c agent request name grant] call
  have "c = no_ctx" "agent = ''helper''" "grant = []" by simp_all
  with s call show ?thesis by (metis list.set_intros(1))
qed

text \<open>C0: Binding a turn to a session, whether it resumes or starts one, keeps what people
  decided in the thread: who opened it, whom they let in, what is held back and when it was
  muted.\<close>

theorem turn_keeps_grants:
  assumes "mem_reach s" and "mem_get now (msg_key msg) s = Inr (Some e0)"
    and "\<not> thread_closed ttl e0 now"
    and "session_for sha (mem_facade ttl) now start (\<lambda>s. s) c msg s = (Inr sid, calls, s')"
  shows "\<exists>e. mem_get now (msg_key msg) s' = Inr (Some e) \<and> e_initiator e = e_initiator e0 \<and>
    e_granted e = e_granted e0 \<and> e_held e = e_held e0 \<and> e_muted_at e = e_muted_at e0"
proof -
  have "live_entry (fc_ttl (mem_facade ttl)) now (mem_live now s (msg_key msg)) = Some e0"
    using assms(2,3) by (simp add: mem_row live_entry_def)
  from mem.session_for_keeps_grants [OF mem_reach_inv [OF assms(1)] mem_facade_sel(2) assms(4) this]
  show ?thesis by (auto simp: mem_row dest: live_entry_Some)
qed

theorem turn_keeps_grants_witness:
  "\<exists>s s' e. session_for (\<lambda>s. s) (mem_facade 100) 5 (Inl (plain_error ''down'')) (\<lambda>s. s) no_ctx
      message_a s = (Inr ''ctx'', [], s') \<and> mem_get 5 thread_a s' = Inr (Some e) \<and> e_granted e = []"
proof (rule first_session)
  fix s
  let ?e = "bind_row 100 5 message_a None ''ctx'' zero_entry"
  assume r: "mem_reach s" and "mem_get 5 thread_a s = Inr (Some ?e)"
  then have g: "mem_get 5 (msg_key message_a) s = Inr (Some ?e)" by simp
  have fresh: "\<not> thread_closed 100 ?e 5" by (rule thread_fresh_open) (simp add: bind_row_sel)
  have "live_entry (fc_ttl (mem_facade 100)) 5 (mem_live 5 s (msg_key message_a)) = Some ?e"
    using g fresh by (simp add: mem_row live_entry_def)
  then obtain s' where s': "session_for (\<lambda>s. s) (mem_facade 100) 5 (Inl (plain_error ''down'')) (\<lambda>s. s)
      no_ctx message_a s = (Inr ''ctx'', [], s')"
    using mem.session_for_resumes [OF mem_reach_inv [OF r] mem_facade_sel(2), of 100 5 message_a ?e
        "\<lambda>s. s" "Inl (plain_error ''down'')" no_ctx]
    by (auto simp: bind_row_sel wanted_workspace_def)
  from turn_keeps_grants [OF r g fresh s'] s' show ?thesis by (auto simp: bind_row_sel)
qed

text \<open>C0: A conversation ages in three steps: for its lifetime after the last write the thread
  reads as open with the row that was written; for as long again it reads as ended, with nothing
  of the row but its lifetime; after that as never seen.\<close>

theorem thread_ages:
  assumes "mem_reach s" and "0 < ttl" and "2 * ttl < 2 ^ 63 - 1" and "now \<noteq> 0" and "now \<le> u"
    and "update_thread_record (mem_facade ttl) now c i t m s = (None, s')"
    and "case_prod m (shown (live_entry ttl now (mem_live now s (thread_key c i t)))) = Some e"
  shows "get_thread_state (mem_facade ttl) u c i t s' =
    Inr (if u - now \<le> ttl
         then no_thread_state\<lparr>ts_entry := stamp ttl now e, ts_found := True\<rparr>
         else if u - now \<le> 2 * ttl then no_thread_state\<lparr>ts_closed := True, ts_lifetime := ttl\<rparr>
         else no_thread_state)"
proof -
  note inv = mem_reach_inv [OF assms(1)] and fac = mem_facade_sel(2) [of ttl]
  have s': "mem_inv s'" by (rule mem.update_record_inv [OF inv fac assms(6)])
  note ages = mem.update_record_ages [OF inv fac assms(6), unfolded mem_facade_sel,
      OF assms(7,2,3,4,5)]
  show ?thesis using ages mem.thread_state_eq [OF s' fac] by (simp add: mem_facade_sel)
qed

theorem thread_ages_witness:
  "\<exists>s'. get_thread_state (mem_facade 100) 205 ''slack'' ''C1'' ''17.5'' s' =
      Inr (no_thread_state\<lparr>ts_closed := True, ts_lifetime := 100\<rparr>) \<and>
    get_thread_state (mem_facade 100) 206 ''slack'' ''C1'' ''17.5'' s' = Inr no_thread_state"
proof -
  let ?m = "\<lambda>e found. Some (e\<lparr>e_instance := ''i''\<rparr>)"
  obtain s' where s': "update_thread_record (mem_facade 100) 5 ''slack'' ''C1'' ''17.5'' ?m mem_new = (None, s')"
    using mem.upd_ok [OF mem_inv_new, of 5 "thread_key ''slack'' ''C1'' ''17.5''" "stamped 100 5 ?m"]
    by (auto simp: update_thread_record_def)
  have m: "case_prod ?m (shown (live_entry 100 5 (mem_live 5 mem_new (thread_key ''slack'' ''C1'' ''17.5''))))
      = Some (zero_entry\<lparr>e_instance := ''i''\<rparr>)"
    by (simp add: mem_live_def mem_new_def live_entry_def)
  have "get_thread_state (mem_facade 100) 205 ''slack'' ''C1'' ''17.5'' s' =
      Inr (no_thread_state\<lparr>ts_closed := True, ts_lifetime := 100\<rparr>)"
    using thread_ages [OF reach_new _ _ _ _ s' m, of 205] by simp
  moreover have "get_thread_state (mem_facade 100) 206 ''slack'' ''C1'' ''17.5'' s' = Inr no_thread_state"
    using thread_ages [OF reach_new _ _ _ _ s' m, of 206] by simp
  ultimately show ?thesis by blast
qed

section \<open>Properties: turns\<close>

text \<open>
  The facade over the bbolt file. \<open>same_file\<close>: what a process finds when it opens the file
  another one left: the keys it committed.
\<close>

definition bolt_facade :: "('d, 'b) bolt_db \<Rightarrow> 'b codec \<Rightarrow> duration \<Rightarrow> 'd facade" where
  "bolt_facade db C ttl =
     \<lparr>fc_agent = True, fc_routes = Some (bolt_routes db C), fc_durable = True, fc_ttl = ttl\<rparr>"

lemma bolt_facade_sel [simp]:
  "fc_agent (bolt_facade db C ttl)" "fc_routes (bolt_facade db C ttl) = Some (bolt_routes db C)"
  "fc_ttl (bolt_facade db C ttl) = ttl" "resumes_turns (bolt_facade db C ttl)"
  by (simp_all add: bolt_facade_def resumes_turns_def)

definition same_file :: "('d, 'b) bolt_db \<Rightarrow> 'd \<Rightarrow> 'd \<Rightarrow> bool" where
  "same_file db d d' \<longleftrightarrow> (\<forall>b k. bd_get db b k d' = bd_get db b k d)"

context bolt_backend begin

lemma found_after_restart:
  assumes "bolt_inv db d" and "bolt_get db C now k d = Inr (Some e)" and "e_instance e \<noteq> []" and "plain_key k"
    and "stream_task L l read True [] evs err = Inr tr" and "cut_short L l read [] evs err"
    and "Remember t \<in> set tr"
    and "bolt_update db C now k (remember_mutate t resume) d = (seen, None, d1)"
    and "same_file db (record_writes (bolt_facade db C ttl) (\<lambda>_. now) k resume 0 tr d) d2"
    and "now \<le> u" and "\<not> entry_expired e u" and "\<not> thread_closed ttl2 e u"
    and "in_flight_turns (bolt_facade db C ttl2) u (k_channel k) d2 = Inr turns"
  shows "\<exists>x\<in>set turns. ift_task_id x = t \<and> m_channel_id (ift_msg x) = k_channel_id k \<and>
    m_thread_id (ift_msg x) = k_thread_id k \<and> m_agent_ref (ift_msg x) = e_agent_ref e \<and>
    m_resume (ift_msg x) = (if resume = Some [] then None else resume) \<and>
    ift_delivered x = zero_delivered"
proof -
  let ?f = "bolt_facade db C ttl"
  let ?e = "json_norm (e\<lparr>e_task_id := t, e_resume := resume, e_delivered := zero_delivered\<rparr>)"
  from cut_short_writes [OF assms(5,6)] obtain t' where t': "t' \<noteq> []" "writes tr = [Remember t']"
    and w: "record_writes ?f (\<lambda>_. now) k resume 0 tr d = remember_task ?f now k t' resume d"
    by metis
  have "Remember t \<in> set (writes tr)" using assms(7) by (simp add: store_act_def)
  with t' have t: "t' = t" "t \<noteq> []" by auto
  have live: "bolt_live db C now d k = Some e" using get_eq_live [OF assms(2)] by simp
  have up: "rt_update (bolt_routes db C) now k (remember_mutate t resume) d = (seen, None, d1)"
    using assms(8) by (simp add: bolt_routes_def)
  have fresh: "\<not> entry_expired e (u + 0)" using assms(11) by simp
  note row = routes.remembered_live [OF assms(1) bolt_facade_sel(2) live up assms(10) disjI1 [OF refl] fresh]
  have same: "\<And>b x. bd_get db b x d2 = bd_get db b x d1"
    using assms(9) w row(1) t by (simp add: same_file_def)
  have "bolt_inv db d2" and "bolt_live db C u d2 k = Some ?e"
    using row(2,3) live_cong [OF same] by simp_all
  from routes.listed_in_flight [OF this(1) bolt_facade_sel(2) bolt_facade_sel(1) this(2) _ _ _ assms(4,13)]
    assms(3,12) t(2)
  have "in_flight_of k ?e \<in> set turns" by (simp add: thread_closed_def cong: if_cong split del: if_split)
  then show ?thesis
    by (rule rev_bexI) (simp add: in_flight_of_def json_norm_def delivered_is_zero_def zero_delivered_def)
qed

lemma minted_accounted:
  assumes "bolt_inv db d" and "mt_id m \<noteq> []"
    and "keep_minted a nonce (bolt_routes db C) now owner k held sid m d = (token, calls, d')"
    and "bolt_get db C now k d = Inr row"
    and "\<And>e. row = Some e \<Longrightarrow> open_share (Some a) now k (e_share e) sid 0 \<noteq> Some []"
  shows "CallRevoke owner (mt_id m) \<in> set calls \<or>
    token = mt_token m \<and>
      ((\<exists>e sh. bolt_live db C now d' k = Some e \<and> e_share e = Some sh \<and> sh_id sh = mt_id m \<and>
         sh_instance sh = sid \<and> e_instance e = sid) \<or>
       (\<exists>sealed seen err. seal_seal a nonce (mt_token m) (share_aad k sid) = Inr sealed \<and>
         bolt_update db C now k (store_share_mutate (Some a) now k held sid m sealed) d = (seen, Some err, d') \<and>
         (\<forall>t x. bolt_live db C t d' x = bolt_live db C t d x)))"
proof -
  have nonempty: "open_share (Some a) now k (e_share e) sid 0 \<noteq> Some []"
    if "bolt_live db C now d k = Some e" for e
    using assms(5) get_eq_live [OF assms(4)] that by simp
  show ?thesis
  proof (rule routes.keep_minted_accounted [OF refl assms(1-3) nonempty], assumption)
    fix sealed seen err
    assume "rt_update (bolt_routes db C) now k (store_share_mutate (Some a) now k held sid m sealed) d =
      (seen, Some err, d')"
    then have u: "bolt_update db C now k (store_share_mutate (Some a) now k held sid m sealed) d =
      (seen, Some err, d')" by (simp add: bolt_routes_def)
    then have "\<And>b x. bd_get db b x d' = bd_get db b x d" by (cases rule: update_cases) auto
    then have "bolt_live db C t d' = bolt_live db C t d" for t by (rule live_cong(1))
    moreover assume "seal_seal a nonce (mt_token m) (share_aad k sid) = Inr sealed" "token = mt_token m"
    ultimately show ?thesis using u by auto
  qed auto
qed

end

text \<open>C0: A turn the gateway's shutdown cuts short is found by the next process. The goroutine of
  the turn wrote its record to the bbolt file, the write of the task committed, and the process
  ended; another process opens the file, with a conversation lifetime of its own, and asks for the
  turns in flight. Its listing names the thread, its agent, the task the goroutine recorded, what
  the channel needs to resume it and no delivered text yet, as long as the conversation has not
  ended. The database and the codec are parameters with their documented behaviour; the thread's
  key is one its string form reads back.\<close>

theorem interrupted_turn_is_found:
  assumes "bolt_laws db" and "codec_laws C" and "bolt_inv db d"
    and "bolt_get db C now k d = Inr (Some e)" and "e_instance e \<noteq> []" and "plain_key k"
    and "stream_task L l read True [] evs err = Inr tr" and "cut_short L l read [] evs err"
    and "Remember t \<in> set tr"
    and "bolt_update db C now k (remember_mutate t resume) d = (seen, None, d1)"
    and "same_file db (record_writes (bolt_facade db C ttl) (\<lambda>_. now) k resume 0 tr d) d2"
    and "now \<le> u" and "\<not> entry_expired e u" and "\<not> thread_closed ttl2 e u"
    and "in_flight_turns (bolt_facade db C ttl2) u (k_channel k) d2 = Inr turns"
  shows "\<exists>x\<in>set turns. ift_task_id x = t \<and> m_channel_id (ift_msg x) = k_channel_id k \<and>
    m_thread_id (ift_msg x) = k_thread_id k \<and> m_agent_ref (ift_msg x) = e_agent_ref e \<and>
    m_resume (ift_msg x) = (if resume = Some [] then None else resume) \<and>
    ift_delivered x = zero_delivered"
  by (rule bolt_backend.found_after_restart [OF bolt_backend.intro [OF assms(1,2)] assms(3-14)
      assms(15)])

text \<open>C0: A turn that was answered, failed, asked a question or was stopped by its channel leaves
  nothing to resume: once its goroutine is done the row has no task, and still the session.\<close>

theorem answered_turn_is_cleared:
  assumes "mem_reach s" and "mem_get now k s = Inr (Some e)"
    and "stream_task L l read shutdown [] evs err = Inr tr"
    and "\<not> (shutdown \<and> cut_short L l read [] evs err)" and "Remember t \<in> set tr"
  shows "\<exists>e'. mem_get now k (record_writes (mem_facade ttl) (\<lambda>_. now) k resume 0 tr s) = Inr (Some e') \<and>
    e_task_id e' = [] \<and> e_instance e' = e_instance e \<and> e_agent_ref e' = e_agent_ref e"
  using mem.answered_row [OF mem_reach_inv [OF assms(1)] mem_facade_sel(2) _ assms(3-5)] assms(2)
  by (simp add: mem_row)

lemma short_turn_remembers:
  obtains tr where
    "stream_task basic_lib (leaves_after 0) (Inl (plain_error [])) False [] short_turn None = Inr tr"
    and "Remember ''t'' \<in> set tr"
  by (simp add: run_turn Let_def)

theorem answered_turn_is_cleared_witness:
  "\<exists>s tr e'. Remember ''t'' \<in> set tr \<and>
    mem_get 5 thread_a (record_writes (mem_facade 100) (\<lambda>_. 5) thread_a None 0 tr s) = Inr (Some e') \<and>
    e_task_id e' = [] \<and> e_instance e' = ''ctx''"
proof (rule first_session)
  fix s
  let ?e = "bind_row 100 5 message_a None ''ctx'' zero_entry"
  assume r: "mem_reach s" and g: "mem_get 5 thread_a s = Inr (Some ?e)"
  obtain tr where tr: "stream_task basic_lib (leaves_after 0) (Inl (plain_error [])) False [] short_turn None
      = Inr tr" and t: "Remember ''t'' \<in> set tr" by (rule short_turn_remembers)
  from answered_turn_is_cleared [OF r g tr _ t, of 100 None] t show ?thesis
    by (auto simp: bind_row_sel)
qed

text \<open>A file that holds the bound row of the example's thread, and the next process on it.\<close>

definition bound_row :: entry where
  "bound_row = zero_entry\<lparr>e_agent_ref := ''helper'', e_instance := ''ctx'', e_last_seen := 5, e_ttl := 200\<rparr>"

definition bound_file :: "((string \<times> string) \<times> stored) list" where
  "bound_file = [((routes_bucket, key_string thread_a), StoredEntry bound_row)]"

theorem interrupted_turn_is_found_witness:
  "\<exists>tr turns. in_flight_turns (bolt_facade list_db plain_codec 50) 6 ''slack''
      (record_writes (bolt_facade list_db plain_codec 100) (\<lambda>_. 5) thread_a (Some [(''ts'', ''1'')]) 0 tr
        bound_file) = Inr turns \<and>
    (\<exists>x\<in>set turns. ift_task_id x = ''t'' \<and> m_thread_id (ift_msg x) = ''17.5'' \<and>
       m_agent_ref (ift_msg x) = ''helper'' \<and> m_resume (ift_msg x) = Some [(''ts'', ''1'')])"
proof -
  let ?resume = "Some [(''ts'', ''1'')]"
  let ?new = "bound_row\<lparr>e_task_id := ''t'', e_resume := ?resume, e_delivered := zero_delivered\<rparr>"
  let ?d = "[((routes_bucket, key_string thread_a), StoredEntry ?new)]"
  obtain tr where tr: "stream_task basic_lib (leaves_after 0) (Inl (plain_error [])) True [] short_turn None
      = Inr tr" and r: "Remember ''t'' \<in> set tr" by (simp add: run_turn Let_def)
  have cut: "cut_short basic_lib (leaves_after 0) (Inl (plain_error [])) [] short_turn None"
    by (simp add: cut_short_def end_pump_def turn_env_of_def run_turn Let_def)
  have norm: "json_norm bound_row = bound_row" "json_norm ?new = ?new"
    by (simp_all add: json_norm_def bound_row_def zero_entry_def delivered_is_zero_def zero_delivered_def)
  have x: "\<not> entry_expired bound_row 5" "\<not> entry_expired bound_row 6" "\<not> thread_closed 50 bound_row 6"
    "\<not> entry_expired ?new 6"
    by (simp_all add: entry_expired_def thread_closed_def bound_row_def time_sub_def wrap64_def)
  note ev = bound_file_def list_db_def plain_codec_def norm x
  have inv: "bolt_inv list_db bound_file"
    by (auto simp: bolt_inv_def list_db_def bound_file_def)
  have g: "bolt_get list_db plain_codec 5 thread_a bound_file = Inr (Some bound_row)"
    by (simp add: bolt_get_def ev)
  have u: "bolt_update list_db plain_codec 5 thread_a (remember_mutate ''t'' ?resume) bound_file
      = (Some (bound_row, True), None, ?d)"
    by (simp add: bolt_update_def bolt_tx_def remember_mutate_def ev)
  from cut_short_writes [OF tr cut] obtain t' where t': "writes tr = [Remember t']"
    and w: "record_writes (bolt_facade list_db plain_codec 100) (\<lambda>_. 5) thread_a ?resume 0 tr bound_file =
      remember_task (bolt_facade list_db plain_codec 100) 5 thread_a t' ?resume bound_file" by metis
  have "Remember ''t'' \<in> set (writes tr)" using r by (simp add: store_act_def)
  with t' have "t' = ''t''" by simp
  with w u have d: "record_writes (bolt_facade list_db plain_codec 100) (\<lambda>_. 5) thread_a ?resume 0 tr bound_file
      = ?d" by (simp add: remember_task_def update_binding_def bolt_routes_def)
  have same: "same_file list_db
      (record_writes (bolt_facade list_db plain_codec 100) (\<lambda>_. 5) thread_a ?resume 0 tr bound_file) ?d"
    by (simp add: d same_file_def)
  obtain rows where rows: "bolt_list list_db plain_codec 6 ?d = Inr rows"
    by (cases "parse_key (key_string thread_a)") (simp_all add: bolt_list_def ev)
  obtain turns where turns: "in_flight_turns (bolt_facade list_db plain_codec 50) 6 (k_channel thread_a) ?d
      = Inr turns"
    using rows by (simp add: in_flight_turns_def bolt_routes_def)
  have i: "e_instance bound_row \<noteq> []" by (simp add: bound_row_def)
  from interrupted_turn_is_found [OF list_db_laws plain_codec_laws inv g i plain_thread_a tr cut r u same _ x(2,3)
      turns]
  have "\<exists>x\<in>set turns. ift_task_id x = ''t'' \<and> m_thread_id (ift_msg x) = ''17.5'' \<and>
      m_agent_ref (ift_msg x) = ''helper'' \<and> m_resume (ift_msg x) = Some [(''ts'', ''1'')]"
    by (auto simp: thread_a_def bound_row_def)
  moreover have "k_channel thread_a = ''slack''" by (simp add: thread_a_def)
  ultimately show ?thesis using turns d by (intro exI [of _ tr] exI [of _ turns]) simp
qed

text \<open>C0: Everything a turn asks of the controller, its session, its share and their revocation,
  is asked as the session's owner when the message carries the owner's token and as the sender
  otherwise, and for the message's agent; the turn itself is always sent as the sender.\<close>

theorem turn_acts_as_its_people:
  assumes "send_via_a2a sha L f sealer now A msg s = (res, calls, s')"
  shows "list_all (\<lambda>x. cx_agent (call_identity x) = m_agent_ref msg \<and>
      cx_bearer (call_identity x) = (if m_owner_token msg \<noteq> [] then m_owner_token msg else m_bearer msg)) calls \<and>
    (case res of Inl _ \<Rightarrow> True
     | Inr t \<Rightarrow> cx_bearer (sn_ctx t) = m_bearer msg \<and> cx_agent (sn_ctx t) = m_agent_ref msg)"
proof -
  have "cx_agent (call_identity x) = m_agent_ref msg \<and>
      cx_bearer (call_identity x) = (if m_owner_token msg \<noteq> [] then m_owner_token msg else m_bearer msg)"
    if "x \<in> set calls" for x
    using send_via_a2a_calls [OF assms that] by (auto simp: ctx_bearer no_ctx_def)
  moreover have "case res of Inl _ \<Rightarrow> True
     | Inr t \<Rightarrow> cx_bearer (sn_ctx t) = m_bearer msg \<and> cx_agent (sn_ctx t) = m_agent_ref msg"
    using assms by (cases res) (auto dest: send_via_a2a_sent)
  ultimately show ?thesis by (simp add: list_all_iff)
qed

text \<open>A turn of the examples: the session is started, no share is needed and the agent answers.\<close>

definition answers_a :: "mem_store answers" where
  "answers_a =
     \<lparr>aw_start = Inr ''ctx'', aw_bind_meanwhile = (\<lambda>s. s), aw_mint = MintRefused [], aw_nonce = None,
      aw_share_meanwhile = (\<lambda>s. s), aw_paused = Inl (plain_error []), aw_events = short_turn,
      aw_stream_error = None, aw_read = Inl (plain_error []), aw_listener = always_listening,
      aw_shutdown = False\<rparr>"

theorem turn_acts_as_its_people_witness:
  "\<exists>t s'. send_via_a2a (\<lambda>s. s) basic_lib (mem_facade 100) None 5 answers_a message_a mem_new =
      (Inr t, [start_call (\<lambda>s. s) (with_caller_auth no_ctx message_a) message_a None], s') \<and>
    cx_bearer (sn_ctx t) = ''tok''"
proof -
  have none: "rt_get mem_routes 5 thread_a mem_new = Inr None"
    by (simp add: mem_routes_def mem_get_live mem_live_def mem_new_def)
  obtain seen s1 where u: "rt_update mem_routes 5 thread_a (bind_mutate 100 5 message_a None ''ctx'') mem_new
      = (seen, None, s1)" using mem.upd_ok [OF mem_inv_new] by blast
  from mem.upd_seen [OF mem_inv_new u] have seen: "seen = Some (zero_entry, False)"
    by (simp add: mem_live_def mem_new_def)
  have owner: "with_owner_auth (with_caller_auth no_ctx message_a) message_a = with_caller_auth no_ctx message_a"
    by (simp add: with_owner_auth_def with_caller_auth_def with_forwarded_token_def with_agent_ref_def)
  obtain t s' where t: "send_via_a2a (\<lambda>s. s) basic_lib (mem_facade 100) None 5 answers_a message_a mem_new =
      (Inr t, [start_call (\<lambda>s. s) (with_caller_auth no_ctx message_a) message_a None], s')"
    using u none
    by (simp add: send_via_a2a_def session_for_def Let_def live_entry_def ended_calls_def owner
        wanted_workspace_def ws_chosen_def bind_session_def rebind_calls_def reopen_def left_share_def
        seen with_share_def answers_a_def outbound_message_def
        stream_task_def short_turn_def)
  from turn_acts_as_its_people [OF t] t show ?thesis by auto
qed

text \<open>C0: A person's decision answers the request it was shown for: it is sent only when the
  task is paused on a request this gateway reads, the decision names no other request, and then
  the message continues that task and carries the answer to that request. An approval decides
  every tool of the request it was asked about, each by the identifier it was shown under.\<close>

theorem decision_answers_its_request:
  assumes "outbound_message L paused msg = Inr m" and "m_task_id msg \<noteq> []"
    and "m_decision msg = Some d"
  shows "\<exists>tk r. paused = Inr tk \<and> st_state (tk_status tk) \<in> {TInputRequired, TAuthRequired} \<and>
    parse_hitl_request (lib_url_parse L) (st_message (tk_status tk)) = Inr (Some r) \<and>
    (hd_request_id d = [] \<or> hd_request_id d = hitl_id r) \<and> ms_task_id m = m_task_id msg \<and>
    hitl_payload (Some m) = Some (response_json (hitl_response r d)) \<and>
    (case hitl_response r d of
       ApprovalResponse vs \<Rightarrow>
         map tv_id vs = map ht_id (hp_tools (prompt_of r)) \<and>
         list_all (\<lambda>v. tv_approved v \<longleftrightarrow> hd_type d = decision_approve) vs
     | _ \<Rightarrow> True)"
proof -
  from outbound_answer [OF assms] obtain tk r where
    r: "paused = Inr tk" "st_state (tk_status tk) \<in> {TInputRequired, TAuthRequired}"
      "parse_hitl_request (lib_url_parse L) (st_message (tk_status tk)) = Inr (Some r)"
      "hd_request_id d = [] \<or> hd_request_id d = hitl_id r" "ms_task_id m = m_task_id msg"
      "hitl_payload (Some m) = Some (response_json (hitl_response r d))"
    by blast
  moreover have "case hitl_response r d of
       ApprovalResponse vs \<Rightarrow>
         map tv_id vs = map ht_id (hp_tools (prompt_of r)) \<and>
         list_all (\<lambda>v. tv_approved v \<longleftrightarrow> hd_type d = decision_approve) vs
     | _ \<Rightarrow> True"
    using response_covers_prompt [of _ d] by (cases r) (auto simp: list_all_iff split: hitl_answer.split)
  ultimately show ?thesis by blast
qed

text \<open>A task paused on one tool, and the reply that approves it.\<close>

definition ask_message :: message where
  "ask_message =
     \<lparr>ms_role = RoleAgent, ms_task_id = ''t'', ms_parts = [],
      ms_meta = [(hitl_extension_uri, JObj [(''type'', JStr ''tool_approval_request''),
        (''tools'', JArr [JObj [(''id'', JStr ''call-1''), (''name'', JStr ''delete_pod'')]])])],
      ms_extensions = [hitl_extension_uri]\<rparr>"

definition paused_task :: task where
  "paused_task =
     \<lparr>tk_id = ''t'', tk_status = \<lparr>st_state = TInputRequired, st_message = Some ask_message\<rparr>,
      tk_artifacts = [], tk_history = [], tk_meta = []\<rparr>"

definition approval :: hitl_decision where
  "approval = \<lparr>hd_type = decision_approve, hd_answers = [], hd_rejection_reason = [], hd_request_id = []\<rparr>"

theorem decision_answers_its_request_witness:
  "\<exists>m r. outbound_message basic_lib (Inr paused_task)
       (message_a\<lparr>m_task_id := ''t'', m_decision := Some approval\<rparr>) = Inr m \<and>
     hitl_payload (Some m) = Some (response_json (hitl_response r approval)) \<and>
     hitl_response r approval = ApprovalResponse [\<lparr>tv_id = ''call-1'', tv_approved = True, tv_reason = []\<rparr>]"
proof -
  let ?msg = "message_a\<lparr>m_task_id := ''t'', m_decision := Some approval\<rparr>"
  let ?r = "\<lparr>tar_type = ''tool_approval_request'', tar_hint = [],
      tar_tools = [\<lparr>wt_id = ''call-1'', wt_call_id = [], wt_name = ''delete_pod'', wt_args = []\<rparr>],
      tar_nested = None\<rparr>"
  have p: "parse_hitl_request (lib_url_parse basic_lib) (st_message (tk_status paused_task)) =
      Inr (Some (ToolApproval ?r))"
    by (simp add: paused_task_def ask_message_def parse_hitl_request_def hitl_payload_def as_map_def
        decode_approval_def string_field_def list_field_def pointer_field_def get_field_def
        decode_tool_def object_of_def map_field_def decided_tools_def fold_name_def upper_char_def)
  obtain m where m: "outbound_message basic_lib (Inr paused_task) ?msg = Inr m"
    using p by (simp add: outbound_message_def Let_def approval_def paused_task_def)
  have d: "m_decision ?msg = Some approval" by simp
  have n: "m_task_id ?msg \<noteq> []" by simp
  have resp: "hitl_response (ToolApproval ?r) approval =
      ApprovalResponse [\<lparr>tv_id = ''call-1'', tv_approved = True, tv_reason = []\<rparr>]"
    by (simp add: approval_def decided_tools_def)
  from decision_answers_its_request [OF m n d] p
  have "hitl_payload (Some m) = Some (response_json (hitl_response (ToolApproval ?r) approval))"
    by auto
  with m resp show ?thesis by blast
qed

text \<open>C0: A channel that listens to a retried turn gets one of two things: the first attempt as
  it was, or, when the first failed in a way worth retrying before it showed anything, what it had
  sent up to the failure and then the second attempt, the first failure standing when the second
  was refused. There is never a third.\<close>

theorem retry_replaces_unshown_failure:
  assumes "retry_unshown always_listening second False 0 ds = (retried, out)"
  shows "if retried
    then \<exists>pre d post. ds = pre @ d # post \<and> (\<forall>x\<in>set pre. \<not> delta_shows x) \<and>
      is_task_failure (od_err d) \<and> retryable (classify_failure (od_err d)) \<and>
      out = pre @ (case second of Inr ds' \<Rightarrow> ds' | Inl _ \<Rightarrow> [d])
    else out = ds"
proof -
  have "ls_sent always_listening n" "\<not> ls_done always_listening n" for n
    by (simp_all add: always_listening_def)
  from retry_unshown_listening [OF assms this] show ?thesis by (simp split: if_split_asm)
qed

definition failed_delta :: "string \<Rightarrow> outbound_delta" where
  "failed_delta reason = zero_delta\<lparr>od_err := Some (task_ended TFailed reason [])\<rparr>"

theorem retry_replaces_unshown_failure_witness:
  "retry_unshown always_listening (Inr [zero_delta\<lparr>od_done := True\<rparr>]) False 0 [failed_delta ''mcp session lost'']
     = (True, [zero_delta\<lparr>od_done := True\<rparr>])"
proof -
  have r: "retryable (classify_failure (od_err (failed_delta ''mcp session lost'')))"
    "is_task_failure (od_err (failed_delta ''mcp session lost''))"
    by code_simp+
  obtain out where
    out: "retry_unshown always_listening (Inr [zero_delta\<lparr>od_done := True\<rparr>]) False 0
      [failed_delta ''mcp session lost''] = (True, out)"
    by (simp add: r always_listening_def)
  from retry_replaces_unshown_failure [OF this] out show ?thesis by (auto simp: Cons_eq_append_conv)
qed

section \<open>Properties: what every row satisfies\<close>

text \<open>
  The stores the facade makes of the empty one: each step is an eviction tick or an \<open>Update\<close> of
  any thread's row with one of the facade's own callbacks, or, through
  \<open>UpdateThreadRecord\<close>, with one of a channel's that leaves the session and its share alone.
\<close>

definition leaves_binding :: "mutate \<Rightarrow> bool" where
  "leaves_binding m \<longleftrightarrow>
     (\<forall>e found e'. m e found = Some e' \<longrightarrow>
        e_instance e' = e_instance e \<and> e_share e' = e_share e \<and> e_share_refusal e' = e_share_refusal e)"

inductive facade_reach :: "mem_store \<Rightarrow> bool" where
  facade_new: "facade_reach mem_new"
| facade_callback: "facade_reach s \<Longrightarrow>
    f \<in> set (row_callbacks ttl now msg w sid task resume sealer k held m sealed) \<Longrightarrow>
    mem_update now k' f s = (seen, err, s') \<Longrightarrow> facade_reach s'"
| facade_record: "facade_reach s \<Longrightarrow> leaves_binding m \<Longrightarrow>
    mem_update now k' (stamped ttl now m) s = (seen, err, s') \<Longrightarrow> facade_reach s'"
| facade_tick: "facade_reach s \<Longrightarrow> facade_reach (mem_tick now s)"

lemma update_values: "snd ` set (AList.update k v al) \<subseteq> insert v (snd ` set al)"
  by (induction al) auto

lemma rows_after_update:
  assumes "\<forall>e \<in> snd ` set (ms_data s). P e" and "P zero_entry"
    and "\<And>e found e'. P e \<Longrightarrow> f e found = Some e' \<Longrightarrow> P e'"
    and "mem_update now k f s = (seen, err, s')"
  shows "\<forall>e \<in> snd ` set (ms_data s'). P e"
proof -
  obtain e found where sh: "shown (mem_live now s k) = (e, found)" by fastforce
  have "P e"
  proof (cases "mem_live now s k")
    case None
    with sh assms(2) show ?thesis by simp
  next
    case (Some e0)
    then have "(key_string k, e0) \<in> set (ms_data s)" by (auto simp: mem_live_iff dest: map_of_SomeD)
    with Some sh assms(1) show ?thesis by force
  qed
  show ?thesis
  proof (cases "f e found")
    case None
    with assms(1,4) sh show ?thesis by (simp add: mem_seen)
  next
    case (Some e')
    with assms(4) sh have "ms_data s' = AList.update (key_string k) e' (ms_data s)"
      by (auto simp: mem_seen)
    with update_values [of "key_string k" e' "ms_data s"]
    have "snd ` set (ms_data s') \<subseteq> insert e' (snd ` set (ms_data s))" by simp
    with assms(1) assms(3) [OF \<open>P e\<close> Some] show ?thesis by blast
  qed
qed

lemma facade_reach_ok: "facade_reach s \<Longrightarrow> \<forall>e \<in> snd ` set (ms_data s). binding_ok e"
proof (induction rule: facade_reach.induct)
  case facade_new show ?case by (simp add: mem_new_def)
next
  case (facade_callback s f ttl now msg w sid task resume sealer k held m sealed k' seen err s')
  show ?case
    by (rule rows_after_update [OF facade_callback(4) zero_entry_ok _ facade_callback(3)])
      (rule row_callbacks_ok [OF _ facade_callback(2)])
next
  case (facade_record s m now k' ttl seen err s')
  have "binding_ok e'" if "binding_ok e" "stamped ttl now m e found = Some e'" for e found e'
    using that facade_record(2)
    by (auto simp: stamped_def reopen_def leaves_binding_def binding_ok_def Let_def
        split: option.splits if_split_asm)
  then show ?case by (rule rows_after_update [OF facade_record(4) zero_entry_ok _ facade_record(3)])
next
  case (facade_tick s now)
  then show ?case by (auto simp: mem_tick_def mem_evict_def)
qed

text \<open>C0: In every store the facade reaches, a thread's row keeps a sealed share, and the refusal
  of one, only for the session the thread is bound to: rebinding, resetting or replacing the
  session never leaves another session's share behind.\<close>

theorem row_share_is_of_its_session:
  assumes "facade_reach s" and "mem_get now k s = Inr (Some e)"
  shows "(case e_share e of None \<Rightarrow> True | Some sh \<Rightarrow> sh_instance sh = e_instance e) \<and>
    (case e_share_refusal e of None \<Rightarrow> True | Some r \<Rightarrow> sr_instance r = e_instance e)"
proof -
  from assms(2) have "(key_string k, e) \<in> set (ms_data s)"
    by (auto simp: mem_row mem_live_iff dest: map_of_SomeD)
  with facade_reach_ok [OF assms(1)] have "binding_ok e" by force
  then show ?thesis by (auto simp: binding_ok_def split: option.splits)
qed

theorem row_share_is_of_its_session_witness:
  "\<exists>s e. mem_get 5 thread_a s = Inr (Some e) \<and>
    (case e_share e of None \<Rightarrow> True | Some sh \<Rightarrow> sh_instance sh = ''ctx'')"
proof -
  let ?f = "bind_mutate 100 5 message_a None ''ctx''"
  obtain seen s' where u: "rt_update mem_routes 5 thread_a ?f mem_new = (seen, None, s')"
    using mem.upd_ok [OF mem_inv_new] by blast
  then have m: "mem_update 5 thread_a ?f mem_new = (seen, None, s')"
    by (simp only: mem_routes_def routes.simps)
  have "?f \<in> set (row_callbacks 100 5 message_a None ''ctx'' [] None None thread_a None
      \<lparr>mt_id = [], mt_token = [], mt_expires_at = 0\<rparr> [])"
    by (simp add: row_callbacks_def)
  from facade_callback [OF facade_new this m] have r: "facade_reach s'" .
  have g: "mem_get 5 thread_a s' = Inr (Some (bind_row 100 5 message_a None ''ctx'' zero_entry))"
    unfolding mem_row by (rule mem.upd_stamped(1) [OF mem_inv_new u])
      (simp_all add: mem_live_def mem_new_def bind_mutate_def reopen_def bind_row_sel)
  have i: "e_instance (bind_row 100 5 message_a None ''ctx'' zero_entry) = ''ctx''"
    by (rule bind_row_sel(2))
  from row_share_is_of_its_session [OF r g] g show ?thesis unfolding i by blast
qed





end
